(* ===== verification/Prelude.thy ===== *)
theory Prelude
  imports Main "HOL-Library.Word" "HOL-Library.Code_Target_Numeral"
begin

text \<open>
  Shared vocabulary of the development: the Rust machine types, the three-way
  outcome of a Rust computation (a value, an error value, a panic), slices and
  buffer writes with their bounds checks, overflow-checked arithmetic, the
  little-endian byte representation of integers, byte views of strings and
  \<open>std::time::Duration\<close>.  Everything here models the language and its standard
  library; the program itself is modelled in the theories that import this one.
\<close>

unbundle bit_operations_syntax

section \<open>Machine types\<close>

type_synonym u8 = "8 word"
type_synonym u16 = "16 word"
type_synonym u32 = "32 word"
type_synonym u64 = "64 word"
type_synonym bytes = "8 word list"

text \<open>Facts that decide how an outcome or a slice unfolds.\<close>

named_theorems outcome_simps

text \<open>Facts about the length and content of encoded byte strings.\<close>

named_theorems wire_simps

section \<open>Outcomes\<close>

text \<open>
  A Rust function of type \<open>Result<T, E>\<close> ends in one of three ways: it returns
  \<open>Ok\<close>, it returns \<open>Err\<close>, or it panics (an index out of range, an \<open>unwrap\<close> of
  nothing, an arithmetic overflow in a checked build).  \<open>and_then\<close> is the
  sequencing that the \<open>?\<close> operator performs.
\<close>

datatype ('a, 'e) res = Ok 'a | Err 'e | Panic

primrec and_then :: "('a, 'e) res \<Rightarrow> ('a \<Rightarrow> ('b, 'e) res) \<Rightarrow> ('b, 'e) res" where
  "and_then (Ok x) f = f x"
| "and_then (Err e) f = Err e"
| "and_then Panic f = Panic"

primrec map_err :: "('e \<Rightarrow> 'f) \<Rightarrow> ('a, 'e) res \<Rightarrow> ('a, 'f) res" where
  "map_err f (Ok x) = Ok x"
| "map_err f (Err e) = Err (f e)"
| "map_err f Panic = Panic"

primrec ok_or :: "'e \<Rightarrow> 'a option \<Rightarrow> ('a, 'e) res" where
  "ok_or e None = Err e"
| "ok_or e (Some x) = Ok x"

definition panics :: "('a, 'e) res \<Rightarrow> bool" where
  "panics r \<longleftrightarrow> r = Panic"

lemma and_then_eq_Ok [outcome_simps]:
  "and_then m f = Ok y \<longleftrightarrow> (\<exists>x. m = Ok x \<and> f x = Ok y)"
  by (cases m) auto

lemma and_then_eq_Err [outcome_simps]:
  "and_then m f = Err e \<longleftrightarrow> m = Err e \<or> (\<exists>x. m = Ok x \<and> f x = Err e)"
  by (cases m) auto

lemma and_then_eq_Panic [outcome_simps]:
  "and_then m f = Panic \<longleftrightarrow> m = Panic \<or> (\<exists>x. m = Ok x \<and> f x = Panic)"
  by (cases m) auto

lemma and_then_assoc: "and_then (and_then m f) g = and_then m (\<lambda>x. and_then (f x) g)"
  by (cases m) auto

lemma and_then_cong [fundef_cong]:
  "m = m' \<Longrightarrow> (\<And>x. m' = Ok x \<Longrightarrow> f x = g x) \<Longrightarrow> and_then m f = and_then m' g"
  by (cases m') auto

lemma map_err_eq_iff [outcome_simps]:
  "map_err f m = Ok x \<longleftrightarrow> m = Ok x"
  "map_err f m = Err b \<longleftrightarrow> (\<exists>e. m = Err e \<and> b = f e)"
  "map_err f m = Panic \<longleftrightarrow> m = Panic"
  by (cases m; auto)+

lemma ok_or_eq_iff [outcome_simps]:
  "ok_or e v = Ok x \<longleftrightarrow> v = Some x"
  "ok_or e v = Err b \<longleftrightarrow> v = None \<and> b = e"
  "ok_or e v \<noteq> Panic"
  by (cases v; auto)+

section \<open>Slices and buffers\<close>

text \<open>\<open>xs[a..b]\<close>, \<open>xs[i]\<close> and \<open>buf[off..off + n].copy_from_slice(bs)\<close>.\<close>

definition slice :: "nat \<Rightarrow> nat \<Rightarrow> 'a list \<Rightarrow> ('a list, 'e) res" where
  "slice a b xs = (if a \<le> b \<and> b \<le> length xs then Ok (take (b - a) (drop a xs)) else Panic)"

definition slice_from :: "nat \<Rightarrow> 'a list \<Rightarrow> ('a list, 'e) res" where
  "slice_from a xs = (if a \<le> length xs then Ok (drop a xs) else Panic)"

definition at_index :: "nat \<Rightarrow> 'a list \<Rightarrow> ('a, 'e) res" where
  "at_index i xs = (if i < length xs then Ok (xs ! i) else Panic)"

definition write_at :: "nat \<Rightarrow> 'a list \<Rightarrow> 'a list \<Rightarrow> ('a list, 'e) res" where
  "write_at off bs buf =
     (if off + length bs \<le> length buf
      then Ok (take off buf @ bs @ drop (off + length bs) buf) else Panic)"

lemma slice_ok [outcome_simps]:
  "a \<le> b \<Longrightarrow> b \<le> length xs \<Longrightarrow> slice a b xs = Ok (take (b - a) (drop a xs))"
  by (simp add: slice_def)

lemma slice_from_ok [outcome_simps]: "a \<le> length xs \<Longrightarrow> slice_from a xs = Ok (drop a xs)"
  by (simp add: slice_from_def)

lemma at_index_ok [outcome_simps]: "i < length xs \<Longrightarrow> at_index i xs = Ok (xs ! i)"
  by (simp add: at_index_def)

lemma write_at_ok [outcome_simps]:
  "off + length bs \<le> length buf \<Longrightarrow>
   write_at off bs buf = Ok (take off buf @ bs @ drop (off + length bs) buf)"
  by (simp add: write_at_def)

text \<open>Writing consecutive fields fills a buffer from the left.\<close>

lemma write_at_append:
  "length done = off \<Longrightarrow> length bs \<le> length rest \<Longrightarrow>
   write_at off bs (done @ rest) = Ok ((done @ bs) @ drop (length bs) rest)"
  by (simp add: write_at_def)

section \<open>Arithmetic\<close>

text \<open>
  \<open>+\<close>, \<open>-\<close> and \<open>*\<close> on unsigned integers panic on overflow in a checked build and wrap
  otherwise; the model takes the panic, so a proof that it is never reached covers
  both builds.
\<close>

definition add_w :: "'a::len word \<Rightarrow> 'a word \<Rightarrow> ('a word, 'e) res" where
  "add_w a b = (if unat a + unat b < 2 ^ LENGTH('a) then Ok (a + b) else Panic)"

definition sub_w :: "'a::len word \<Rightarrow> 'a word \<Rightarrow> ('a word, 'e) res" where
  "sub_w a b = (if b \<le> a then Ok (a - b) else Panic)"

definition mul_w :: "'a::len word \<Rightarrow> 'a word \<Rightarrow> ('a word, 'e) res" where
  "mul_w a b = (if unat a * unat b < 2 ^ LENGTH('a) then Ok (a * b) else Panic)"

definition div_w :: "'a::len word \<Rightarrow> 'a word \<Rightarrow> ('a word, 'e) res" where
  "div_w a b = (if b \<noteq> 0 then Ok (a div b) else Panic)"

text \<open>Subtraction of \<open>usize\<close> values, which are modelled by natural numbers.\<close>

definition sub_n :: "nat \<Rightarrow> nat \<Rightarrow> (nat, 'e) res" where
  "sub_n a b = (if b \<le> a then Ok (a - b) else Panic)"

lemma sub_n_ok [outcome_simps]: "b \<le> a \<Longrightarrow> sub_n a b = Ok (a - b)"
  by (simp add: sub_n_def)

definition checked_add :: "'a::len word \<Rightarrow> 'a word \<Rightarrow> 'a word option" where
  "checked_add a b = (if unat a + unat b < 2 ^ LENGTH('a) then Some (a + b) else None)"

definition checked_mul :: "'a::len word \<Rightarrow> 'a word \<Rightarrow> 'a word option" where
  "checked_mul a b = (if unat a * unat b < 2 ^ LENGTH('a) then Some (a * b) else None)"

definition saturating_add :: "'a::len word \<Rightarrow> 'a word \<Rightarrow> 'a word" where
  "saturating_add a b = (if unat a + unat b < 2 ^ LENGTH('a) then a + b else - 1)"

definition saturating_mul :: "'a::len word \<Rightarrow> 'a word \<Rightarrow> 'a word" where
  "saturating_mul a b = (if unat a * unat b < 2 ^ LENGTH('a) then a * b else - 1)"

lemma unat_add_no_overflow:
  "unat a + unat b < 2 ^ LENGTH('a) \<Longrightarrow> unat (a + b) = unat a + unat b" for a b :: "'a::len word"
  by (simp add: unat_word_ariths)

lemma unat_mul_no_overflow:
  "unat a * unat b < 2 ^ LENGTH('a) \<Longrightarrow> unat (a * b) = unat a * unat b" for a b :: "'a::len word"
  by (simp add: unat_word_ariths)

lemma unat_minus_one_word: "unat (- 1 :: 'a::len word) = 2 ^ LENGTH('a) - 1"
  by (simp add: unsigned_minus_1_eq_mask mask_eq_exp_minus_1)

lemma unat_le_max: "unat a \<le> 2 ^ LENGTH('a) - 1" for a :: "'a::len word"
  by (metis One_nat_def Suc_pred less_Suc_eq_le unsigned_less zero_less_numeral zero_less_power)

lemma unat_saturating_add:
  "unat (saturating_add a b) = min (unat a + unat b) (2 ^ LENGTH('a) - 1)" for a b :: "'a::len word"
  by (auto simp: saturating_add_def unat_add_no_overflow unat_minus_one_word)

lemma unat_saturating_mul:
  "unat (saturating_mul a b) = min (unat a * unat b) (2 ^ LENGTH('a) - 1)" for a b :: "'a::len word"
  by (auto simp: saturating_mul_def unat_mul_no_overflow unat_minus_one_word)

text \<open>A widening cast keeps the value.\<close>

lemma unat_ucast_widen:
  assumes "LENGTH('b) \<le> LENGTH('a)"
  shows "unat (ucast (x :: 'b::len word) :: 'a::len word) = unat x"
proof -
  have "unat x < 2 ^ LENGTH('a)"
    by (rule less_le_trans [OF unsigned_less]) (use assms in simp)
  then show ?thesis by (simp add: unsigned_ucast_eq take_bit_nat_eq_self)
qed

lemma unat_ucast_8_32 [simp]: "unat (ucast (x :: u8) :: u32) = unat x"
  by (rule unat_ucast_widen) simp

lemma unat_ucast_16_32 [simp]: "unat (ucast (x :: u16) :: u32) = unat x"
  by (rule unat_ucast_widen) simp

lemma unat_ucast_32_64 [simp]: "unat (ucast (x :: u32) :: u64) = unat x"
  by (rule unat_ucast_widen) simp

lemma checked_add_eq_Some:
  "checked_add a b = Some c \<longleftrightarrow> unat c = unat a + unat b" for a b :: "'a::len word"
  by (auto simp: checked_add_def unat_add_no_overflow word_unat_eq_iff) (metis unsigned_less)

lemma checked_mul_eq_Some:
  "checked_mul a b = Some c \<longleftrightarrow> unat c = unat a * unat b" for a b :: "'a::len word"
  by (auto simp: checked_mul_def unat_mul_no_overflow word_unat_eq_iff) (metis unsigned_less)

section \<open>Little-endian integers\<close>

text \<open>
  \<open>to_le n x\<close> is \<open>x.to_le_bytes()\<close> for an integer of \<open>n\<close> bytes, \<open>from_le bs\<close> is
  \<open>from_le_bytes(bs)\<close>.
\<close>

primrec to_le :: "nat \<Rightarrow> 'a::len word \<Rightarrow> bytes" where
  "to_le 0 x = []"
| "to_le (Suc n) x = ucast x # to_le n (drop_bit 8 x)"

primrec from_le :: "bytes \<Rightarrow> 'a::len word" where
  "from_le [] = 0"
| "from_le (b # bs) = ucast b OR push_bit 8 (from_le bs)"

lemma length_to_le [simp, wire_simps]: "length (to_le n x) = n"
  by (induction n arbitrary: x) auto

lemma from_le_to_le_mask: "from_le (to_le n x) = take_bit (8 * n) x"
proof (induction n arbitrary: x)
  case 0
  then show ?case by simp
next
  case (Suc n)
  show ?case
    by (rule bit_eqI) (auto simp: Suc bit_simps not_less)
qed

lemma from_le_to_le:
  assumes "LENGTH('a) \<le> 8 * n"
  shows "from_le (to_le n x) = (x :: 'a::len word)"
proof -
  have "take_bit (8 * n) x = x"
    using assms by (auto simp: bit_eq_iff bit_simps dest: bit_imp_le_length)
  then show ?thesis by (simp add: from_le_to_le_mask)
qed

lemma to_le_from_le:
  "8 * length bs \<le> LENGTH('a) \<Longrightarrow> to_le (length bs) (from_le bs :: 'a::len word) = bs"
proof (induction bs)
  case Nil
  then show ?case by simp
next
  case (Cons b bs)
  have head: "ucast (ucast b OR push_bit 8 (from_le bs) :: 'a word) = b"
    using Cons.prems by (auto simp: bit_eq_iff bit_simps dest: bit_imp_le_length)
  have "drop_bit 8 (ucast b OR push_bit 8 (from_le bs :: 'a word)) =
      take_bit (LENGTH('a) - 8) (from_le bs :: 'a word)"
    by (auto simp: bit_eq_iff bit_simps dest: bit_imp_le_length)
  moreover have "take_bit (LENGTH('a) - 8) (from_le bs :: 'a word) = from_le bs"
    using Cons.prems Cons.IH from_le_to_le_mask [of "length bs" "from_le bs :: 'a word"]
    by (auto simp: bit_eq_iff bit_simps)
  ultimately show ?case using head Cons by simp
qed

text \<open>The three widths of the wire format, as rewrite rules.\<close>

lemma from_le_to_le_16 [simp, wire_simps]: "from_le (to_le 2 x) = (x :: u16)"
  by (rule from_le_to_le) simp

lemma from_le_to_le_32 [simp, wire_simps]: "from_le (to_le 4 x) = (x :: u32)"
  by (rule from_le_to_le) simp

lemma from_le_to_le_64 [simp, wire_simps]: "from_le (to_le 8 x) = (x :: u64)"
  by (rule from_le_to_le) simp

lemma to_le_inject:
  assumes "LENGTH('a) \<le> 8 * n"
  shows "to_le n x = to_le n y \<longleftrightarrow> x = (y :: 'a::len word)"
  by (metis assms from_le_to_le)

section \<open>Strings\<close>

text \<open>
  A Rust \<open>str\<close> is modelled by its UTF-8 bytes, one \<open>char\<close> per byte, so \<open>length\<close> is
  \<open>str::len\<close>.  A byte from 128 up occurs exactly where the string has a character
  outside ASCII; the code's character tests accept ASCII characters only, so testing
  the bytes decides the same.
\<close>

definition char_byte :: "char \<Rightarrow> u8" where
  "char_byte c = of_nat (of_char c)"

definition as_bytes :: "string \<Rightarrow> bytes" where
  "as_bytes s = map char_byte s"

definition is_ascii_lowercase :: "char \<Rightarrow> bool" where
  "is_ascii_lowercase c \<longleftrightarrow> 97 \<le> (of_char c :: nat) \<and> (of_char c :: nat) \<le> 122"

definition is_ascii_uppercase :: "char \<Rightarrow> bool" where
  "is_ascii_uppercase c \<longleftrightarrow> 65 \<le> (of_char c :: nat) \<and> (of_char c :: nat) \<le> 90"

definition is_ascii_digit :: "char \<Rightarrow> bool" where
  "is_ascii_digit c \<longleftrightarrow> 48 \<le> (of_char c :: nat) \<and> (of_char c :: nat) \<le> 57"

definition to_ascii_lowercase :: "string \<Rightarrow> string" where
  "to_ascii_lowercase s =
     map (\<lambda>c. if is_ascii_uppercase c then char_of ((of_char c :: nat) + 32) else c) s"

fun strip_prefix :: "string \<Rightarrow> string \<Rightarrow> string option" where
  "strip_prefix [] s = Some s"
| "strip_prefix (p # ps) [] = None"
| "strip_prefix (p # ps) (c # s) = (if p = c then strip_prefix ps s else None)"

lemma length_as_bytes [simp, wire_simps]: "length (as_bytes s) = length s"
  by (simp add: as_bytes_def)

lemma unat_char_byte [simp]: "unat (char_byte c) = of_char c"
proof -
  have "(of_char c :: nat) < 2 ^ LENGTH(8)" by simp
  then show ?thesis by (simp add: char_byte_def unat_of_nat)
qed

lemma char_byte_inject [simp]: "char_byte c = char_byte d \<longleftrightarrow> c = d"
  by (metis of_char_eq_iff unat_char_byte)

lemma as_bytes_inject [simp]: "as_bytes s = as_bytes t \<longleftrightarrow> s = t"
proof -
  have "inj char_byte" by (rule injI) simp
  then show ?thesis by (simp add: as_bytes_def inj_map_eq_map)
qed

lemma length_to_ascii_lowercase [simp]: "length (to_ascii_lowercase s) = length s"
  by (simp add: to_ascii_lowercase_def)

lemma strip_prefix_eq_Some: "strip_prefix p s = Some t \<longleftrightarrow> s = p @ t"
  by (induction p s rule: strip_prefix.induct) auto

section \<open>Durations\<close>

text \<open>
  \<open>std::time::Duration\<close>: whole seconds and a nanosecond part below one billion, the
  invariant every constructor of the type keeps.
\<close>

record duration =
  dur_secs :: u64
  dur_nanos :: u32

definition wf_duration :: "duration \<Rightarrow> bool" where
  "wf_duration d \<longleftrightarrow> unat (dur_nanos d) < 1000000000"

definition dur_as_millis :: "duration \<Rightarrow> nat" where
  "dur_as_millis d = unat (dur_secs d) * 1000 + unat (dur_nanos d) div 1000000"

definition dur_is_zero :: "duration \<Rightarrow> bool" where
  "dur_is_zero d \<longleftrightarrow> dur_secs d = 0 \<and> dur_nanos d = 0"

definition dur_from_millis :: "u64 \<Rightarrow> duration" where
  "dur_from_millis ms = \<lparr>dur_secs = ms div 1000, dur_nanos = ucast (ms mod 1000) * 1000000\<rparr>"

definition whole_millis :: "duration \<Rightarrow> bool" where
  "whole_millis d \<longleftrightarrow> unat (dur_nanos d) mod 1000000 = 0"

lemma dur_from_millis_nanos:
  "unat (dur_nanos (dur_from_millis ms)) = unat ms mod 1000 * 1000000"
proof -
  have "unat (ucast (ms mod 1000) :: u32) = unat ms mod 1000"
    by (simp add: unsigned_ucast_eq unat_mod take_bit_nat_eq_self)
  moreover have "unat ms mod 1000 * 1000000 < 2 ^ 32"
    by (rule le_less_trans [of _ "999 * 1000000"]) simp_all
  ultimately show ?thesis
    by (simp add: dur_from_millis_def unat_word_ariths)
qed

lemma wf_dur_from_millis: "wf_duration (dur_from_millis ms)"
  unfolding wf_duration_def dur_from_millis_nanos by simp

lemma dur_from_millis_millis [simp]: "dur_as_millis (dur_from_millis ms) = unat ms"
  by (simp add: dur_as_millis_def dur_from_millis_nanos) (simp add: dur_from_millis_def unat_div)

lemma whole_dur_from_millis: "whole_millis (dur_from_millis ms)"
  by (simp add: whole_millis_def dur_from_millis_nanos)

section \<open>Progress of concurrent tasks\<close>

text \<open>
  A system that never blocks: unless it is quiet, some run of it makes the work that is
  left smaller.
\<close>

locale progress_system =
  fixes step :: "'s \<Rightarrow> 's \<Rightarrow> bool"
    and inv :: "'s \<Rightarrow> bool"
    and quiet :: "'s \<Rightarrow> bool"
    and work :: "'s \<Rightarrow> nat"
  assumes step_inv: "inv s \<Longrightarrow> step s t \<Longrightarrow> inv t"
    and advances: "inv s \<Longrightarrow> \<not> quiet s \<Longrightarrow> \<exists>t. step\<^sup>*\<^sup>* s t \<and> work t < work s"
begin

lemma run_inv: "step\<^sup>*\<^sup>* s t \<Longrightarrow> inv s \<Longrightarrow> inv t"
  by (induction rule: rtranclp_induct) (auto intro: step_inv)

lemma becomes_quiet: "inv s \<Longrightarrow> \<exists>t. step\<^sup>*\<^sup>* s t \<and> quiet t"
proof (induction "work s" arbitrary: s rule: less_induct)
  case less
  show ?case
  proof (cases "quiet s")
    case False
    from advances [OF less(2) this] obtain t where "step\<^sup>*\<^sup>* s t" "work t < work s" by blast
    then show ?thesis using less(1) run_inv less(2) by (meson rtranclp_trans)
  qed blast
qed

end

end
