(* ===== verification/Errors.thy ===== *)
theory Errors
  imports Prelude
begin

text \<open>
  The error values of the client (\<open>src/error.rs\<close> and the credential errors of
  \<open>src/api_key.rs\<close>): the public \<open>Error\<close>, its configuration and API-key parts, the
  internal \<open>CoreError\<close>, and the conversions between them.  A formatted message is
  kept as its format string and its arguments.
\<close>

section \<open>Messages and I/O errors\<close>

datatype fmt_arg = StrArg string | NumArg nat

datatype message = Text string | Fmt string "fmt_arg list"

text \<open>
  \<open>std::io::Error\<close> by its kind: the kinds the code tests or builds, and every other
  kind with the operating-system code it carries.
\<close>

datatype io_error = AddrInUse | AddrNotAvailable | OtherIo string | OsError nat

section \<open>Public errors\<close>

datatype api_key_error =
  InvalidEncoding | UnsupportedVersion | UnsupportedCredential | InvalidLimits

datatype configuration_error =
    InvalidDuration string
  | MissingTrackerField string
  | InvalidName string
  | InvalidTrackerValue string
  | InvalidTokenQuantity
  | InvalidMetricsLabel
  | ResourceWindowExceedsApiKey
  | InvalidRequestPolicy
  | RequestPolicyExceedsApiKey
  | InvalidServiceDomain
  | TooManyRequestEntries string
  | Unsupported

datatype error =
    InvalidApiKey api_key_error
  | InvalidConfiguration configuration_error
  | Discovery
  | Communication io_error
  | Timeout
  | Protocol
  | Authentication

datatype core_error =
    CoreIo io_error
  | CoreTimeout
  | CoreProtocol message
  | CoreAuth message
  | CoreDns message
  | CoreConfig message

section \<open>Conversions\<close>

primrec error_of_core :: "core_error \<Rightarrow> error" where
  "error_of_core (CoreIo e) = Communication e"
| "error_of_core CoreTimeout = Timeout"
| "error_of_core (CoreProtocol m) = Protocol"
| "error_of_core (CoreAuth m) = Authentication"
| "error_of_core (CoreDns m) = Discovery"
| "error_of_core (CoreConfig m) = InvalidConfiguration Unsupported"

text \<open>\<open>ConfigurationError::to_string\<close>, as the \<open>#[error(...)]\<close> attributes give it.\<close>

primrec display_configuration_error :: "configuration_error \<Rightarrow> message" where
  "display_configuration_error (InvalidDuration field) =
     Fmt ''{field} must be a positive whole number of milliseconds that fits in u32'' [StrArg field]"
| "display_configuration_error (MissingTrackerField field) =
     Fmt ''latency tracker is missing {field}'' [StrArg field]"
| "display_configuration_error (InvalidName kind) = Fmt ''{kind} name is invalid'' [StrArg kind]"
| "display_configuration_error (InvalidTrackerValue field) =
     Fmt ''latency tracker {field} must be positive'' [StrArg field]"
| "display_configuration_error InvalidTokenQuantity =
     Text ''tokens requested must be between 1 and 65535''"
| "display_configuration_error InvalidMetricsLabel = Text ''metrics label is too long''"
| "display_configuration_error ResourceWindowExceedsApiKey =
     Text ''resource window exceeds the API key limit''"
| "display_configuration_error InvalidRequestPolicy =
     Text ''request policy schedule is invalid''"
| "display_configuration_error RequestPolicyExceedsApiKey =
     Text ''request policy exceeds the API key limit''"
| "display_configuration_error InvalidServiceDomain = Text ''service domain is invalid''"
| "display_configuration_error (TooManyRequestEntries kind) =
     Fmt ''request contains too many {kind}'' [StrArg kind]"
| "display_configuration_error Unsupported = Text ''configuration is not supported''"

end
