(* ===== verification/Dns.thy ===== *)
theory Dns
  imports Errors
begin

text \<open>
  Service discovery of \<open>src/client.rs\<close> and the domain check of \<open>src/public_client.rs\<close>:
  server identifiers in SRV targets, the refresh of the server list, and the targets of
  a request.  The resolver is code of another crate: it is a pair of arguments that
  thread a state of their own, so repeated queries may be answered differently.  The
  text of an IP address (\<open>to_string\<close>, \<open>parse\<close>) is a pair of arguments as well.
\<close>

section \<open>Addresses\<close>

text \<open>
  \<open>IpAddr\<close> and \<open>SocketAddr\<close>; the IPv6 socket address carries a flow label and a scope,
  which \<open>SocketAddr::new\<close> sets to zero.
\<close>

datatype ip_addr = IpV4 u32 | IpV6 "128 word"

datatype socket_addr = SocketV4 u32 u16 | SocketV6 "128 word" u16 u32 u32

primrec socket_addr_new :: "ip_addr \<Rightarrow> u16 \<Rightarrow> socket_addr" where
  "socket_addr_new (IpV4 a) port = SocketV4 a port"
| "socket_addr_new (IpV6 a) port = SocketV6 a port 0 0"

primrec is_ipv4 :: "socket_addr \<Rightarrow> bool" where
  "is_ipv4 (SocketV4 a port) = True"
| "is_ipv4 (SocketV6 a port flow scope) = False"

primrec socket_port :: "socket_addr \<Rightarrow> u16" where
  "socket_port (SocketV4 a port) = port"
| "socket_port (SocketV6 a port flow scope) = port"

primrec socket_ip :: "socket_addr \<Rightarrow> ip_addr" where
  "socket_ip (SocketV4 a port) = IpV4 a"
| "socket_ip (SocketV6 a port flow scope) = IpV6 a"

section \<open>The resolver\<close>

text \<open>
  What the client uses of the resolver package: the configuration of a name server with its
  connections, a resolver of given name servers, and the resolver of the host; an error
  carries its text.
\<close>

record connection =
  conn_protocol :: string
  conn_port :: u16

record name_server =
  ns_ip :: ip_addr
  ns_connections :: "connection list"

record resolver_package =
  udp_and_tcp :: "ip_addr \<Rightarrow> name_server"
  config_resolver :: "name_server list \<Rightarrow> string + unit"
  system_resolver :: "string + unit"

definition build_resolver :: "resolver_package \<Rightarrow> socket_addr option \<Rightarrow> (unit, core_error) res" where
  "build_resolver pkg dns_server =
    (case (case dns_server of
             Some address \<Rightarrow>
               let name_server = udp_and_tcp pkg (socket_ip address);
                   name_server = name_server\<lparr>ns_connections :=
                     map (\<lambda>connection. connection\<lparr>conn_port := socket_port address\<rparr>) (ns_connections name_server)\<rparr>
               in config_resolver pkg [name_server]
           | None \<Rightarrow> system_resolver pkg) of
       Inl error \<Rightarrow> Err (CoreDns (Text error))
     | Inr _ \<Rightarrow> Ok ())"

lemma build_resolver_cases:
  obtains "build_resolver pkg dns_server = Ok ()"
  | error where "build_resolver pkg dns_server = Err (CoreDns (Text error))"
proof -
  have "build_resolver pkg dns_server = Ok () \<or> (\<exists>error. build_resolver pkg dns_server = Err (CoreDns (Text error)))"
    by (simp add: build_resolver_def split: sum.split)
  then show ?thesis using that by blast
qed

section \<open>Names\<close>

fun split_on :: "char \<Rightarrow> string \<Rightarrow> string list" where
  "split_on c [] = [[]]"
| "split_on c (x # xs) =
    (if x = c then [] # split_on c xs
     else case split_on c xs of [] \<Rightarrow> [[x]] | p # ps \<Rightarrow> (x # p) # ps)"

definition trim_end :: "char \<Rightarrow> string \<Rightarrow> string" where
  "trim_end c s = rev (dropWhile (\<lambda>x. x = c) (rev s))"

definition is_ascii_alphanumeric :: "char \<Rightarrow> bool" where
  "is_ascii_alphanumeric c \<longleftrightarrow> is_ascii_lowercase c \<or> is_ascii_uppercase c \<or> is_ascii_digit c"

definition starts_with :: "char \<Rightarrow> string \<Rightarrow> bool" where
  "starts_with c s \<longleftrightarrow> s \<noteq> [] \<and> hd s = c"

definition ends_with :: "char \<Rightarrow> string \<Rightarrow> bool" where
  "ends_with c s \<longleftrightarrow> s \<noteq> [] \<and> last s = c"

definition valid_dns_name :: "string \<Rightarrow> bool" where
  "valid_dns_name domain =
    (if domain = [] \<or> 253 < length domain \<or> starts_with (CHR ''.'') domain \<or> ends_with (CHR ''.'') domain
     then False
     else list_all (\<lambda>label. label \<noteq> [] \<and> length label \<le> 63 \<and> \<not> starts_with (CHR ''-'') label \<and>
       \<not> ends_with (CHR ''-'') label \<and>
       list_all (\<lambda>b. is_ascii_alphanumeric b \<or> b = CHR ''-'') label) (split_on (CHR ''.'') domain))"

text \<open>\<open>str::parse::<u64>\<close> on a string of digits: the value, or nothing on overflow.\<close>

definition digit_value :: "char \<Rightarrow> nat" where
  "digit_value c = of_char c - 48"

definition decimal_value :: "string \<Rightarrow> nat" where
  "decimal_value s = foldl (\<lambda>n c. 10 * n + digit_value c) 0 s"

definition parse_u64 :: "string \<Rightarrow> u64 option" where
  "parse_u64 s = (if decimal_value s < 2 ^ 64 then Some (of_nat (decimal_value s)) else None)"

definition parse_server_id_from_target :: "string \<Rightarrow> u64 option" where
  "parse_server_id_from_target target =
    (case split_on (CHR ''.'') (trim_end (CHR ''.'') target) of
       [] \<Rightarrow> None
     | first # _ \<Rightarrow>
         (case strip_prefix ''s-'' (to_ascii_lowercase first) of
            None \<Rightarrow> None
          | Some decimal \<Rightarrow>
              if decimal = [] then None
              else if 1 < length decimal \<and> starts_with (CHR ''0'') decimal then None
              else if \<not> list_all is_ascii_digit decimal then None
              else parse_u64 decimal))"

section \<open>The server list\<close>

record server_endpoint =
  se_host :: string
  se_port :: u16
  se_server_id :: "u64 option"

datatype answer = Srv string u16 | OtherAnswer

text \<open>
  The lookups of the resolver: SRV answers for a query, addresses for a host, each with the resolver's
  next state; an error carries its text.
\<close>

type_synonym 's srv_lookup = "'s \<Rightarrow> string \<Rightarrow> (string + answer list) \<times> 's"
type_synonym 's ip_lookup = "'s \<Rightarrow> string \<Rightarrow> (string + ip_addr list) \<times> 's"

definition endpoint_of :: "(ip_addr \<Rightarrow> string) \<Rightarrow> u16 \<Rightarrow> u64 option \<Rightarrow> ip_addr \<Rightarrow> server_endpoint" where
  "endpoint_of ip_text port server_id ip =
    \<lparr>se_host = ip_text ip, se_port = port, se_server_id = server_id\<rparr>"

fun resolve_answers ::
  "'s ip_lookup \<Rightarrow> (ip_addr \<Rightarrow> string) \<Rightarrow> answer list \<Rightarrow> 's \<Rightarrow> server_endpoint list
   \<Rightarrow> server_endpoint list \<times> 's"
where
  "resolve_answers lookup_ip ip_text [] s acc = (acc, s)"
| "resolve_answers lookup_ip ip_text (OtherAnswer # rest) s acc =
    resolve_answers lookup_ip ip_text rest s acc"
| "resolve_answers lookup_ip ip_text (Srv target port # rest) s acc =
    (let server_id = parse_server_id_from_target target in
     if server_id = None then resolve_answers lookup_ip ip_text rest s acc
     else case lookup_ip s target of
       (Inr ips, s) \<Rightarrow> resolve_answers lookup_ip ip_text rest s (acc @ map (endpoint_of ip_text port server_id) ips)
     | (Inl e, s) \<Rightarrow> resolve_answers lookup_ip ip_text rest s acc)"

record discovery =
  servers :: "server_endpoint list"
  last_dns_refresh :: nat

text \<open>
  Instants are nanoseconds of a monotonic clock; \<open>clock\<close> reads it.
\<close>

definition refresh_servers ::
  "'s srv_lookup \<Rightarrow> 's ip_lookup \<Rightarrow> (ip_addr \<Rightarrow> string) \<Rightarrow> ('s \<Rightarrow> nat \<times> 's) \<Rightarrow> string \<Rightarrow> 's \<Rightarrow> discovery
   \<Rightarrow> (unit, core_error) res \<times> discovery \<times> 's"
where
  "refresh_servers srv_lookup lookup_ip ip_text clock service_domain s d =
    (let failure = Err (CoreDns (Text ''No SRV servers found'')) in
     case srv_lookup s (''_ratelimitly._udp.'' @ service_domain) of
       (Inr answers, s) \<Rightarrow>
         (let (resolved_servers, s) = resolve_answers lookup_ip ip_text answers s [] in
          if resolved_servers \<noteq> []
          then let (now, s) = clock s
               in (Ok (), d\<lparr>servers := resolved_servers, last_dns_refresh := now\<rparr>, s)
          else (failure, d, s))
     | (Inl e, s) \<Rightarrow> (failure, d, s))"

text \<open>\<open>instant.elapsed().as_secs()\<close> at the reading \<open>now\<close>; it saturates at zero.\<close>

definition elapsed_secs :: "nat \<Rightarrow> nat \<Rightarrow> nat" where
  "elapsed_secs now instant = (now - instant) div 1000000000"

definition maybe_periodic_dns_refresh ::
  "'s srv_lookup \<Rightarrow> 's ip_lookup \<Rightarrow> (ip_addr \<Rightarrow> string) \<Rightarrow> ('s \<Rightarrow> nat \<times> 's) \<Rightarrow> string \<Rightarrow> u64 \<Rightarrow> 's \<Rightarrow> discovery
   \<Rightarrow> (unit, core_error) res \<times> discovery \<times> 's"
where
  "maybe_periodic_dns_refresh srv_lookup lookup_ip ip_text clock service_domain interval s d =
    (let (now, s) = clock s in
     if unat interval < elapsed_secs now (last_dns_refresh d)
     then refresh_servers srv_lookup lookup_ip ip_text clock service_domain s d
     else (Ok (), d, s))"

section \<open>The targets of a request\<close>

record resolved_targets =
  targets :: "socket_addr list"
  target_server_ids :: "socket_addr \<rightharpoonup> u64"
  allowed_server_ids :: "u64 list"

text \<open>
  A \<open>HashSet\<close> is a list without duplicates whose order nothing depends on; insertion
  keeps it so.
\<close>

definition set_insert :: "'a \<Rightarrow> 'a list \<Rightarrow> 'a list" where
  "set_insert x xs = (if x \<in> set xs then xs else xs @ [x])"

definition add_target :: "ip_addr \<Rightarrow> server_endpoint \<Rightarrow> resolved_targets \<Rightarrow> resolved_targets" where
  "add_target ip server r =
    (let addr = socket_addr_new ip (se_port server);
         r = r\<lparr>targets := targets r @ [addr]\<rparr>
     in case se_server_id server of
          None \<Rightarrow> r
        | Some i \<Rightarrow> r\<lparr>allowed_server_ids := set_insert i (allowed_server_ids r),
                      target_server_ids := (target_server_ids r)(addr \<mapsto> i)\<rparr>)"

fun resolve_targets ::
  "'s ip_lookup \<Rightarrow> (string \<Rightarrow> ip_addr option) \<Rightarrow> server_endpoint list \<Rightarrow> 's \<Rightarrow> resolved_targets
   \<Rightarrow> (resolved_targets, core_error) res \<times> 's"
where
  "resolve_targets lookup_ip parse_ip [] s r = (Ok r, s)"
| "resolve_targets lookup_ip parse_ip (server # rest) s r =
    (case parse_ip (se_host server) of
       Some ip \<Rightarrow> resolve_targets lookup_ip parse_ip rest s (add_target ip server r)
     | None \<Rightarrow>
         (case lookup_ip s (se_host server) of
            (Inr ips, s) \<Rightarrow>
              resolve_targets lookup_ip parse_ip rest s (foldl (\<lambda>r ip. add_target ip server r) r ips)
          | (Inl e, s) \<Rightarrow> (Err (CoreDns (Text e)), s)))"

definition no_targets :: resolved_targets where
  "no_targets = \<lparr>targets = [], target_server_ids = Map.empty, allowed_server_ids = []\<rparr>"

definition current_targets ::
  "'s ip_lookup \<Rightarrow> (string \<Rightarrow> ip_addr option) \<Rightarrow> 's \<Rightarrow> discovery
   \<Rightarrow> (resolved_targets, core_error) res \<times> 's"
where
  "current_targets lookup_ip parse_ip s d =
    resolve_targets lookup_ip parse_ip (servers d) s no_targets"

section \<open>Splitting and joining\<close>

fun join_on :: "char \<Rightarrow> string list \<Rightarrow> string" where
  "join_on c [] = []"
| "join_on c [p] = p"
| "join_on c (p # ps) = p @ c # join_on c ps"

lemma split_on_not_Nil [simp]: "split_on c s \<noteq> []"
  by (induction s) (auto split: list.splits)

lemma join_split: "join_on c (split_on c s) = s"
proof (induction s)
  case Nil
  then show ?case by simp
next
  case (Cons x xs)
  obtain p ps where s: "split_on c xs = p # ps" by (cases "split_on c xs") auto
  then show ?case using Cons by (cases ps) auto
qed

lemma split_parts: "p \<in> set (split_on c s) \<Longrightarrow> c \<notin> set p"
proof (induction s arbitrary: p)
  case (Cons x xs)
  obtain q ps where s: "split_on c xs = q # ps" by (cases "split_on c xs") auto
  then show ?case using Cons by (auto split: if_splits)
qed simp

lemma split_on_append: "c \<notin> set p \<Longrightarrow> split_on c (p @ c # s) = p # split_on c s"
  by (induction p) auto

lemma split_on_single: "c \<notin> set p \<Longrightarrow> split_on c p = [p]"
  by (induction p) auto

lemma split_join:
  "ps \<noteq> [] \<Longrightarrow> \<forall>p \<in> set ps. c \<notin> set p \<Longrightarrow> split_on c (join_on c ps) = ps"
  by (induction c ps rule: join_on.induct) (simp_all add: split_on_append split_on_single)

section \<open>Service domains\<close>

definition dns_label :: "string \<Rightarrow> bool" where
  "dns_label l \<longleftrightarrow> 1 \<le> length l \<and> length l \<le> 63 \<and> hd l \<noteq> CHR ''-'' \<and> last l \<noteq> CHR ''-'' \<and>
    (\<forall>c \<in> set l. is_ascii_alphanumeric c \<or> c = CHR ''-'')"

lemma dot_not_label: "dns_label l \<Longrightarrow> CHR ''.'' \<notin> set l"
  by (auto simp: dns_label_def is_ascii_alphanumeric_def is_ascii_lowercase_def
      is_ascii_uppercase_def is_ascii_digit_def)

lemma join_ends:
  assumes "ps \<noteq> []" "\<forall>p \<in> set ps. p \<noteq> []"
  shows "join_on c ps \<noteq> []" "hd (join_on c ps) = hd (hd ps)" "last (join_on c ps) = last (last ps)"
  using assms by (induction c ps rule: join_on.induct) auto

text \<open>
  C39: the domains the builder accepts are exactly the names of at most 253 characters
  made of dot-separated labels of 1 to 63 letters, digits and inner hyphens.
\<close>

theorem valid_dns_name_iff:
  "valid_dns_name domain \<longleftrightarrow>
    length domain \<le> 253 \<and> (\<exists>ls. ls \<noteq> [] \<and> list_all dns_label ls \<and> domain = join_on (CHR ''.'') ls)"
proof
  assume v: "valid_dns_name domain"
  then have "list_all dns_label (split_on (CHR ''.'') domain)"
    by (auto simp: valid_dns_name_def list_all_iff dns_label_def starts_with_def ends_with_def Suc_le_eq
        split: if_splits)
  moreover have "length domain \<le> 253" using v by (auto simp: valid_dns_name_def split: if_splits)
  ultimately show "length domain \<le> 253 \<and>
      (\<exists>ls. ls \<noteq> [] \<and> list_all dns_label ls \<and> domain = join_on (CHR ''.'') ls)"
    using join_split [of "CHR ''.''" domain] split_on_not_Nil by metis
next
  assume "length domain \<le> 253 \<and>
      (\<exists>ls. ls \<noteq> [] \<and> list_all dns_label ls \<and> domain = join_on (CHR ''.'') ls)"
  then obtain ls where ls: "length domain \<le> 253" "ls \<noteq> []" "list_all dns_label ls"
      "domain = join_on (CHR ''.'') ls" by blast
  have ne: "\<forall>p \<in> set ls. p \<noteq> []" and nd: "\<forall>p \<in> set ls. CHR ''.'' \<notin> set p"
    using ls(3) dot_not_label by (auto simp: list_all_iff dns_label_def)
  have "split_on (CHR ''.'') domain = ls"
    using split_join [OF ls(2) nd] ls(4) by simp
  moreover have "domain \<noteq> []" using join_ends(1) [OF ls(2) ne] ls(4) by simp
  moreover have "hd ls \<in> set ls" "last ls \<in> set ls" using ls(2) by simp_all
  then have "hd (hd ls) \<in> set (hd ls)" "last (last ls) \<in> set (last ls)"
      "CHR ''.'' \<notin> set (hd ls)" "CHR ''.'' \<notin> set (last ls)"
    using ne nd by simp_all
  then have "hd domain \<noteq> CHR ''.''" "last domain \<noteq> CHR ''.''"
    using join_ends(2,3) [OF ls(2) ne, of "CHR ''.''"] ls(4) by metis+
  ultimately show "valid_dns_name domain"
    using ls(1,3) by (auto simp: valid_dns_name_def list_all_iff dns_label_def starts_with_def ends_with_def)
qed

section \<open>Server identifiers\<close>

lemma is_ascii_digit_value: "is_ascii_digit c \<Longrightarrow> digit_value c < 10"
  by (auto simp: is_ascii_digit_def digit_value_def)

fun show_nat :: "nat \<Rightarrow> string" where
  "show_nat n = (if n < 10 then [char_of (48 + n)] else show_nat (n div 10) @ [char_of (48 + n mod 10)])"

declare show_nat.simps [simp del]

lemma digit_char:
  assumes "d < 10"
  shows "is_ascii_digit (char_of (48 + d))" "digit_value (char_of (48 + d)) = d"
  using assms by (simp_all add: is_ascii_digit_def digit_value_def)

lemma char_of_digit: "is_ascii_digit c \<Longrightarrow> char_of (48 + digit_value c) = c"
  by (simp add: is_ascii_digit_def digit_value_def)

lemma decimal_value_snoc: "decimal_value (s @ [c]) = 10 * decimal_value s + digit_value c"
  by (simp add: decimal_value_def)

definition canonical_decimal :: "string \<Rightarrow> bool" where
  "canonical_decimal s \<longleftrightarrow> s \<noteq> [] \<and> list_all is_ascii_digit s \<and> (1 < length s \<longrightarrow> hd s \<noteq> CHR ''0'')"

lemma show_nat_canonical: "canonical_decimal (show_nat n) \<and> decimal_value (show_nat n) = n \<and>
    (n \<noteq> 0 \<longrightarrow> hd (show_nat n) \<noteq> CHR ''0'')"
proof (induction n rule: show_nat.induct)
  case (1 n)
  show ?case
  proof (cases "n < 10")
    case True
    have "digit_value (CHR ''0'') = 0" by code_simp
    then have "n \<noteq> 0 \<Longrightarrow> char_of (48 + n) \<noteq> CHR ''0''"
      using digit_char(2) [OF True] by metis
    then show ?thesis using True digit_char [OF True]
      by (simp add: show_nat.simps canonical_decimal_def decimal_value_def)
  next
    case False
    then have IH: "canonical_decimal (show_nat (n div 10))" "decimal_value (show_nat (n div 10)) = n div 10"
        "hd (show_nat (n div 10)) \<noteq> CHR ''0''"
      using 1 by auto
    then show ?thesis using False digit_char [of "n mod 10"]
      by (subst (1 2 3) show_nat.simps) (simp add: canonical_decimal_def decimal_value_snoc)
  qed
qed

lemma lower_digits: "list_all is_ascii_digit s \<Longrightarrow> to_ascii_lowercase s = s"
  by (induction s) (auto simp: to_ascii_lowercase_def is_ascii_digit_def is_ascii_uppercase_def)

lemma canonical_unique:
  assumes "canonical_decimal s" "canonical_decimal t" "decimal_value s = decimal_value t"
  shows "s = t"
proof -
  have pos: "0 < decimal_value s" if "canonical_decimal s" "hd s \<noteq> CHR ''0''" for s
    using that
  proof (induction s rule: rev_induct)
    case (snoc c s)
    show ?case
    proof (cases "s = []")
      case True
      have "c \<noteq> CHR ''0''" "is_ascii_digit c"
        using snoc.prems True by (simp_all add: canonical_decimal_def)
      moreover have "(char_of (48 :: nat) :: char) = CHR ''0''" by code_simp
      ultimately have "digit_value c \<noteq> 0"
        using char_of_digit [of c] by (metis add_0_right)
      then show ?thesis using True by (simp add: decimal_value_def)
    next
      case False
      then have "0 < decimal_value s"
        using snoc by (auto simp: canonical_decimal_def)
      then show ?thesis by (simp add: decimal_value_snoc)
    qed
  qed (simp add: canonical_decimal_def)
  have "s = show_nat (decimal_value s)" if "canonical_decimal s" for s
    using that
  proof (induction s rule: rev_induct)
    case (snoc c s)
    have c: "is_ascii_digit c" using snoc.prems by (simp add: canonical_decimal_def)
    show ?case
    proof (cases "s = []")
      case True
      then show ?thesis using c is_ascii_digit_value [OF c] char_of_digit [OF c]
        by (simp add: decimal_value_def show_nat.simps)
    next
      case False
      then have s: "canonical_decimal s" "hd s \<noteq> CHR ''0''"
        using snoc.prems by (cases s; auto simp: canonical_decimal_def)+
      have v: "decimal_value (s @ [c]) div 10 = decimal_value s"
          "decimal_value (s @ [c]) mod 10 = digit_value c" "\<not> decimal_value (s @ [c]) < 10"
        using is_ascii_digit_value [OF c] pos [OF s] by (simp_all add: decimal_value_snoc)
      show ?thesis
        by (subst show_nat.simps) (use v char_of_digit [OF c] snoc.IH [OF s(1)] in simp)
    qed
  qed (simp add: canonical_decimal_def)
  then show ?thesis using assms by metis
qed

lemma show_decimal_value: "canonical_decimal s \<Longrightarrow> show_nat (decimal_value s) = s"
  using canonical_unique [of "show_nat (decimal_value s)" s] show_nat_canonical [of "decimal_value s"]
  by simp

lemma trim_end_dots: "\<exists>k. s = trim_end c s @ replicate k c"
proof -
  have "takeWhile (\<lambda>x. x = c) (rev s) = replicate (length (takeWhile (\<lambda>x. x = c) (rev s))) c"
    by (metis (full_types) replicate_length_same set_takeWhileD)
  moreover have "s = rev (dropWhile (\<lambda>x. x = c) (rev s)) @ rev (takeWhile (\<lambda>x. x = c) (rev s))"
    by (metis rev_append rev_rev_ident takeWhile_dropWhile_id)
  ultimately show ?thesis unfolding trim_end_def by (metis rev_replicate)
qed

definition first_label :: "string \<Rightarrow> string" where
  "first_label target = takeWhile (\<lambda>c. c \<noteq> CHR ''.'') target"

lemma hd_split_on: "hd (split_on c s) = takeWhile (\<lambda>x. x \<noteq> c) s"
proof (induction s)
  case (Cons x xs)
  obtain p ps where "split_on c xs = p # ps" by (cases "split_on c xs") auto
  then show ?case using Cons by simp
qed simp

lemma first_label_trim: "first_label (trim_end (CHR ''.'') s) = first_label s"
proof -
  obtain k where k: "s = trim_end (CHR ''.'') s @ replicate k (CHR ''.'')"
    using trim_end_dots by blast
  have "takeWhile (\<lambda>x. x \<noteq> c) (t @ replicate k c) = takeWhile (\<lambda>x. x \<noteq> c) t" for t and c :: char
    by (cases k; induction t) auto
  then show ?thesis unfolding first_label_def by (metis k)
qed

text \<open>
  C38: a target carries server identifier \<open>n\<close> exactly when its first label is, in any
  case, \<open>s-\<close> followed by the one decimal numeral of \<open>n\<close> without leading zeros;
  trailing dots do not matter and a numeral beyond 64 bits carries none.
\<close>

theorem parse_server_id_iff:
  "parse_server_id_from_target target = Some n \<longleftrightarrow>
    to_ascii_lowercase (first_label target) = ''s-'' @ show_nat (unat n)"
proof -
  let ?l = "to_ascii_lowercase (first_label target)"
  obtain rest where sp: "split_on (CHR ''.'') (trim_end (CHR ''.'') target) = first_label target # rest"
    using hd_split_on [of "CHR ''.''" "trim_end (CHR ''.'') target"] first_label_trim [of target]
      split_on_not_Nil unfolding first_label_def by (metis list.exhaust_sel)
  have eq: "parse_server_id_from_target target = Some n \<longleftrightarrow>
      (\<exists>d. ?l = ''s-'' @ d \<and> canonical_decimal d \<and> parse_u64 d = Some n)"
    unfolding parse_server_id_from_target_def sp
    by (cases "strip_prefix ''s-'' ?l")
      (auto simp: strip_prefix_eq_Some canonical_decimal_def starts_with_def)
  have num: "canonical_decimal d \<and> parse_u64 d = Some n \<longleftrightarrow> d = show_nat (unat n)" for d
  proof
    assume "canonical_decimal d \<and> parse_u64 d = Some n"
    then have "canonical_decimal d" "unat n = decimal_value d"
      by (auto simp: parse_u64_def unat_of_nat split: if_splits)
    then show "d = show_nat (unat n)" using show_decimal_value by simp
  next
    assume "d = show_nat (unat n)"
    then show "canonical_decimal d \<and> parse_u64 d = Some n"
      using show_nat_canonical [of "unat n"] unsigned_less [of n] by (simp add: parse_u64_def)
  qed
  show ?thesis unfolding eq using num by auto
qed

section \<open>Discovery keeps the server list well formed\<close>

text \<open>
  Every endpoint a refresh stores is an address in text form with a server identifier:
  what the request path relies on.
\<close>

definition discovered :: "(ip_addr \<Rightarrow> string) \<Rightarrow> discovery \<Rightarrow> bool" where
  "discovered ip_text d \<longleftrightarrow>
    (\<forall>e \<in> set (servers d). \<exists>ip n. se_host e = ip_text ip \<and> se_server_id e = Some n)"

definition from_answer :: "(ip_addr \<Rightarrow> string) \<Rightarrow> answer list \<Rightarrow> server_endpoint \<Rightarrow> bool" where
  "from_answer ip_text answers e \<longleftrightarrow> (\<exists>target port ip n. Srv target port \<in> set answers \<and>
     parse_server_id_from_target target = Some n \<and> e = endpoint_of ip_text port (Some n) ip)"

lemma resolve_answers_from:
  "resolve_answers lookup_ip ip_text answers s acc = (out, s') \<Longrightarrow>
   \<exists>es. out = acc @ es \<and> (\<forall>e \<in> set es. from_answer ip_text answers e)"
proof (induction lookup_ip ip_text answers s acc rule: resolve_answers.induct)
  case (3 lookup_ip ip_text target port rest s acc)
  show ?case
  proof (cases "parse_server_id_from_target target")
    case None
    then show ?thesis using 3 by (fastforce simp: from_answer_def)
  next
    case (Some n)
    obtain r s1 where l: "lookup_ip s target = (r, s1)" by force
    show ?thesis
    proof (cases r)
      case (Inl e)
      then show ?thesis using 3 l Some by (fastforce simp: from_answer_def)
    next
      case (Inr ips)
      then have "resolve_answers lookup_ip ip_text rest s1 (acc @ map (endpoint_of ip_text port (Some n)) ips) = (out, s')"
        using 3(4) l Some by simp
      then obtain es where es: "out = acc @ map (endpoint_of ip_text port (Some n)) ips @ es"
          "\<forall>e \<in> set es. from_answer ip_text rest e"
        using "3.IH" l Some Inr by fastforce
      moreover have "\<forall>e \<in> set (map (endpoint_of ip_text port (Some n)) ips @ es).
          from_answer ip_text (Srv target port # rest) e"
        using es(2) Some by (fastforce simp: from_answer_def)
      ultimately show ?thesis by blast
    qed
  qed
qed (auto simp: from_answer_def)

lemma refresh_cases:
  assumes "refresh_servers srv lookup_ip ip_text clock domain s d = (r, d', s')"
  shows "(r = Ok () \<and> (\<exists>s2. clock s2 = (last_dns_refresh d', s')) \<and> servers d' \<noteq> [] \<and>
      (\<exists>answers s1. srv s (''_ratelimitly._udp.'' @ domain) = (Inr answers, s1) \<and>
        list_all (from_answer ip_text answers) (servers d'))) \<or>
    (r = Err (CoreDns (Text ''No SRV servers found'')) \<and> d' = d)"
proof -
  obtain q s1 where q: "srv s (''_ratelimitly._udp.'' @ domain) = (q, s1)" by force
  show ?thesis
  proof (cases q)
    case (Inl e)
    then show ?thesis using assms q by (simp add: refresh_servers_def Let_def)
  next
    case (Inr answers)
    obtain es s2 where r: "resolve_answers lookup_ip ip_text answers s1 [] = (es, s2)" by force
    from resolve_answers_from [OF r] have "\<forall>e \<in> set es. from_answer ip_text answers e" by simp
    then show ?thesis using assms q Inr r
      by (auto simp: refresh_servers_def Let_def list_all_iff split: if_splits prod.splits)
  qed
qed


lemma refresh_discovered:
  assumes "discovered ip_text d" "refresh_servers srv lookup_ip ip_text clock domain s d = (r, d', s')"
  shows "discovered ip_text d'"
  using refresh_cases [OF assms(2)] assms(1)
  by (fastforce simp: discovered_def from_answer_def endpoint_of_def list_all_iff)

lemma periodic_refresh_discovered:
  assumes "discovered ip_text d"
    and "maybe_periodic_dns_refresh srv lookup_ip ip_text clock domain interval s d = (r, d', s')"
  shows "discovered ip_text d'"
  using assms refresh_discovered
  by (fastforce simp: maybe_periodic_dns_refresh_def split: prod.splits if_splits)

lemma periodic_refresh_result:
  "maybe_periodic_dns_refresh srv lookup_ip ip_text clock domain interval s d = (r, d', s') \<Longrightarrow>
    r = Ok () \<or> r = Err (CoreDns (Text ''No SRV servers found''))"
  using refresh_cases by (fastforce simp: maybe_periodic_dns_refresh_def split: prod.splits if_splits)

section \<open>Targets agree with the server list\<close>

lemma set_insert_set [simp]: "set (set_insert x xs) = insert x (set xs)"
  by (auto simp: set_insert_def)

lemma distinct_set_insert [simp]: "distinct (set_insert x xs) \<longleftrightarrow> distinct xs"
  by (simp add: set_insert_def)

text \<open>What a resolution holds: one identifier per target, and exactly the allowed ones.\<close>

definition resolved_inv :: "resolved_targets \<Rightarrow> bool" where
  "resolved_inv r \<longleftrightarrow> dom (target_server_ids r) = set (targets r) \<and>
    ran (target_server_ids r) \<subseteq> set (allowed_server_ids r) \<and> distinct (allowed_server_ids r) \<and>
    (targets r = [] \<longleftrightarrow> allowed_server_ids r = [])"

lemma add_target_inv:
  assumes "resolved_inv r" "se_server_id e = Some n"
  shows "resolved_inv (add_target ip e r)"
proof -
  have "ran ((target_server_ids r)(a \<mapsto> n)) \<subseteq> insert n (set (allowed_server_ids r))" for a
    using assms(1) by (auto simp: resolved_inv_def ran_def split: if_splits)
  then show ?thesis
    using assms unfolding resolved_inv_def
    by (simp add: add_target_def Let_def) (auto simp: set_insert_def)
qed

definition target_of :: "(string \<Rightarrow> ip_addr option) \<Rightarrow> server_endpoint \<Rightarrow> socket_addr" where
  "target_of parse_ip e = socket_addr_new (the (parse_ip (se_host e))) (se_port e)"

lemma resolve_targets_literal:
  assumes "\<forall>e \<in> set es. (\<exists>ip. parse_ip (se_host e) = Some ip) \<and> se_server_id e \<noteq> None" "resolved_inv r"
  shows "\<exists>r'. resolve_targets lookup_ip parse_ip es s r = (Ok r', s) \<and> resolved_inv r' \<and>
    targets r' = targets r @ map (target_of parse_ip) es \<and>
    set (allowed_server_ids r') = set (allowed_server_ids r) \<union> {n. \<exists>e \<in> set es. se_server_id e = Some n}"
  using assms
proof (induction es arbitrary: r)
  case (Cons e es)
  then obtain ip n where e: "parse_ip (se_host e) = Some ip" "se_server_id e = Some n" by auto
  have t: "targets (add_target ip e r) = targets r @ [target_of parse_ip e]"
      "set (allowed_server_ids (add_target ip e r)) = insert n (set (allowed_server_ids r))"
    using e by (simp_all add: add_target_def Let_def target_of_def)
  from Cons.IH [of "add_target ip e r"] Cons.prems add_target_inv [OF Cons.prems(2) e(2)]
  obtain r' where "resolve_targets lookup_ip parse_ip es s (add_target ip e r) = (Ok r', s)" "resolved_inv r'"
      "targets r' = targets (add_target ip e r) @ map (target_of parse_ip) es"
      "set (allowed_server_ids r') = set (allowed_server_ids (add_target ip e r)) \<union> {n. \<exists>e \<in> set es. se_server_id e = Some n}"
    by auto
  then show ?case using e t by (intro exI [of _ r']) auto
qed (simp add: resolved_inv_def)

lemma current_targets_ok:
  assumes "discovered ip_text d" "\<forall>ip. parse_ip (ip_text ip) = Some ip"
  shows "\<exists>r. current_targets lookup_ip parse_ip s d = (Ok r, s) \<and>
    targets r = map (target_of parse_ip) (servers d) \<and>
    dom (target_server_ids r) = set (targets r) \<and>
    ran (target_server_ids r) \<subseteq> set (allowed_server_ids r) \<and> distinct (allowed_server_ids r) \<and>
    set (allowed_server_ids r) = {n. \<exists>e \<in> set (servers d). se_server_id e = Some n} \<and>
    (targets r = [] \<longleftrightarrow> allowed_server_ids r = [])"
proof -
  have lit: "\<forall>e \<in> set (servers d). (\<exists>ip. parse_ip (se_host e) = Some ip) \<and> se_server_id e \<noteq> None"
    using assms by (fastforce simp: discovered_def)
  have "resolved_inv no_targets" by (simp add: resolved_inv_def no_targets_def)
  from resolve_targets_literal [OF lit this, of lookup_ip s]
  obtain r where r: "resolve_targets lookup_ip parse_ip (servers d) s no_targets = (Ok r, s)"
      "resolved_inv r" "targets r = targets no_targets @ map (target_of parse_ip) (servers d)"
      "set (allowed_server_ids r) = set (allowed_server_ids no_targets) \<union> {n. \<exists>e \<in> set (servers d). se_server_id e = Some n}"
    by (elim exE conjE)
  have "targets r = map (target_of parse_ip) (servers d)"
    unfolding r(3) by (simp add: no_targets_def)
  moreover have "set (allowed_server_ids r) = {n. \<exists>e \<in> set (servers d). se_server_id e = Some n}"
    unfolding r(4) by (simp add: no_targets_def)
  ultimately show ?thesis using r(1,2) unfolding current_targets_def resolved_inv_def by blast
qed


text \<open>An address text to run the statement on: a family mark and a decimal numeral.\<close>

primrec plain_ip_text :: "ip_addr \<Rightarrow> string" where
  "plain_ip_text (IpV4 a) = CHR ''4'' # show_nat (unat a)"
| "plain_ip_text (IpV6 a) = CHR ''6'' # show_nat (unat a)"

definition plain_parse_ip :: "string \<Rightarrow> ip_addr option" where
  "plain_parse_ip s = (case s of [] \<Rightarrow> None
    | c # ds \<Rightarrow> if c = CHR ''4'' then Some (IpV4 (of_nat (decimal_value ds)))
                else if c = CHR ''6'' then Some (IpV6 (of_nat (decimal_value ds))) else None)"

lemma plain_parse_ip_text: "plain_parse_ip (plain_ip_text ip) = Some ip"
  using show_nat_canonical by (cases ip) (simp_all add: plain_parse_ip_def)


end
