(* ===== verification/Wire.thy ===== *)
theory Wire
  imports Prelude
begin

text \<open>
  The wire format of \<open>src/protocol.rs\<close>: content-defined identifiers, AES-256-GCM
  framing, TLV and PDU constants, and the fixed-size blocks with their writers and
  readers.  Blake2s-256 and the AES-GCM cipher come from other crates: they are the
  arguments \<open>hash\<close>, \<open>seal\<close> and \<open>open\<close> of the definitions that use them, and the
  random nonce is the argument \<open>nonce\<close>.
\<close>

section \<open>Content-defined identifiers\<close>

definition RESOURCE_ID_DOMAIN :: bytes where
  "RESOURCE_ID_DOMAIN = as_bytes ''ratelimitly.resource.v1'' @ [0]"

definition LATENCY_TRACKER_ID_DOMAIN :: bytes where
  "LATENCY_TRACKER_ID_DOMAIN = as_bytes ''ratelimitly.latency-tracker.v2'' @ [0]"

text \<open>The bytes fed to the hash, in the order of the \<open>update\<close> calls.\<close>

definition content_preimage :: "bytes \<Rightarrow> bytes \<Rightarrow> u32 list \<Rightarrow> bytes" where
  "content_preimage domain name field_values =
    domain @ to_le 4 (of_nat (length name) :: u32) @ name @ concat (map (to_le 4) field_values)"

definition derive_content_id ::
  "(bytes \<Rightarrow> bytes) \<Rightarrow> bytes \<Rightarrow> bytes \<Rightarrow> u32 list \<Rightarrow> (bytes, 'e) res"
where
  "derive_content_id hash domain name field_values =
    (if 2 ^ 32 - 1 < length name then Panic
     else slice 0 16 (hash (content_preimage domain name field_values)))"

definition derive_bucket_id_bytes ::
  "(bytes \<Rightarrow> bytes) \<Rightarrow> bytes \<Rightarrow> u32 \<Rightarrow> u32 \<Rightarrow> (bytes, 'e) res"
where
  "derive_bucket_id_bytes hash bucket_name window_size_ms rate_limit =
    derive_content_id hash RESOURCE_ID_DOMAIN bucket_name [window_size_ms, rate_limit]"

definition derive_bucket_id :: "(bytes \<Rightarrow> bytes) \<Rightarrow> string \<Rightarrow> u32 \<Rightarrow> u32 \<Rightarrow> (bytes, 'e) res" where
  "derive_bucket_id hash bucket_name window_size_ms rate_limit =
    derive_bucket_id_bytes hash (as_bytes bucket_name) window_size_ms rate_limit"

definition derive_latency_tracker_id_bytes ::
  "(bytes \<Rightarrow> bytes) \<Rightarrow> bytes \<Rightarrow> u32 \<Rightarrow> u32 \<Rightarrow> u32 \<Rightarrow> (bytes, 'e) res"
where
  "derive_latency_tracker_id_bytes hash latency_tracker_name ttl_ms max_samples min_sample_threshold =
    derive_content_id hash LATENCY_TRACKER_ID_DOMAIN latency_tracker_name
      [ttl_ms, max_samples, min_sample_threshold]"

definition derive_latency_tracker_id ::
  "(bytes \<Rightarrow> bytes) \<Rightarrow> string \<Rightarrow> u32 \<Rightarrow> u32 \<Rightarrow> u32 \<Rightarrow> (bytes, 'e) res"
where
  "derive_latency_tracker_id hash latency_tracker_name ttl_ms max_samples min_sample_threshold =
    derive_latency_tracker_id_bytes hash (as_bytes latency_tracker_name)
      ttl_ms max_samples min_sample_threshold"

section \<open>Authenticated encryption\<close>

text \<open>
  \<open>seal key nonce aad msg\<close> and \<open>open key nonce aad ciphertext\<close> are the cipher's
  \<open>encrypt\<close> and \<open>decrypt\<close>; the ciphertext ends in the 16-byte tag.
\<close>

type_synonym cipher = "bytes \<Rightarrow> bytes \<Rightarrow> bytes \<Rightarrow> bytes \<Rightarrow> bytes option"

definition encrypt_pdu ::
  "cipher \<Rightarrow> bytes \<Rightarrow> bytes \<Rightarrow> bytes \<Rightarrow> bytes \<Rightarrow> (bytes \<times> bytes \<times> bytes, 'e) res"
where
  "encrypt_pdu seal nonce pdu key aad_prefix =
    (case seal key nonce (aad_prefix @ nonce) pdu of
       None \<Rightarrow> Panic
     | Some ciphertext \<Rightarrow>
         and_then (sub_n (length ciphertext) 16) (\<lambda>tag_offset.
         and_then (slice_from tag_offset ciphertext) (\<lambda>auth_tag.
         and_then (slice 0 tag_offset ciphertext) (\<lambda>encrypted_pdu.
         Ok (encrypted_pdu, nonce, auth_tag)))))"

definition decrypt_pdu ::
  "cipher \<Rightarrow> bytes \<Rightarrow> bytes \<Rightarrow> bytes \<Rightarrow> bytes \<Rightarrow> bytes \<Rightarrow> (bytes, unit) res"
where
  "decrypt_pdu open encrypted_pdu key nonce auth_tag aad =
    ok_or () (open key nonce aad (encrypted_pdu @ auth_tag))"

section \<open>Types and sizes\<close>

definition TLV_TENANT :: u16 where "TLV_TENANT = 0x4C52"
definition TLV_AUTH_NONE :: u16 where "TLV_AUTH_NONE = 0x414E"
definition TLV_AUTH_COOKIE :: u16 where "TLV_AUTH_COOKIE = 0x4143"
definition TLV_AUTH_AES :: u16 where "TLV_AUTH_AES = 0x4541"
definition TLV_METRICS_LABEL :: u16 where "TLV_METRICS_LABEL = 0x4C4D"
definition PDU_RATE_REQUEST :: u16 where "PDU_RATE_REQUEST = 0x5452"
definition PDU_RATE_RESPONSE :: u16 where "PDU_RATE_RESPONSE = 0x5252"
definition PDU_LATENCY_REPORT :: u16 where "PDU_LATENCY_REPORT = 0x524C"
definition GUARD_BLOCK_WIRE_LEN :: nat where "GUARD_BLOCK_WIRE_LEN = 36"
definition SERVICE_LATENCY_BLOCK_WIRE_LEN :: nat where "SERVICE_LATENCY_BLOCK_WIRE_LEN = 32"

section \<open>Blocks\<close>

record tenant_header =
  th_tlv_type :: u16
  th_tlv_size :: u16
  th_key_id :: u64
  th_unique_id :: bytes
  th_time_stamp :: u64
  th_steering_feedback :: u8
  th_tenant_mgmt_flag :: u8
  th_padding :: bytes

definition write_tenant :: "tenant_header \<Rightarrow> bytes \<Rightarrow> (bytes, 'e) res" where
  "write_tenant h buf =
    and_then (write_at 0 (to_le 2 (th_tlv_type h)) buf) (\<lambda>buf.
    and_then (write_at 2 (to_le 2 (th_tlv_size h)) buf) (\<lambda>buf.
    and_then (write_at 4 (to_le 8 (th_key_id h)) buf) (\<lambda>buf.
    and_then (write_at 12 (th_unique_id h) buf) (\<lambda>buf.
    and_then (write_at 28 (to_le 8 (th_time_stamp h)) buf) (\<lambda>buf.
    and_then (write_at 36 [th_steering_feedback h] buf) (\<lambda>buf.
    and_then (write_at 37 [th_tenant_mgmt_flag h] buf) (\<lambda>buf.
    write_at 38 (th_padding h) buf)))))))"

definition read_tenant :: "bytes \<Rightarrow> (tenant_header, string) res" where
  "read_tenant buf =
    (if length buf < 40 then Err ''Buffer too small for TenantHeader''
     else
       and_then (slice 12 28 buf) (\<lambda>unique_id.
       and_then (slice 38 40 buf) (\<lambda>padding.
       and_then (slice 0 2 buf) (\<lambda>ty.
       and_then (slice 2 4 buf) (\<lambda>sz.
       and_then (slice 4 12 buf) (\<lambda>key.
       and_then (slice 28 36 buf) (\<lambda>ts.
       and_then (at_index 36 buf) (\<lambda>steering.
       and_then (at_index 37 buf) (\<lambda>mgmt.
       Ok \<lparr>th_tlv_type = from_le ty, th_tlv_size = from_le sz, th_key_id = from_le key,
           th_unique_id = unique_id, th_time_stamp = from_le ts, th_steering_feedback = steering,
           th_tenant_mgmt_flag = mgmt, th_padding = padding\<rparr>)))))))))"

record guard_block =
  gb_latency_tracker_id :: bytes
  gb_ttl_ms :: u32
  gb_max_samples :: u32
  gb_min_sample_threshold :: u32
  gb_latency_threshold :: u32
  gb_current_latency :: u32

definition write_guard :: "guard_block \<Rightarrow> bytes \<Rightarrow> (bytes, 'e) res" where
  "write_guard b buf =
    and_then (write_at 0 (gb_latency_tracker_id b) buf) (\<lambda>buf.
    and_then (write_at 16 (to_le 4 (gb_ttl_ms b)) buf) (\<lambda>buf.
    and_then (write_at 20 (to_le 4 (gb_max_samples b)) buf) (\<lambda>buf.
    and_then (write_at 24 (to_le 4 (gb_min_sample_threshold b)) buf) (\<lambda>buf.
    and_then (write_at 28 (to_le 4 (gb_latency_threshold b)) buf) (\<lambda>buf.
    write_at 32 (to_le 4 (gb_current_latency b)) buf)))))"

definition read_guard :: "bytes \<Rightarrow> (guard_block, string) res" where
  "read_guard buf =
    (if length buf < GUARD_BLOCK_WIRE_LEN then Err ''Buffer too small for GuardBlock''
     else
       and_then (slice 0 16 buf) (\<lambda>tracker.
       and_then (slice 16 20 buf) (\<lambda>ttl.
       and_then (slice 20 24 buf) (\<lambda>mx.
       and_then (slice 24 28 buf) (\<lambda>mn.
       and_then (slice 28 32 buf) (\<lambda>thr.
       and_then (slice 32 36 buf) (\<lambda>cur.
       Ok \<lparr>gb_latency_tracker_id = tracker, gb_ttl_ms = from_le ttl, gb_max_samples = from_le mx,
           gb_min_sample_threshold = from_le mn, gb_latency_threshold = from_le thr,
           gb_current_latency = from_le cur\<rparr>)))))))"

record resource_block =
  rb_bucket_id :: bytes
  rb_window_size_ms :: u32
  rb_rate_limit :: u32
  rb_tokens_requested :: u16
  rb_padding :: u16

definition write_resource :: "resource_block \<Rightarrow> bytes \<Rightarrow> (bytes, 'e) res" where
  "write_resource b buf =
    and_then (write_at 0 (rb_bucket_id b) buf) (\<lambda>buf.
    and_then (write_at 16 (to_le 4 (rb_window_size_ms b)) buf) (\<lambda>buf.
    and_then (write_at 20 (to_le 4 (rb_rate_limit b)) buf) (\<lambda>buf.
    and_then (write_at 24 (to_le 2 (rb_tokens_requested b)) buf) (\<lambda>buf.
    write_at 26 (to_le 2 (rb_padding b)) buf))))"

definition read_resource :: "bytes \<Rightarrow> (resource_block, string) res" where
  "read_resource buf =
    (if length buf < 28 then Err ''Buffer too small for ResourceBlock''
     else
       and_then (slice 0 16 buf) (\<lambda>bucket.
       and_then (slice 16 20 buf) (\<lambda>window.
       and_then (slice 20 24 buf) (\<lambda>limit.
       and_then (slice 24 26 buf) (\<lambda>tokens.
       and_then (slice 26 28 buf) (\<lambda>pad.
       Ok \<lparr>rb_bucket_id = bucket, rb_window_size_ms = from_le window, rb_rate_limit = from_le limit,
           rb_tokens_requested = from_le tokens, rb_padding = from_le pad\<rparr>))))))"

record service_latency_block =
  lb_latency_tracker_id :: bytes
  lb_ttl_ms :: u32
  lb_max_samples :: u32
  lb_min_sample_threshold :: u32
  lb_observed_latency :: u32

definition write_latency :: "service_latency_block \<Rightarrow> bytes \<Rightarrow> (bytes, 'e) res" where
  "write_latency b buf =
    and_then (write_at 0 (lb_latency_tracker_id b) buf) (\<lambda>buf.
    and_then (write_at 16 (to_le 4 (lb_ttl_ms b)) buf) (\<lambda>buf.
    and_then (write_at 20 (to_le 4 (lb_max_samples b)) buf) (\<lambda>buf.
    and_then (write_at 24 (to_le 4 (lb_min_sample_threshold b)) buf) (\<lambda>buf.
    write_at 28 (to_le 4 (lb_observed_latency b)) buf))))"

text \<open>\<open>u16::from_le_bytes([data[i], data[i + 1]])\<close>.\<close>

definition u16_at :: "nat \<Rightarrow> bytes \<Rightarrow> (u16, 'e) res" where
  "u16_at i data =
    and_then (at_index i data) (\<lambda>a. and_then (at_index (i + 1) data) (\<lambda>b. Ok (from_le [a, b])))"

section \<open>Requests and results\<close>

record resource_request =
  rr_bucket_name :: string
  rr_window_size_ms :: u32
  rr_rate_limit :: u32
  rr_tokens_requested :: u16

record latency_guard =
  lg_latency_tracker_name :: string
  lg_threshold_ms :: u32
  lg_ttl_ms :: u32
  lg_max_samples :: u32
  lg_min_sample_threshold :: u32

record service_latency_report =
  lr_latency_tracker_name :: string
  lr_observed_latency :: u32
  lr_ttl_ms :: u32
  lr_max_samples :: u32
  lr_min_sample_threshold :: u32

record guard_result =
  gr_latency_tracker_id :: bytes
  gr_threshold_ms :: u32
  gr_current_latency_ms :: u32
  gr_passed :: bool

record resource_result =
  rs_bucket_id :: bytes
  rs_tokens_deficit :: u16
  rs_actual_rate :: u32

record rate_limit_result =
  rl_success :: bool
  rl_guard_results :: "guard_result list"
  rl_resource_results :: "resource_result list"
  rl_server_id :: u64
  rl_steering_feedback :: bool

section \<open>Blocks in a growing buffer\<close>

text \<open>
  The builders append a block by growing the buffer with zeros and writing into its
  tail: \<open>let offset = body.len(); body.resize(offset + n, 0);
  block.write_to_buffer(&mut body[offset..])\<close>.
\<close>

definition append_block ::
  "('b \<Rightarrow> bytes \<Rightarrow> (bytes, 'e) res) \<Rightarrow> nat \<Rightarrow> bytes \<Rightarrow> 'b \<Rightarrow> (bytes, 'e) res"
where
  "append_block write n body block =
    (let offset = length body; body = body @ replicate n 0 in
     and_then (slice_from offset body) (\<lambda>tail.
     and_then (write block tail) (\<lambda>tail. Ok (take offset body @ tail))))"

section \<open>The interface of a block\<close>

text \<open>
  Every block has a fixed number of wire bytes and a writer that fills the front of a
  buffer with them; the blocks that are received have a reader for them too.
\<close>

locale wire_writer =
  fixes wf :: "'b \<Rightarrow> bool"
    and wire :: "'b \<Rightarrow> bytes"
    and size_of :: nat
    and put :: "'b \<Rightarrow> bytes \<Rightarrow> (bytes, 'e) res"
  assumes wire_length: "wf b \<Longrightarrow> length (wire b) = size_of"
    and write_wire: "wf b \<Longrightarrow> size_of \<le> length buf \<Longrightarrow> put b buf = Ok (wire b @ drop size_of buf)"
begin

lemma append_block_wire: "wf b \<Longrightarrow> append_block put size_of body b = Ok (body @ wire b)"
  by (simp add: append_block_def Let_def slice_from_def write_wire)

lemma length_wire_concat: "list_all wf bs \<Longrightarrow> length (concat (map wire bs)) = size_of * length bs"
  by (induction bs) (simp_all add: wire_length)

end

locale wire_codec = wire_writer +
  fixes get :: "bytes \<Rightarrow> ('b, string) res"
    and error_text :: string
  assumes read_wire: "wf b \<Longrightarrow> get (wire b @ rest) = Ok b"
    and read_short: "length buf < size_of \<Longrightarrow> get buf = Err error_text"
    and read_long: "size_of \<le> length buf \<Longrightarrow> \<exists>b. wf b \<and> get buf = Ok b \<and> wire b = take size_of buf"
begin

lemma read_write:
  assumes "wf b" "size_of \<le> length buf" "put b buf = Ok out"
  shows "get out = Ok b"
  using assms write_wire read_wire by auto

lemma read_never_panics: "get buf \<noteq> Panic"
  by (metis not_le read_long read_short res.distinct(3,5))

lemma wire_inject: "wf b \<Longrightarrow> wf c \<Longrightarrow> wire b = wire c \<longleftrightarrow> b = c"
  by (metis read_wire res.inject(1))

lemma read_OkD: "get buf = Ok b \<Longrightarrow> wf b \<and> size_of \<le> length buf \<and> wire b = take size_of buf"
  by (metis not_le read_long read_short res.distinct(1) res.inject(1))

end

section \<open>The blocks provide the interface\<close>

definition wf_tenant :: "tenant_header \<Rightarrow> bool" where
  "wf_tenant h \<longleftrightarrow> length (th_unique_id h) = 16 \<and> length (th_padding h) = 2"

definition tenant_wire :: "tenant_header \<Rightarrow> bytes" where
  "tenant_wire h = to_le 2 (th_tlv_type h) @ to_le 2 (th_tlv_size h) @ to_le 8 (th_key_id h) @
    th_unique_id h @ to_le 8 (th_time_stamp h) @ [th_steering_feedback h] @
    [th_tenant_mgmt_flag h] @ th_padding h"

definition wf_guard :: "guard_block \<Rightarrow> bool" where
  "wf_guard b \<longleftrightarrow> length (gb_latency_tracker_id b) = 16"

definition guard_wire :: "guard_block \<Rightarrow> bytes" where
  "guard_wire b = gb_latency_tracker_id b @ to_le 4 (gb_ttl_ms b) @ to_le 4 (gb_max_samples b) @
    to_le 4 (gb_min_sample_threshold b) @ to_le 4 (gb_latency_threshold b) @
    to_le 4 (gb_current_latency b)"

definition wf_resource :: "resource_block \<Rightarrow> bool" where
  "wf_resource b \<longleftrightarrow> length (rb_bucket_id b) = 16"

definition resource_wire :: "resource_block \<Rightarrow> bytes" where
  "resource_wire b = rb_bucket_id b @ to_le 4 (rb_window_size_ms b) @ to_le 4 (rb_rate_limit b) @
    to_le 2 (rb_tokens_requested b) @ to_le 2 (rb_padding b)"

definition wf_latency :: "service_latency_block \<Rightarrow> bool" where
  "wf_latency b \<longleftrightarrow> length (lb_latency_tracker_id b) = 16"

definition latency_wire :: "service_latency_block \<Rightarrow> bytes" where
  "latency_wire b = lb_latency_tracker_id b @ to_le 4 (lb_ttl_ms b) @ to_le 4 (lb_max_samples b) @
    to_le 4 (lb_min_sample_threshold b) @ to_le 4 (lb_observed_latency b)"

lemma write_tenant_wire:
  assumes "wf_tenant h" "40 \<le> length buf"
  shows "write_tenant h buf = Ok (tenant_wire h @ drop 40 buf)"
  using assms by (simp add: write_tenant_def wf_tenant_def tenant_wire_def write_at_def) auto

lemma write_guard_wire:
  assumes "wf_guard b" "36 \<le> length buf"
  shows "write_guard b buf = Ok (guard_wire b @ drop 36 buf)"
  using assms by (simp add: write_guard_def wf_guard_def guard_wire_def write_at_def)

lemma write_resource_wire:
  assumes "wf_resource b" "28 \<le> length buf"
  shows "write_resource b buf = Ok (resource_wire b @ drop 28 buf)"
  using assms by (simp add: write_resource_def wf_resource_def resource_wire_def write_at_def)

lemma write_latency_wire:
  assumes "wf_latency b" "32 \<le> length buf"
  shows "write_latency b buf = Ok (latency_wire b @ drop 32 buf)"
  using assms by (simp add: write_latency_def wf_latency_def latency_wire_def write_at_def)

lemma read_tenant_wire: "wf_tenant h \<Longrightarrow> read_tenant (tenant_wire h @ rest) = Ok h"
  by (simp add: read_tenant_def wf_tenant_def tenant_wire_def slice_def at_index_def nth_append nth_Cons')

lemma read_guard_wire: "wf_guard b \<Longrightarrow> read_guard (guard_wire b @ rest) = Ok b"
  by (simp add: read_guard_def wf_guard_def guard_wire_def slice_def GUARD_BLOCK_WIRE_LEN_def)

lemma read_resource_wire: "wf_resource b \<Longrightarrow> read_resource (resource_wire b @ rest) = Ok b"
  by (simp add: read_resource_def wf_resource_def resource_wire_def slice_def)

lemma to_le_from_le_take:
  "n \<le> length bs \<Longrightarrow> 8 * n \<le> LENGTH('a) \<Longrightarrow>
   to_le n (from_le (take n bs) :: 'a::len word) = take n bs"
  using to_le_from_le [of "take n bs", where 'a = 'a] by simp

lemma take_split: "take m bs @ take n (drop m bs) = take (m + n) bs"
  by (simp add: take_add)

lemma take_split_append: "take m bs @ take n (drop m bs) @ rest = take (m + n) bs @ rest"
  by (simp add: take_add)

lemma take_nth_append: "i < length bs \<Longrightarrow> take i bs @ bs ! i # rest = take (Suc i) bs @ rest"
  by (simp add: take_Suc_conv_app_nth)

lemma read_tenant_long:
  assumes "40 \<le> length buf"
  shows "\<exists>h. wf_tenant h \<and> read_tenant buf = Ok h \<and> tenant_wire h = take 40 buf"
  using assms
  by (simp add: read_tenant_def wf_tenant_def tenant_wire_def slice_def at_index_def
      to_le_from_le_take take_split take_split_append take_nth_append)

lemma read_guard_long:
  assumes "36 \<le> length buf"
  shows "\<exists>b. wf_guard b \<and> read_guard buf = Ok b \<and> guard_wire b = take 36 buf"
  using assms
  by (simp add: read_guard_def wf_guard_def guard_wire_def slice_def GUARD_BLOCK_WIRE_LEN_def
      to_le_from_le_take take_split take_split_append)

lemma read_resource_long:
  assumes "28 \<le> length buf"
  shows "\<exists>b. wf_resource b \<and> read_resource buf = Ok b \<and> resource_wire b = take 28 buf"
  using assms
  by (simp add: read_resource_def wf_resource_def resource_wire_def slice_def
      to_le_from_le_take take_split take_split_append)

interpretation tenant_codec:
  wire_codec wf_tenant tenant_wire 40 write_tenant read_tenant "''Buffer too small for TenantHeader''"
  by unfold_locales
    (simp_all add: write_tenant_wire read_tenant_wire read_tenant_long,
     simp_all add: wf_tenant_def tenant_wire_def read_tenant_def)

interpretation guard_codec:
  wire_codec wf_guard guard_wire 36 write_guard read_guard "''Buffer too small for GuardBlock''"
  by unfold_locales
    (simp_all add: write_guard_wire read_guard_wire read_guard_long,
     simp_all add: wf_guard_def guard_wire_def read_guard_def GUARD_BLOCK_WIRE_LEN_def)

interpretation resource_codec:
  wire_codec wf_resource resource_wire 28 write_resource read_resource
    "''Buffer too small for ResourceBlock''"
  by unfold_locales
    (simp_all add: write_resource_wire read_resource_wire read_resource_long,
     simp_all add: wf_resource_def resource_wire_def read_resource_def)

interpretation latency_writer: wire_writer wf_latency latency_wire 32 write_latency
  by unfold_locales
    (simp_all add: write_latency_wire, simp_all add: wf_latency_def latency_wire_def)

section \<open>Identifiers\<close>

text \<open>What a name and its settings contribute to an identifier.\<close>

datatype content =
    BucketContent bytes u32 u32
  | TrackerContent bytes u32 u32 u32

primrec content_name :: "content \<Rightarrow> bytes" where
  "content_name (BucketContent n w r) = n"
| "content_name (TrackerContent n t mx mn) = n"

primrec hashed_bytes :: "content \<Rightarrow> bytes" where
  "hashed_bytes (BucketContent n w r) = content_preimage RESOURCE_ID_DOMAIN n [w, r]"
| "hashed_bytes (TrackerContent n t mx mn) = content_preimage LATENCY_TRACKER_ID_DOMAIN n [t, mx, mn]"

primrec content_id :: "(bytes \<Rightarrow> bytes) \<Rightarrow> content \<Rightarrow> (bytes, 'e) res" where
  "content_id hash (BucketContent n w r) = derive_bucket_id_bytes hash n w r"
| "content_id hash (TrackerContent n t mx mn) = derive_latency_tracker_id_bytes hash n t mx mn"

lemma content_preimage_inject:
  assumes "length n < 2 ^ 32" "length n' < 2 ^ 32"
    and "content_preimage d n fs = content_preimage d n' fs'"
  shows "n = n' \<and> concat (map (to_le 4) fs) = concat (map (to_le 4) fs')"
proof -
  have "(of_nat (length n) :: u32) = of_nat (length n')"
    and eq: "n @ concat (map (to_le 4) fs) = n' @ concat (map (to_le 4) fs')"
    using assms(3) by (simp_all add: content_preimage_def to_le_inject)
  then have "length n = length n'"
    using assms(1,2) by (simp add: word_unat_eq_iff unat_of_nat)
  with eq show ?thesis by simp
qed

lemma domains_differ: "RESOURCE_ID_DOMAIN @ xs \<noteq> LATENCY_TRACKER_ID_DOMAIN @ ys"
  by (simp add: RESOURCE_ID_DOMAIN_def LATENCY_TRACKER_ID_DOMAIN_def as_bytes_def)

lemma hashed_bytes_inject: "inj_on hashed_bytes {c. length (content_name c) < 2 ^ 32}"
proof (rule inj_onI)
  fix c c' assume len: "c \<in> {c. length (content_name c) < 2 ^ 32}" "c' \<in> {c. length (content_name c) < 2 ^ 32}"
    and eq: "hashed_bytes c = hashed_bytes c'"
  have d: "content_preimage RESOURCE_ID_DOMAIN n fs \<noteq> content_preimage LATENCY_TRACKER_ID_DOMAIN n' fs'"
    for n n' fs fs' by (simp add: content_preimage_def domains_differ)
  show "c = c'"
  proof (cases c)
    case (BucketContent n w r)
    then show ?thesis using len eq d
      by (cases c') (auto simp: to_le_inject dest!: content_preimage_inject [rotated 2])
  next
    case (TrackerContent n t mx mn)
    then show ?thesis using len eq d [symmetric]
      by (cases c') (auto simp: to_le_inject dest!: content_preimage_inject [rotated 2])
  qed
qed

lemma content_id_hashed:
  assumes "length (content_name c) < 2 ^ 32" "16 \<le> length (hash (hashed_bytes c))"
  shows "content_id hash c = Ok (take 16 (hash (hashed_bytes c)))"
  using assms
  by (cases c) (simp_all add: derive_bucket_id_bytes_def derive_latency_tracker_id_bytes_def
      derive_content_id_def slice_def)

text \<open>
  C35: with a hash of 32 bytes, an identifier is the first half of the digest of the
  content's bytes, and two different contents, of one kind or of both, never feed the
  same bytes to the hash: the length prefix delimits the name and the domain tag
  separates rate counters from latency trackers.
\<close>

theorem content_ids_separate:
  assumes "\<forall>x. length (hash x) = 32"
    and "length (content_name c) < 2 ^ 32" "length (content_name c') < 2 ^ 32"
  shows "content_id hash c = Ok (take 16 (hash (hashed_bytes c))) \<and>
    content_id hash c' = Ok (take 16 (hash (hashed_bytes c'))) \<and>
    (hashed_bytes c = hashed_bytes c' \<longleftrightarrow> c = c')"
  using assms content_id_hashed [of c hash] content_id_hashed [of c' hash]
    inj_on_eq_iff [OF hashed_bytes_inject, of c c'] by simp

theorem content_ids_separate_witness:
  "hashed_bytes (BucketContent [1] 60000 5) \<noteq> hashed_bytes (TrackerContent [1] 60000 5 1)"
  using content_ids_separate [of "\<lambda>x. replicate 32 0" "BucketContent [1] 60000 5"
      "TrackerContent [1] 60000 5 1"]
  by auto

section \<open>Reading fields\<close>

lemma u16_at_eq: "i + 2 \<le> length data \<Longrightarrow> u16_at i data = Ok (from_le (take 2 (drop i data)))"
  by (simp add: u16_at_def at_index_def take_Suc_conv_app_nth numeral_2_eq_2 Cons_nth_drop_Suc [symmetric])

lemma u16_at_append:
  "length pre = i \<Longrightarrow> u16_at i (pre @ to_le 2 x @ rest) = Ok x"
  by (simp add: u16_at_eq)

lemma u16_at_no_panic: "i + 2 \<le> length data \<Longrightarrow> u16_at i data \<noteq> Panic"
  by (simp add: u16_at_eq)

lemma u16_at_bytes:
  assumes "u16_at i data = Ok x" "i + 2 \<le> length data"
  shows "take 2 (drop i data) = to_le 2 x"
  using assms to_le_from_le_take [of 2 "drop i data", where 'a = 16] by (simp add: u16_at_eq)

end
