(* ===== verification/Bech32.thy ===== *)
theory Bech32
  imports Prelude
begin

text \<open>
  The Bech32 layer of \<open>src/api_key_codec.rs\<close>: the character set, the checksum over
  GF(32), regrouping of bits, and the decoder and encoder built from them.  The lemmas
  show that the encoder's output decodes to its input, that the checksum notices every
  error burst of up to six symbols, and that no input makes the decoder panic.
\<close>

section \<open>Errors and tables\<close>

datatype decode_error =
    EmptyInput
  | NonPrintable
  | MixedCase
  | MissingSeparator
  | EmptyHrp
  | ChecksumTooShort
  | InvalidCharset char
  | ChecksumFailed
  | InvalidPadding
  | InvalidHrpPrefix
  | UnsupportedAuthMethod string
  | InvalidPayloadLength string nat nat
  | UnsupportedFormatVersion u8
  | InvalidPackedQuota

definition GEN :: "u32 list" where
  "GEN = [0x3B6A57B2, 0x26508E6D, 0x1EA119FA, 0x3D4233DD, 0x2A1462B3]"

definition char_table :: "(char \<times> u8) list" where
  "char_table =
    [(CHR ''q'', 0), (CHR ''p'', 1), (CHR ''z'', 2), (CHR ''r'', 3), (CHR ''y'', 4),
     (CHR ''9'', 5), (CHR ''x'', 6), (CHR ''8'', 7), (CHR ''g'', 8), (CHR ''f'', 9),
     (CHR ''2'', 10), (CHR ''t'', 11), (CHR ''v'', 12), (CHR ''d'', 13), (CHR ''w'', 14),
     (CHR ''0'', 15), (CHR ''s'', 16), (CHR ''3'', 17), (CHR ''j'', 18), (CHR ''n'', 19),
     (CHR ''5'', 20), (CHR ''4'', 21), (CHR ''k'', 22), (CHR ''h'', 23), (CHR ''c'', 24),
     (CHR ''e'', 25), (CHR ''6'', 26), (CHR ''m'', 27), (CHR ''u'', 28), (CHR ''a'', 29),
     (CHR ''7'', 30), (CHR ''l'', 31)]"

definition char_to_value :: "char \<Rightarrow> u8 option" where
  "char_to_value c = map_of char_table c"

definition value_to_char :: "u8 \<Rightarrow> char option" where
  "value_to_char v = map_of
    [(0, CHR ''q''), (1, CHR ''p''), (2, CHR ''z''), (3, CHR ''r''), (4, CHR ''y''),
     (5, CHR ''9''), (6, CHR ''x''), (7, CHR ''8''), (8, CHR ''g''), (9, CHR ''f''),
     (10, CHR ''2''), (11, CHR ''t''), (12, CHR ''v''), (13, CHR ''d''), (14, CHR ''w''),
     (15, CHR ''0''), (16, CHR ''s''), (17, CHR ''3''), (18, CHR ''j''), (19, CHR ''n''),
     (20, CHR ''5''), (21, CHR ''4''), (22, CHR ''k''), (23, CHR ''h''), (24, CHR ''c''),
     (25, CHR ''e''), (26, CHR ''6''), (27, CHR ''m''), (28, CHR ''u''), (29, CHR ''a''),
     (30, CHR ''7''), (31, CHR ''l'')] v"

section \<open>The checksum\<close>

definition hrp_expand :: "string \<Rightarrow> bytes" where
  "hrp_expand hrp =
     map (\<lambda>b. drop_bit 5 b) (as_bytes hrp) @ [0] @ map (\<lambda>b. b AND 31) (as_bytes hrp)"

definition polymod_step :: "u32 \<Rightarrow> u8 \<Rightarrow> u32" where
  "polymod_step chk v =
    (let b = drop_bit 25 chk;
         chk = push_bit 5 (chk AND 0x1FFFFFF) XOR ucast v
     in foldl (\<lambda>chk (i, g). if drop_bit i b AND 1 \<noteq> 0 then chk XOR g else chk)
          chk (enumerate 0 GEN))"

definition polymod :: "bytes \<Rightarrow> u32" where
  "polymod values = foldl polymod_step 1 values"

definition verify_checksum :: "string \<Rightarrow> bytes \<Rightarrow> bool" where
  "verify_checksum hrp data \<longleftrightarrow> polymod (hrp_expand hrp @ data) = 1"

definition create_checksum :: "string \<Rightarrow> bytes \<Rightarrow> bytes" where
  "create_checksum hrp data =
    (let pm = polymod (hrp_expand hrp @ data @ [0, 0, 0, 0, 0, 0]) XOR 1
     in map (\<lambda>i. ucast (drop_bit (5 * (5 - i)) pm AND 31)) [0..<6])"

section \<open>Regrouping bits\<close>

text \<open>
  The widths are 5 and 8 at both call sites.  The inner \<open>while bits >= to_bits\<close> loop
  runs with a positive \<open>to_bits\<close>; the guard \<open>0 < to_bits\<close> states that.  The bit count is
  a \<open>u8\<close> in the code and stays below \<open>from_bits + to_bits\<close> (lemma \<open>convert_loop_bits\<close>).
\<close>

function emit_groups :: "nat \<Rightarrow> u32 \<Rightarrow> nat \<Rightarrow> bytes \<Rightarrow> nat \<times> bytes" where
  "emit_groups to_bits acc bits out =
    (if 0 < to_bits \<and> to_bits \<le> bits
     then emit_groups to_bits acc (bits - to_bits)
            (out @ [ucast (drop_bit (bits - to_bits) acc AND (push_bit to_bits 1 - 1))])
     else (bits, out))"
  by pat_completeness auto
termination
  by (relation "measure (\<lambda>(to_bits, acc, bits, out). bits)") auto

declare emit_groups.simps [simp del]

primrec convert_loop ::
  "nat \<Rightarrow> nat \<Rightarrow> bytes \<Rightarrow> u32 \<Rightarrow> nat \<Rightarrow> bytes \<Rightarrow> (u32 \<times> nat \<times> bytes, decode_error) res"
where
  "convert_loop from_bits to_bits [] acc bits out = Ok (acc, bits, out)"
| "convert_loop from_bits to_bits (v # data) acc bits out =
    (if drop_bit from_bits (ucast v :: u32) \<noteq> 0 then Err InvalidPadding
     else
       let acc = (push_bit from_bits acc OR ucast v) AND (push_bit (from_bits + to_bits - 1) 1 - 1);
           (bits, out) = emit_groups to_bits acc (bits + from_bits) out
       in convert_loop from_bits to_bits data acc bits out)"

definition convert_bits :: "bytes \<Rightarrow> nat \<Rightarrow> nat \<Rightarrow> bool \<Rightarrow> (bytes, decode_error) res" where
  "convert_bits data from_bits to_bits pad =
    and_then (convert_loop from_bits to_bits data 0 0 []) (\<lambda>(acc, bits, out).
      let last = push_bit (to_bits - bits) acc AND (push_bit to_bits 1 - 1) in
      if pad then
        (if 0 < bits then Ok (out @ [ucast last]) else Ok out)
      else if from_bits \<le> bits then Err InvalidPadding
      else if last \<noteq> 0 then Err InvalidPadding
      else Ok out)"

section \<open>Decoding and encoding\<close>

primrec scan_case :: "string \<Rightarrow> bool \<Rightarrow> bool \<Rightarrow> (bool \<times> bool, decode_error) res" where
  "scan_case [] has_lower has_upper = Ok (has_lower, has_upper)"
| "scan_case (c # cs) has_lower has_upper =
    (if \<not> (33 \<le> (of_char c :: nat) \<and> (of_char c :: nat) \<le> 126) then Err NonPrintable
     else scan_case cs (has_lower \<or> is_ascii_lowercase c) (has_upper \<or> is_ascii_uppercase c))"

primrec rfind :: "char \<Rightarrow> string \<Rightarrow> nat option" where
  "rfind c [] = None"
| "rfind c (x # xs) = (case rfind c xs of
      Some i \<Rightarrow> Some (Suc i)
    | None \<Rightarrow> if x = c then Some 0 else None)"

primrec decode_symbols :: "string \<Rightarrow> (bytes, decode_error) res" where
  "decode_symbols [] = Ok []"
| "decode_symbols (c # cs) =
    and_then (ok_or (InvalidCharset c) (char_to_value c)) (\<lambda>v.
    and_then (decode_symbols cs) (\<lambda>vs. Ok (v # vs)))"

definition bech32_decode :: "string \<Rightarrow> (string \<times> bytes, decode_error) res" where
  "bech32_decode addr =
    (if addr = [] then Err EmptyInput
     else and_then (scan_case addr False False) (\<lambda>(has_lower, has_upper).
     if has_lower \<and> has_upper then Err MixedCase
     else let s = to_ascii_lowercase addr in
     and_then (ok_or MissingSeparator (rfind (CHR ''1'') s)) (\<lambda>pos.
     if pos < 1 then Err EmptyHrp
     else and_then (sub_n (length s) (pos + 1)) (\<lambda>rest.
     if rest < 6 then Err ChecksumTooShort
     else and_then (slice 0 pos s) (\<lambda>hrp.
     and_then (slice_from (pos + 1) s) (\<lambda>symbols.
     and_then (decode_symbols symbols) (\<lambda>data.
     if \<not> verify_checksum hrp data then Err ChecksumFailed
     else and_then (sub_n (length data) 6) (\<lambda>n.
     and_then (slice 0 n data) (\<lambda>payload5.
     and_then (convert_bits payload5 5 8 False) (\<lambda>payload. Ok (hrp, payload)))))))))))"

primrec encode_symbols :: "bytes \<Rightarrow> (string, decode_error) res" where
  "encode_symbols [] = Ok []"
| "encode_symbols (v # vs) =
    (case value_to_char v of None \<Rightarrow> Panic | Some c \<Rightarrow>
       and_then (encode_symbols vs) (\<lambda>cs. Ok (c # cs)))"

definition bech32_encode :: "string \<Rightarrow> bytes \<Rightarrow> (string, decode_error) res" where
  "bech32_encode hrp payload =
    (if hrp = [] then Err EmptyHrp
     else if \<not> list_all (\<lambda>c. 33 \<le> (of_char c :: nat) \<and> (of_char c :: nat) \<le> 126) hrp
     then Err NonPrintable
     else let hrp = to_ascii_lowercase hrp in
     and_then (convert_bits payload 8 5 True) (\<lambda>data.
     let checksum = create_checksum hrp data in
     and_then (encode_symbols (data @ checksum)) (\<lambda>cs. Ok (hrp @ ''1'' @ cs))))"

section \<open>The checksum is linear\<close>

text \<open>
  \<open>poly_shift\<close> is one step on a zero symbol: multiplication by \<open>x\<close> modulo the generator,
  written as an exclusive-or of terms that each depend on one part of the state.
\<close>

definition poly_shift :: "u32 \<Rightarrow> u32" where
  "poly_shift s = push_bit 5 (s AND 0x1FFFFFF)
     XOR (if bit s 25 then 0x3B6A57B2 else 0) XOR (if bit s 26 then 0x26508E6D else 0)
     XOR (if bit s 27 then 0x1EA119FA else 0) XOR (if bit s 28 then 0x3D4233DD else 0)
     XOR (if bit s 29 then 0x2A1462B3 else 0)"

lemma drop_bit_and_one: "drop_bit i b AND 1 \<noteq> 0 \<longleftrightarrow> bit b i" for b :: "'a::len word"
  by (simp add: and_one_eq bit_iff_odd_drop_bit mod_2_eq_odd)

lemma xor_if: "(if c then x XOR g else x) = x XOR (if c then g else (0 :: 'a::len word))"
  by simp

lemma polymod_step_eq: "polymod_step s v = poly_shift s XOR ucast v"
  by (simp add: polymod_step_def poly_shift_def GEN_def Let_def drop_bit_and_one bit_drop_bit_eq
        xor_if xor.assoc xor.commute xor.left_commute)

lemma poly_shift_xor: "poly_shift (a XOR b) = poly_shift a XOR poly_shift b"
proof -
  have sel: "(if bit (a XOR b) n then g else 0) = (if bit a n then g else 0) XOR (if bit b n then g else 0)"
    for n and g :: u32
    by (simp add: bit_xor_iff)
  have "push_bit 5 ((a XOR b) AND 0x1FFFFFF) = push_bit 5 (a AND 0x1FFFFFF) XOR push_bit 5 (b AND 0x1FFFFFF)"
    by (rule bit_eqI) (auto simp: bit_simps)
  then show ?thesis
    unfolding poly_shift_def sel by (simp only: xor.assoc xor.commute xor.left_commute)
qed

lemma poly_shift_0 [simp]: "poly_shift 0 = 0"
  by (simp add: poly_shift_def)

definition fits :: "nat \<Rightarrow> u32 \<Rightarrow> bool" where
  "fits n x \<longleftrightarrow> (\<forall>i. bit x i \<longrightarrow> i < n)"

lemma poly_shift_small: "fits 25 s \<Longrightarrow> poly_shift s = push_bit 5 s"
proof -
  assume s: "fits 25 s"
  then have b: "\<not> bit s 25" "\<not> bit s 26" "\<not> bit s 27" "\<not> bit s 28" "\<not> bit s 29"
    by (auto simp: fits_def)
  have "(0x1FFFFFF :: u32) = mask 25" by (simp add: mask_eq_exp_minus_1)
  then have "s AND 0x1FFFFFF = s"
    using s by (auto simp: fits_def bit_eq_iff bit_simps)
  then show ?thesis using b by (simp add: poly_shift_def)
qed


lemma fits_take_bit: "fits n x \<longleftrightarrow> take_bit n x = x"
proof
  show "take_bit n x = x \<Longrightarrow> fits n x"
    unfolding fits_def by (metis bit_take_bit_iff)
qed (auto simp: fits_def bit_eq_iff bit_take_bit_iff)

lemma fits_0 [simp]: "fits n 0"
  by (simp add: fits_def)

lemma fits_xor: "fits n x \<Longrightarrow> fits n y \<Longrightarrow> fits n (x XOR y)"
  by (auto simp: fits_def bit_xor_iff)

lemma fits_push: "fits n x \<Longrightarrow> fits (n + k) (push_bit k x)"
  by (auto simp: fits_def bit_push_bit_iff)

lemma fits_mono: "fits n x \<Longrightarrow> n \<le> m \<Longrightarrow> fits m x"
  by (auto simp: fits_def)

lemma fits_poly_shift: "fits 30 (poly_shift s)"
proof -
  have mask: "(0x1FFFFFF :: u32) = mask 25" by (simp add: mask_eq_exp_minus_1)
  have "fits (25 + 5) (push_bit 5 (s AND 0x1FFFFFF))"
    unfolding mask by (rule fits_push) (auto simp: fits_def bit_simps)
  then have "fits 30 (push_bit 5 (s AND 0x1FFFFFF))" by simp
  then show ?thesis unfolding poly_shift_def
    by (intro fits_xor) (simp_all add: fits_take_bit)
qed

text \<open>
  The low five bits of the generator constants are linearly independent, so a nonzero
  state never shifts to zero: a difference between two states survives every symbol.
\<close>

lemma less_30_cases: "i < 30 \<Longrightarrow> i < 25 \<or> i = 25 \<or> i = 26 \<or> i = 27 \<or> i = 28 \<or> i = 29"
  for i :: nat
  by linarith

lemma poly_shift_eq_0:
  assumes "fits 30 s" "poly_shift s = 0"
  shows "s = 0"
proof -
  have low: "bit (poly_shift s) j = False" for j using assms(2) by simp
  have "\<not> bit s 25 \<and> \<not> bit s 26 \<and> \<not> bit s 27 \<and> \<not> bit s 28 \<and> \<not> bit s 29"
    using low [of 0] low [of 1] low [of 2] low [of 3] low [of 4]
    unfolding poly_shift_def
    by (auto simp: bit_xor_iff bit_push_bit_iff bit_and_iff split: if_splits)
  then have "fits 25 s"
    using assms(1) unfolding fits_def using less_30_cases by blast
  moreover from this assms(2) have "push_bit 5 s = 0" by (simp add: poly_shift_small)
  then have "bit (push_bit 5 s) (5 + i) = False" for i by simp
  then have "\<not> bit s i" if "i < 25" for i using that by (auto simp: bit_push_bit_iff)
  ultimately show ?thesis unfolding fits_def by (auto simp: bit_eq_iff)
qed

lemma symbol_iff: "v < 32 \<longleftrightarrow> take_bit 5 v = v" for v :: u8
proof -
  have "take_bit 5 v = v \<longleftrightarrow> unat v mod 32 = unat v"
    by (simp only: word_unat_eq_iff unsigned_take_bit_eq) (simp add: take_bit_eq_mod)
  then show ?thesis by (simp add: word_less_nat_alt mod_eq_self_iff_div_eq_0 div_eq_0_iff)
qed

lemma symbol_xor: "u < 32 \<Longrightarrow> v < 32 \<Longrightarrow> u XOR v < 32" for u v :: u8
  by (simp add: symbol_iff)

lemma fits_symbol: "v < 32 \<Longrightarrow> fits 5 (ucast v)" for v :: u8
proof -
  assume "v < 32"
  then have "take_bit 5 v = v" by (simp add: symbol_iff)
  then have "bit v i \<Longrightarrow> i < 5" for i by (metis bit_take_bit_iff)
  then show ?thesis by (auto simp: fits_def bit_ucast_iff)
qed

lemma ucast_xor: "(ucast (u XOR v) :: u32) = ucast u XOR ucast v" for u v :: u8
  by (rule bit_eqI) (auto simp: bit_simps)

lemma fits_polymod_step: "fits 30 (polymod_step s v)"
proof -
  have "fits 8 (ucast v :: u32)" by (auto simp: fits_def bit_ucast_iff dest: bit_imp_le_length)
  then show ?thesis unfolding polymod_step_eq
    by (intro fits_xor fits_poly_shift) (auto intro: fits_mono)
qed

lemma fits_foldl_step: "fits 30 s \<Longrightarrow> fits 30 (foldl polymod_step s vs)"
  by (induction vs arbitrary: s) (auto simp: fits_polymod_step)

lemma polymod_step_xor: "polymod_step (a XOR b) (u XOR v) = polymod_step a u XOR polymod_step b v"
  unfolding polymod_step_eq poly_shift_xor ucast_xor by (simp only: xor.assoc xor.left_commute)

lemma foldl_step_xor:
  "length us = length vs \<Longrightarrow>
   foldl polymod_step a us XOR foldl polymod_step b vs =
   foldl polymod_step (a XOR b) (map2 (XOR) us vs)"
  by (induction us vs arbitrary: a b rule: list_induct2) (simp_all add: polymod_step_xor)

lemma polymod_step_zero: "polymod_step s 0 = poly_shift s"
  by (simp add: polymod_step_eq)

lemma foldl_step_zeros:
  "fits 30 s \<Longrightarrow> foldl polymod_step s (replicate n 0) = 0 \<Longrightarrow> s = 0"
proof (induction n arbitrary: s)
  case (Suc n)
  then have "poly_shift s = 0" by (auto simp: polymod_step_zero fits_poly_shift)
  with Suc.prems(1) show ?case by (rule poly_shift_eq_0)
qed simp

text \<open>Up to six symbols fill the state without reaching the feedback of the generator.\<close>

lemma foldl_step_short:
  "length e \<le> 6 \<Longrightarrow> \<forall>v \<in> set e. v < 32 \<Longrightarrow>
   fits (5 * length e) (foldl polymod_step 0 e) \<and>
   (foldl polymod_step 0 e = 0 \<longrightarrow> (\<forall>v \<in> set e. v = 0))"
proof (induction e rule: rev_induct)
  case (snoc v e)
  define s where "s = foldl polymod_step 0 e"
  have IH: "fits (5 * length e) s" "s = 0 \<Longrightarrow> \<forall>v \<in> set e. v = 0"
    using snoc by (auto simp: s_def)
  have v: "fits 5 (ucast v :: u32)" using snoc.prems by (simp add: fits_symbol)
  have "fits 25 s" using IH(1) snoc.prems by (auto intro: fits_mono)
  then have step: "polymod_step s v = push_bit 5 s XOR ucast v"
    by (simp add: polymod_step_eq poly_shift_small)
  have "fits (5 * length e + 5) (push_bit 5 s XOR ucast v)"
    using v by (intro fits_xor fits_push IH(1)) (auto intro: fits_mono)
  moreover have "s = 0 \<and> v = 0" if "push_bit 5 s XOR ucast v = 0"
  proof -
    have eq: "bit (push_bit 5 s) i = bit (ucast v :: u32) i" for i
    proof -
      have "bit (push_bit 5 s XOR ucast v) i = False" by (simp add: that)
      then show ?thesis by (simp add: bit_xor_iff)
    qed
    have "\<not> bit (ucast v :: u32) i" for i
      using eq [of i] v by (auto simp: fits_def bit_push_bit_iff)
    then have "(ucast v :: u32) = 0" by (simp add: bit_eq_iff)
    moreover from this have "push_bit 5 s = 0" using that by simp
    then have "bit (push_bit 5 s) (5 + i) = False" for i by simp
    then have "s = 0" using \<open>fits 25 s\<close>
      by (auto simp: bit_eq_iff fits_def bit_push_bit_iff)
    moreover have "v = 0" using \<open>(ucast v :: u32) = 0\<close>
      by (metis unat_0 unat_0_iff unat_ucast_8_32)
    ultimately show ?thesis by simp
  qed
  ultimately show ?case using IH(2) by (auto simp: step s_def [symmetric] add.commute)
qed simp

lemma word_xor_eq_0: "a XOR b = 0 \<longleftrightarrow> a = b" for a b :: "'a::len word"
  by (metis xor.assoc xor_self_eq xor.left_neutral xor.right_neutral)

lemma verify_checksum_burst:
  assumes "length b = length b'" "length b \<le> 6" "b \<noteq> b'"
    and "\<forall>v \<in> set b \<union> set b'. v < 32"
    and "verify_checksum hrp (pre @ b @ post)"
  shows "\<not> verify_checksum hrp (pre @ b' @ post)"
proof
  assume v': "verify_checksum hrp (pre @ b' @ post)"
  define s where "s = foldl polymod_step 1 (hrp_expand hrp @ pre)"
  have "foldl polymod_step s (b @ post) XOR foldl polymod_step s (b' @ post) = 0"
    using assms(5) v' by (simp add: verify_checksum_def polymod_def s_def)
  then have "foldl polymod_step (s XOR s) (map2 (XOR) (b @ post) (b' @ post)) = 0"
    using assms(1) by (subst (asm) foldl_step_xor) auto
  moreover have "map2 (XOR) post post = replicate (length post) 0"
    by (auto intro: nth_equalityI)
  ultimately have "foldl polymod_step (foldl polymod_step 0 (map2 (XOR) b b')) (replicate (length post) 0) = 0"
    using assms(1) by simp
  then have "foldl polymod_step 0 (map2 (XOR) b b') = 0"
    by (rule foldl_step_zeros [rotated]) (simp add: fits_foldl_step)
  moreover have "\<forall>v \<in> set (map2 (XOR) b b'). v < 32"
    using assms(4) by (auto intro!: symbol_xor dest: set_zip_leftD set_zip_rightD)
  ultimately have "\<forall>v \<in> set (map2 (XOR) b b'). v = 0"
    using foldl_step_short [of "map2 (XOR) b b'"] assms(1,2) by simp
  then have "b ! i XOR b' ! i = 0" if "i < length b" for i
    using that assms(1) by (fastforce simp: set_zip)
  then have "b = b'" using assms(1)
    by (intro nth_equalityI) (simp_all add: word_xor_eq_0)
  then show False using assms(3) by simp
qed


section \<open>The created checksum verifies\<close>

lemma foldl_step_linear_zero:
  "foldl polymod_step s vs = foldl polymod_step s (replicate (length vs) 0) XOR foldl polymod_step 0 vs"
proof -
  have "map2 (XOR) (replicate (length vs) 0) vs = vs"
    by (auto intro: nth_equalityI)
  then show ?thesis
    using foldl_step_xor [of "replicate (length vs) 0" vs s 0] by simp
qed

text \<open>The six checksum symbols are the six five-bit groups of the final state.\<close>

lemma foldl_step_groups:
  assumes "fits 30 pm"
  shows "foldl polymod_step 0 (map (\<lambda>i. ucast (drop_bit (5 * (5 - i)) pm AND 31)) [0..<6]) = pm"
proof -
  define grp where "grp k = (ucast (drop_bit (25 - 5 * k) pm AND 31) :: u8)" for k
  have m: "(31 :: u32) = mask 5" by (simp add: mask_eq_exp_minus_1)
  have grp: "bit (ucast (grp k) :: u32) i \<longleftrightarrow> i < 5 \<and> bit pm (25 - 5 * k + i)" for k i
    unfolding grp_def m by (auto simp: bit_simps dest: bit_imp_le_length)
  have step: "polymod_step (drop_bit (30 - 5 * k) pm) (grp k) = drop_bit (25 - 5 * k) pm"
    if "k \<le> 5" for k
  proof -
    have "fits (5 * k) (drop_bit (30 - 5 * k) pm)"
      using assms that by (fastforce simp: fits_def bit_drop_bit_eq)
    then have "fits 25 (drop_bit (30 - 5 * k) pm)" using that by (auto intro: fits_mono)
    then have eq: "polymod_step (drop_bit (30 - 5 * k) pm) (grp k) =
        push_bit 5 (drop_bit (30 - 5 * k) pm) XOR ucast (grp k)"
      by (simp add: polymod_step_eq poly_shift_small)
    show ?thesis
    proof (rule bit_word_eqI)
      fix n assume n: "n < LENGTH(32)"
      have idx: "30 - 5 * k + (n - 5) = 25 - 5 * k + n" if "5 \<le> n"
        using that \<open>k \<le> 5\<close> by simp
      show "bit (polymod_step (drop_bit (30 - 5 * k) pm) (grp k)) n =
          bit (drop_bit (25 - 5 * k) pm) n"
        unfolding eq bit_xor_iff bit_push_bit_iff grp bit_drop_bit_eq comp_def
        using n by (cases "n < 5") (simp_all only: idx not_less, simp_all)
    qed
  qed
  have zero: "drop_bit 30 pm = 0" using assms by (auto simp: bit_eq_iff fits_def bit_simps)
  have "map (\<lambda>i. ucast (drop_bit (5 * (5 - i)) pm AND 31)) [0..<6] = map grp [0, 1, 2, 3, 4, 5]"
    by (simp add: grp_def upt_conv_Cons)
  then show ?thesis
    using step [of 0] step [of 1] step [of 2] step [of 3] step [of 4] step [of 5] zero by simp
qed

lemma verify_create_checksum: "verify_checksum hrp (data @ create_checksum hrp data)"
proof -
  define s where "s = foldl polymod_step 1 (hrp_expand hrp @ data)"
  define z where "z = foldl polymod_step s (replicate 6 0)"
  have six: "[0, 0, 0, 0, 0, 0] = replicate 6 (0 :: u8)" by (simp add: numeral_eq_Suc)
  have pm: "polymod (hrp_expand hrp @ data @ [0, 0, 0, 0, 0, 0]) = z"
    by (simp add: polymod_def s_def z_def six)
  have "fits 30 s" unfolding s_def by (rule fits_foldl_step) (simp add: fits_take_bit)
  then have "fits 30 (z XOR 1)"
    unfolding z_def by (intro fits_xor fits_foldl_step) (simp_all add: fits_take_bit)
  then have "foldl polymod_step 0 (create_checksum hrp data) = z XOR 1"
    by (simp only: create_checksum_def Let_def pm foldl_step_groups)
  moreover have "length (create_checksum hrp data) = 6"
    by (simp add: create_checksum_def Let_def)
  ultimately have "foldl polymod_step s (create_checksum hrp data) = z XOR (z XOR 1)"
    using foldl_step_linear_zero [of s "create_checksum hrp data"] by (simp add: z_def)
  then show ?thesis
    by (simp add: verify_checksum_def polymod_def s_def flip: xor.assoc)
qed


section \<open>Regrouping keeps the bit string\<close>

text \<open>The \<open>n\<close> low bits of a word, most significant first, and those of a list of groups.\<close>

primrec bits_be :: "nat \<Rightarrow> 'a::len word \<Rightarrow> bool list" where
  "bits_be 0 x = []"
| "bits_be (Suc n) x = bit x n # bits_be n x"

definition groups :: "nat \<Rightarrow> bytes \<Rightarrow> bool list" where
  "groups n xs = concat (map (bits_be n) xs)"

definition group_fits :: "nat \<Rightarrow> u8 \<Rightarrow> bool" where
  "group_fits n v \<longleftrightarrow> (\<forall>i. bit v i \<longrightarrow> i < n)"

lemma length_bits_be [simp]: "length (bits_be n x) = n"
  by (induction n) auto

lemma groups_simps [simp]:
  "groups n [] = []" "groups n (x # xs) = bits_be n x @ groups n xs"
  "groups n (xs @ ys) = groups n xs @ groups n ys"
  by (simp_all add: groups_def)

lemma length_groups [simp]: "length (groups n xs) = n * length xs"
  by (induction xs) auto

lemma bits_be_append: "bits_be (m + n) x = bits_be m (drop_bit n x) @ bits_be n x"
  by (induction m) (simp_all add: bit_drop_bit_eq add.commute)

lemma bits_be_eq_iff: "bits_be n x = bits_be n y \<longleftrightarrow> (\<forall>i<n. bit x i = bit y i)"
  by (induction n) (auto simp: less_Suc_eq)

lemma bits_be_zero_iff: "bits_be n x = replicate n False \<longleftrightarrow> (\<forall>i<n. \<not> bit x i)"
  by (induction n) (auto simp: less_Suc_eq)

lemma mask_literal: "push_bit n 1 - 1 = (mask n :: u32)"
  by (simp add: mask_eq_exp_minus_1 push_bit_eq_mult)

lemma group_fits_8 [simp]: "group_fits 8 v"
  by (auto simp: group_fits_def dest: bit_imp_le_length)

lemma group_fits_ucast: "drop_bit n (ucast v :: u32) = 0 \<longleftrightarrow> group_fits n v" for v :: u8
proof
  assume eq: "drop_bit n (ucast v :: u32) = 0"
  show "group_fits n v"
    unfolding group_fits_def
  proof (intro allI impI)
    fix i assume i: "bit v i"
    show "i < n"
    proof (rule ccontr)
      assume "\<not> i < n"
      then have "bit (drop_bit n (ucast v :: u32)) (i - n)"
        using i bit_imp_le_length [OF i] by (simp add: bit_drop_bit_eq bit_ucast_iff)
      with eq show False by simp
    qed
  qed
qed (auto simp: group_fits_def bit_eq_iff bit_drop_bit_eq bit_ucast_iff)

text \<open>One emitted group is the top of the pending bits.\<close>

lemma emit_groups_spec:
  assumes "0 < to_bits" "to_bits \<le> 8" "emit_groups to_bits acc bits out = (bits', out')"
    "\<forall>v \<in> set out. group_fits to_bits v"
  shows "bits' < to_bits \<and> (\<forall>v \<in> set out'. group_fits to_bits v) \<and>
    groups to_bits out' @ bits_be bits' acc = groups to_bits out @ bits_be bits acc"
  using assms
proof (induction to_bits acc bits out rule: emit_groups.induct)
  case (1 to_bits acc bits out)
  show ?case
  proof (cases "to_bits \<le> bits")
    case True
    define x where "x = (ucast (drop_bit (bits - to_bits) acc AND (push_bit to_bits 1 - 1)) :: u8)"
    have bit_x: "bit x i \<longleftrightarrow> i < to_bits \<and> bit acc (bits - to_bits + i)" for i
      unfolding x_def mask_literal using 1(3) by (auto simp: bit_simps dest: bit_imp_le_length)
    have "bits_be to_bits x = bits_be to_bits (drop_bit (bits - to_bits) acc)"
      by (auto simp: bits_be_eq_iff bit_x bit_drop_bit_eq)
    then have split: "bits_be bits acc = bits_be to_bits x @ bits_be (bits - to_bits) acc"
      using bits_be_append [of to_bits "bits - to_bits" acc] True by simp
    have rec: "emit_groups to_bits acc bits out = emit_groups to_bits acc (bits - to_bits) (out @ [x])"
      unfolding x_def using 1(2) True by (subst emit_groups.simps) simp
    have "bits' < to_bits \<and> (\<forall>v \<in> set out'. group_fits to_bits v) \<and>
        groups to_bits out' @ bits_be bits' acc =
        groups to_bits (out @ [x]) @ bits_be (bits - to_bits) acc"
    proof (rule 1(1) [folded x_def, OF _ 1(2,3)])
      show "0 < to_bits \<and> to_bits \<le> bits" using 1(2) True by simp
      show "emit_groups to_bits acc (bits - to_bits) (out @ [x]) = (bits', out')"
        using 1(4) rec by simp
      show "\<forall>v \<in> set (out @ [x]). group_fits to_bits v"
        using 1(5) by (auto simp: group_fits_def bit_x)
    qed
    then show ?thesis by (simp only: split groups_simps) simp
  next
    case False
    then have "emit_groups to_bits acc bits out = (bits, out)"
      by (subst emit_groups.simps) simp
    then show ?thesis using False 1(4,5) by simp
  qed
qed

text \<open>Appending a group to the pending bits, with the mask that keeps \<open>from + to - 1\<close> of them.\<close>

lemma bits_be_shift_in:
  assumes "group_fits m v" "n + m \<le> k" "k \<le> 32"
  shows "bits_be (n + m) ((push_bit m acc OR ucast v) AND (push_bit k 1 - 1) :: u32) =
    bits_be n acc @ bits_be m v"
proof -
  define acc' :: u32 where "acc' = (push_bit m acc OR ucast v) AND (push_bit k 1 - 1)"
  have bit': "bit acc' i \<longleftrightarrow> i < k \<and> (if i < m then bit v i else bit acc (i - m))" if "i < 32" for i
    unfolding acc'_def mask_literal using assms that
    by (auto simp: bit_simps group_fits_def)
  have "bits_be n (drop_bit m acc') = bits_be n acc" "bits_be m acc' = bits_be m v"
    using assms by (auto simp: bits_be_eq_iff bit_drop_bit_eq bit')
  then show ?thesis using bits_be_append [of n m acc'] by (simp add: acc'_def)
qed


text \<open>
  The whole loop: fewer than \<open>to_bits\<close> bits stay pending, so the \<open>u8\<close> bit counter
  never passes \<open>from_bits + to_bits\<close>, and output and pending bits together spell the input.
\<close>

lemma convert_loop_spec:
  assumes "0 < t" "t \<le> 8" "0 < f" "f \<le> 8"
    "\<forall>v \<in> set data. group_fits f v" "\<forall>v \<in> set out. group_fits t v" "bits < t"
  shows "\<exists>acc' bits' out'. convert_loop f t data acc bits out = Ok (acc', bits', out') \<and>
    bits' < t \<and> (\<forall>v \<in> set out'. group_fits t v) \<and>
    groups t out' @ bits_be bits' acc' = groups t out @ bits_be bits acc @ groups f data"
  using assms(5-7)
proof (induction data arbitrary: acc bits out)
  case Nil
  then show ?case by simp
next
  case (Cons v data)
  define acc1 :: u32 where
    "acc1 = (push_bit f acc OR ucast v) AND (push_bit (f + t - 1) 1 - 1)"
  obtain bits1 out1 where e: "emit_groups t acc1 (bits + f) out = (bits1, out1)"
    by (cases "emit_groups t acc1 (bits + f) out")
  have step: "convert_loop f t (v # data) acc bits out = convert_loop f t data acc1 bits1 out1"
    unfolding convert_loop.simps Let_def acc1_def [symmetric] e
    using Cons.prems(1) by (simp add: group_fits_ucast)
  have "bits_be (bits + f) acc1 = bits_be bits acc @ bits_be f v"
    unfolding acc1_def using assms(1-4) Cons.prems(1,3) by (intro bits_be_shift_in) auto
  moreover have "bits1 < t" "\<forall>v \<in> set out1. group_fits t v"
      "groups t out1 @ bits_be bits1 acc1 = groups t out @ bits_be (bits + f) acc1"
    using emit_groups_spec [OF assms(1,2) e Cons.prems(2)] by auto
  ultimately show ?case
    using Cons.IH [of out1 bits1 acc1] Cons.prems(1) step by auto
qed

lemma convert_loop_bits:
  assumes "0 < t" "t \<le> 8" "0 < f" "f \<le> 8" "\<forall>v \<in> set data. group_fits f v"
    "convert_loop f t data 0 0 [] = Ok (acc', bits', out')"
  shows "bits' + f < 16"
  using convert_loop_spec [OF assms(1-5), of "[]" 0 0] assms by auto

lemma convert_bits_pad:
  assumes "0 < t" "t \<le> 8" "0 < f" "f \<le> 8" "\<forall>v \<in> set data. group_fits f v"
  shows "\<exists>out k. convert_bits data f t True = Ok out \<and> k < t \<and>
    (\<forall>v \<in> set out. group_fits t v) \<and> groups t out = groups f data @ replicate k False"
proof -
  obtain acc bits out where r: "convert_loop f t data 0 0 [] = Ok (acc, bits, out)" "bits < t"
      "\<forall>v \<in> set out. group_fits t v" "groups t out @ bits_be bits acc = groups f data"
    using convert_loop_spec [OF assms, of "[]" 0 0] assms(1) by auto
  show ?thesis
  proof (cases "bits = 0")
    case True
    then show ?thesis using r assms(1) by (auto simp: convert_bits_def intro!: exI [of _ 0])
  next
    case False
    define x :: u8 where
      "x = ucast (push_bit (t - bits) acc AND (push_bit t 1 - 1))"
    have bit_x: "bit x i \<longleftrightarrow> i < t \<and> t - bits \<le> i \<and> bit acc (i - (t - bits))" for i
      unfolding x_def mask_literal using assms(2) by (auto simp: bit_simps)
    have "bits_be bits (drop_bit (t - bits) x) = bits_be bits acc"
        "bits_be (t - bits) x = replicate (t - bits) False"
      using r(2) by (auto simp: bits_be_eq_iff bits_be_zero_iff bit_drop_bit_eq bit_x)
    then have "bits_be t x = bits_be bits acc @ replicate (t - bits) False"
      using bits_be_append [of bits "t - bits" x] r(2) by simp
    moreover have "group_fits t x" by (simp add: group_fits_def bit_x)
    ultimately show ?thesis using r False
      by (intro exI [of _ "out @ [x]"] exI [of _ "t - bits"])
         (auto simp: convert_bits_def x_def Let_def simp flip: append_assoc)
  qed
qed


lemma bits_be_inject:
  "group_fits n x \<Longrightarrow> group_fits n y \<Longrightarrow> bits_be n x = bits_be n y \<Longrightarrow> x = y" for x y :: u8
  by (rule bit_eqI) (auto simp: group_fits_def bits_be_eq_iff)

lemma groups_inject:
  "length xs = length ys \<Longrightarrow> \<forall>v \<in> set xs \<union> set ys. group_fits n v \<Longrightarrow>
   groups n xs = groups n ys \<Longrightarrow> xs = ys"
  by (induction xs ys rule: list_induct2) (auto intro: bits_be_inject)

lemma last_group_zero:
  assumes "b < t" "t \<le> 8"
  shows "push_bit (t - b) acc AND (push_bit t 1 - 1) = (0 :: u32) \<longleftrightarrow>
    bits_be b acc = replicate b False"
proof -
  define x :: u32 where "x = push_bit (t - b) acc AND mask t"
  have bit_x: "bit x i \<longleftrightarrow> i < t \<and> t - b \<le> i \<and> bit acc (i - (t - b))" for i
    unfolding x_def using assms by (auto simp: bit_simps)
  have "x = 0 \<longleftrightarrow> (\<forall>i<b. \<not> bit acc i)"
  proof
    assume "x = 0"
    then have "\<not> bit x (t - b + i)" for i by simp
    then show "\<forall>i<b. \<not> bit acc i" unfolding bit_x using assms by auto
  qed (use assms in \<open>auto simp: bit_eq_iff bit_x\<close>)
  then show ?thesis unfolding mask_literal bits_be_zero_iff by (simp add: x_def)
qed

text \<open>
  Without padding the loop must end in fewer than \<open>from_bits\<close> zero bits; then the
  output is determined by the bit string of the input.
\<close>

lemma convert_bits_no_pad:
  assumes "0 < t" "t \<le> 8" "0 < f" "f \<le> 8" "\<forall>v \<in> set data. group_fits f v"
  shows "convert_bits data f t False = Ok out \<longleftrightarrow>
    (\<forall>v \<in> set out. group_fits t v) \<and>
    (\<exists>k < min f t. groups f data = groups t out @ replicate k False)"
proof -
  obtain acc bits out' where r: "convert_loop f t data 0 0 [] = Ok (acc, bits, out')" "bits < t"
      "\<forall>v \<in> set out'. group_fits t v" "groups t out' @ bits_be bits acc = groups f data"
    using convert_loop_spec [OF assms, of "[]" 0 0] assms(1) by auto
  have last: "push_bit (t - bits) acc AND (push_bit t 1 - 1) = 0 \<longleftrightarrow>
      bits_be bits acc = replicate bits False"
    using r(2) assms(2) by (rule last_group_zero)
  show ?thesis
  proof
    assume "convert_bits data f t False = Ok out"
    then have "out = out'" "bits < f" "bits_be bits acc = replicate bits False"
      using r(1) last by (auto simp: convert_bits_def Let_def split: if_splits)
    then show "(\<forall>v \<in> set out. group_fits t v) \<and>
        (\<exists>k < min f t. groups f data = groups t out @ replicate k False)"
      using r by (metis min_less_iff_conj)
  next
    assume out: "(\<forall>v \<in> set out. group_fits t v) \<and>
        (\<exists>k < min f t. groups f data = groups t out @ replicate k False)"
    then obtain k where k: "k < f" "k < t" "groups t out' @ bits_be bits acc = groups t out @ replicate k False"
      using r(4) by auto
    then have len: "t * length out' + bits = t * length out + k"
      by (metis length_append length_bits_be length_groups length_replicate)
    then have "length out' = length out" "bits = k"
      using r(2) k(2) assms(1)
      by (metis add.commute div_mult_self4 div_less less_nat_zero_code plus_nat.add_0,
          metis add.commute mod_mult_self2 mod_less)
    then have "out' = out" "bits_be bits acc = replicate bits False"
      using k(3) r(3) out groups_inject [of out' out t] by auto
    then show "convert_bits data f t False = Ok out"
      using r(1) last \<open>bits = k\<close> k(1) by (simp add: convert_bits_def Let_def)
  qed
qed


section \<open>The character set\<close>

lemma char_table_facts:
  "\<forall>(c, v) \<in> set char_table. value_to_char v = Some c \<and> v < 32 \<and> c \<noteq> CHR ''1'' \<and>
     \<not> is_ascii_uppercase c \<and> 33 \<le> (of_char c :: nat) \<and> (of_char c :: nat) \<le> 126"
  by code_simp

lemma value_table_facts:
  "\<forall>n \<in> set [0..<32]. \<exists>c \<in> set (map fst char_table).
     value_to_char (of_nat n) = Some c \<and> char_to_value c = Some (of_nat n)"
  by code_simp

lemma char_to_value_Some:
  assumes "char_to_value c = Some v"
  shows "value_to_char v = Some c" "v < 32" "c \<noteq> CHR ''1''" "\<not> is_ascii_uppercase c"
    "33 \<le> (of_char c :: nat)" "(of_char c :: nat) \<le> 126"
  using char_table_facts map_of_SomeD [OF assms [unfolded char_to_value_def]] by auto

lemma value_to_char_less:
  assumes "v < 32"
  shows "\<exists>c. value_to_char v = Some c \<and> char_to_value c = Some v"
proof -
  have "unat v \<in> set [0..<32]" using assms by (simp add: word_less_nat_alt)
  from bspec [OF value_table_facts this] show ?thesis by auto
qed

lemma group_fits_5: "group_fits 5 v \<longleftrightarrow> v < 32"
proof -
  have "group_fits 5 v" if "take_bit 5 v = v"
    unfolding group_fits_def using that by (metis bit_take_bit_iff)
  moreover have "take_bit 5 v = v" if "group_fits 5 v"
    using that by (auto simp: group_fits_def bit_eq_iff bit_take_bit_iff)
  ultimately show ?thesis by (auto simp: symbol_iff)
qed

lemma decode_symbols_Ok:
  "decode_symbols cs = Ok vs \<longleftrightarrow> map char_to_value cs = map Some vs"
  by (induction cs arbitrary: vs) (auto simp: outcome_simps Cons_eq_map_conv)

lemma decode_symbols_no_panic: "decode_symbols cs \<noteq> Panic"
  by (induction cs) (auto simp: outcome_simps)

lemma encode_symbols_total:
  assumes "\<forall>v \<in> set vs. v < 32"
  shows "\<exists>cs. encode_symbols vs = Ok cs \<and> map char_to_value cs = map Some vs"
  using assms
proof (induction vs)
  case (Cons v vs)
  then show ?case using value_to_char_less [of v] by (auto intro: exI [of _ "_ # _"])
qed simp

lemma decoded_symbols_encode:
  "map char_to_value cs = map Some vs \<Longrightarrow> encode_symbols vs = Ok cs"
  by (induction cs arbitrary: vs) (auto simp: Cons_eq_map_conv char_to_value_Some(1))


section \<open>Strings of the decoder\<close>

definition printable :: "char \<Rightarrow> bool" where
  "printable c \<longleftrightarrow> 33 \<le> (of_char c :: nat) \<and> (of_char c :: nat) \<le> 126"

lemma scan_case_eq:
  "scan_case cs l u =
    (if list_all printable cs
     then Ok (l \<or> list_ex is_ascii_lowercase cs, u \<or> list_ex is_ascii_uppercase cs)
     else Err NonPrintable)"
  by (induction cs arbitrary: l u) (auto simp: printable_def)

lemma of_char_lower:
  "is_ascii_uppercase c \<Longrightarrow> (of_char (char_of ((of_char c :: nat) + 32)) :: nat) = of_char c + 32"
  by (simp add: is_ascii_uppercase_def)

lemma lowercase_chars:
  assumes "list_all printable s"
  shows "list_all printable (to_ascii_lowercase s)"
    and "\<not> list_ex is_ascii_uppercase (to_ascii_lowercase s)"
proof -
  have "printable (char_of ((of_char c :: nat) + 32))" if "is_ascii_uppercase c" for c
    using that of_char_lower [OF that] by (auto simp: printable_def is_ascii_uppercase_def)
  then show "list_all printable (to_ascii_lowercase s)"
    using assms by (auto simp: to_ascii_lowercase_def list_all_iff)
  have "\<not> is_ascii_uppercase (char_of ((of_char c :: nat) + 32))" if "is_ascii_uppercase c" for c
    using that of_char_lower [OF that] unfolding is_ascii_uppercase_def by simp
  then show "\<not> list_ex is_ascii_uppercase (to_ascii_lowercase s)"
    by (auto simp: to_ascii_lowercase_def list_ex_iff)
qed

lemma lowercase_id: "\<not> list_ex is_ascii_uppercase s \<Longrightarrow> to_ascii_lowercase s = s"
  by (auto simp: to_ascii_lowercase_def list_ex_iff intro: map_idI)

lemma rfind_None: "rfind c s = None \<longleftrightarrow> c \<notin> set s"
  by (induction s) (auto split: option.splits)

lemma rfind_append: "c \<notin> set t \<Longrightarrow> rfind c (h @ c # t) = Some (length h)"
  by (induction h) (auto simp: rfind_None split: option.splits)

lemma rfind_SomeD:
  assumes "rfind c s = Some i"
  shows "\<exists>h t. s = h @ c # t \<and> length h = i \<and> c \<notin> set t"
  using assms
proof (induction s arbitrary: i)
  case (Cons x s)
  show ?case
  proof (cases "rfind c s")
    case None
    then have "c \<notin> set s" by (simp add: rfind_None)
    then show ?thesis using None Cons.prems
      by (intro exI [of _ "[]"] exI [of _ s]) (simp split: if_splits)
  next
    case (Some j)
    then obtain h t where "s = h @ c # t" "length h = j" "c \<notin> set t"
      using Cons.IH by blast
    then show ?thesis using Some Cons.prems
      by (intro exI [of _ "x # h"] exI [of _ t]) simp
  qed
qed simp

section \<open>Round trips\<close>

lemma encoded_shape:
  assumes "bech32_encode hrp payload = Ok s"
  shows "\<exists>data cs k. hrp \<noteq> [] \<and> list_all printable hrp \<and>
    s = to_ascii_lowercase hrp @ CHR ''1'' # cs \<and> k < 5 \<and> (\<forall>v \<in> set data. v < 32) \<and>
    groups 5 data = groups 8 payload @ replicate k False \<and>
    encode_symbols (data @ create_checksum (to_ascii_lowercase hrp) data) = Ok cs"
proof -
  obtain data k where d: "convert_bits payload 8 5 True = Ok data" "k < 5"
      "\<forall>v \<in> set data. group_fits 5 v" "groups 5 data = groups 8 payload @ replicate k False"
    using convert_bits_pad [of 5 8 payload] by auto
  have p: "hrp \<noteq> []" "list_all printable hrp"
    using assms by (auto simp: bech32_encode_def printable_def list_all_iff split: if_splits)
  then have "\<exists>cs. encode_symbols (data @ create_checksum (to_ascii_lowercase hrp) data) = Ok cs \<and>
      s = to_ascii_lowercase hrp @ CHR ''1'' # cs"
    using assms d(1)
    by (auto simp: bech32_encode_def outcome_simps Let_def list_all_iff printable_def
             split: if_splits)
  then show ?thesis using p d by (auto simp: group_fits_5 intro!: exI [of _ data])
qed

lemma create_checksum_less: "v \<in> set (create_checksum hrp data) \<Longrightarrow> v < 32"
proof -
  have "ucast (x AND 31) < (32 :: u8)" for x :: u32
  proof -
    have m: "(31 :: u32) = mask 5" by (simp add: mask_eq_exp_minus_1)
    have "group_fits 5 (ucast (x AND 31))"
      unfolding m group_fits_def bit_ucast_iff bit_and_iff bit_mask_iff by blast
    then show ?thesis by (simp only: group_fits_5)
  qed
  then show "v \<in> set (create_checksum hrp data) \<Longrightarrow> v < 32"
    by (auto simp: create_checksum_def Let_def)
qed

lemma length_create_checksum [simp]: "length (create_checksum hrp data) = 6"
  by (simp add: create_checksum_def Let_def)

lemma bech32_decode_built:
  assumes "hrp \<noteq> []" "list_all printable hrp" "\<not> list_ex is_ascii_uppercase hrp"
    and cs: "map char_to_value cs = map Some (data @ chk)" "length chk = 6"
    and "verify_checksum hrp (data @ chk)" "convert_bits data 5 8 False = Ok payload"
  shows "bech32_decode (hrp @ CHR ''1'' # cs) = Ok (hrp, payload)"
proof -
  have c: "\<exists>v. char_to_value c = Some v" if "c \<in> set cs" for c
  proof -
    have "char_to_value c \<in> set (map char_to_value cs)" using that by simp
    then show ?thesis unfolding cs(1) by auto
  qed
  have len: "length cs = length data + 6" using arg_cong [OF cs(1), of length] cs(2) by simp
  have "\<forall>c \<in> set cs. c \<noteq> CHR ''1'' \<and> printable c \<and> \<not> is_ascii_uppercase c"
  proof
    fix c assume "c \<in> set cs"
    then obtain v where "char_to_value c = Some v" using c by blast
    from char_to_value_Some [OF this]
    show "c \<noteq> CHR ''1'' \<and> printable c \<and> \<not> is_ascii_uppercase c" by (simp add: printable_def)
  qed
  then have all: "list_all printable (hrp @ CHR ''1'' # cs)"
      "\<not> list_ex is_ascii_uppercase (hrp @ CHR ''1'' # cs)" "CHR ''1'' \<notin> set cs"
    using assms(2,3)
    by (auto simp: list_all_iff list_ex_iff printable_def is_ascii_uppercase_def)
  have "decode_symbols cs = Ok (data @ chk)" using cs(1) by (simp add: decode_symbols_Ok)
  then show ?thesis
    using assms(1,6,7) all cs(2) len
    by (simp add: bech32_decode_def scan_case_eq lowercase_id rfind_append sub_n_def slice_def
          slice_from_def Let_def)
qed

lemma bech32_decode_encode:
  assumes "bech32_encode hrp payload = Ok s"
  shows "bech32_decode s = Ok (to_ascii_lowercase hrp, payload)"
proof -
  obtain data cs k where e: "hrp \<noteq> []" "list_all printable hrp" "k < 5"
      "s = to_ascii_lowercase hrp @ CHR ''1'' # cs" "\<forall>v \<in> set data. v < 32"
      "groups 5 data = groups 8 payload @ replicate k False"
      "encode_symbols (data @ create_checksum (to_ascii_lowercase hrp) data) = Ok cs"
    using encoded_shape [OF assms] by blast
  have "convert_bits data 5 8 False = Ok payload"
    using e(3,5,6) convert_bits_no_pad [of 8 5 data payload] by (auto simp: group_fits_5)
  moreover have "map char_to_value cs = map Some (data @ create_checksum (to_ascii_lowercase hrp) data)"
    using encode_symbols_total [of "data @ create_checksum (to_ascii_lowercase hrp) data"] e(5,7)
    by (auto dest: create_checksum_less)
  moreover have "to_ascii_lowercase hrp \<noteq> []" using e(1) by (simp add: to_ascii_lowercase_def)
  ultimately show ?thesis
    unfolding e(4) using lowercase_chars [OF e(2)]
    by (intro bech32_decode_built) (auto simp: verify_create_checksum)
qed


text \<open>
  C31: decoding an encoded key gives back the human-readable prefix, in lower case, and
  the payload, for every prefix and payload the encoder accepts.
\<close>

theorem bech32_roundtrip:
  assumes "bech32_encode hrp payload = Ok s"
  shows "bech32_decode s = Ok (to_ascii_lowercase hrp, payload)"
  using assms by (rule bech32_decode_encode)

lemma example_checksum: "create_checksum ''a'' [1, 28] = [11, 15, 6, 22, 23, 18]"
  by (simp add: create_checksum_def polymod_def hrp_expand_def as_bytes_def char_byte_def
        polymod_step_eq poly_shift_def upt_conv_Cons)

lemma example_encode: "bech32_encode ''A'' [15] = Ok ''a1put0xkhj''"
proof -
  have "convert_bits [15] 8 5 True = Ok [1, 28]" by code_simp
  moreover have "to_ascii_lowercase ''A'' = ''a''" by code_simp
  moreover have "encode_symbols [1, 28, 11, 15, 6, 22, 23, 18] = Ok ''put0xkhj''" by code_simp
  ultimately show ?thesis by (simp add: bech32_encode_def example_checksum del: encode_symbols.simps)
qed

theorem bech32_roundtrip_witness:
  "bech32_encode ''A'' [15] = Ok ''a1put0xkhj'' \<and> bech32_decode ''a1put0xkhj'' = Ok (''a'', [15])"
proof -
  have "to_ascii_lowercase ''A'' = ''a''" by code_simp
  then show ?thesis using bech32_roundtrip [OF example_encode] example_encode by simp
qed

text \<open>What a successful decode says about the string.\<close>

lemma bech32_decode_OkD:
  assumes "bech32_decode addr = Ok (hrp, payload)"
  shows "\<exists>data chk cs. to_ascii_lowercase addr = hrp @ CHR ''1'' # cs \<and> hrp \<noteq> [] \<and>
    list_all printable addr \<and> map char_to_value cs = map Some (data @ chk) \<and> length chk = 6 \<and>
    verify_checksum hrp (data @ chk) \<and> convert_bits data 5 8 False = Ok payload"
proof -
  let ?s = "to_ascii_lowercase addr"
  from assms obtain pos where p: "list_all printable addr" "rfind (CHR ''1'') ?s = Some pos" "pos \<noteq> 0"
    and rest: "and_then (sub_n (length ?s) (pos + 1)) (\<lambda>rest.
     if rest < 6 then Err ChecksumTooShort
     else and_then (slice 0 pos ?s) (\<lambda>hrp.
     and_then (slice_from (pos + 1) ?s) (\<lambda>symbols.
     and_then (decode_symbols symbols) (\<lambda>data.
     if \<not> verify_checksum hrp data then Err ChecksumFailed
     else and_then (sub_n (length data) 6) (\<lambda>n.
     and_then (slice 0 n data) (\<lambda>payload5.
     and_then (convert_bits payload5 5 8 False) (\<lambda>payload. Ok (hrp, payload)))))))) = Ok (hrp, payload)"
    unfolding bech32_decode_def by (auto simp: scan_case_eq outcome_simps Let_def split: if_splits)
  obtain h t where s: "?s = h @ CHR ''1'' # t" "length h = pos"
    using rfind_SomeD [OF p(2)] by blast
  from rest obtain data where d: "h = hrp" "decode_symbols t = Ok data" "verify_checksum hrp data"
      "6 \<le> length data" "convert_bits (take (length data - 6) data) 5 8 False = Ok payload"
    unfolding s(1) using s(2)
    by (auto simp: and_then_eq_Ok slice_def slice_from_def sub_n_def split: if_splits)
  have "map char_to_value t = map Some (take (length data - 6) data @ drop (length data - 6) data)"
    using d(2) by (simp add: decode_symbols_Ok)
  moreover have "hrp \<noteq> []" using p(3) s(2) d(1) by auto
  ultimately show ?thesis using s p(1) d(1,3-5)
    by (intro exI [of _ "take (length data - 6) data"] exI [of _ "drop (length data - 6) data"]
          exI [of _ t]) auto
qed

text \<open>
  C32: decoding accepts one spelling only: a decoded string is, in lower case, the
  encoding of the prefix and payload it decodes to, so two strings with the same
  decoding differ in letter case at most.
\<close>

theorem bech32_decode_canonical:
  assumes "bech32_decode addr = Ok (hrp, payload)"
  shows "bech32_encode hrp payload = Ok (to_ascii_lowercase addr)"
proof -
  obtain data chk cs where d: "to_ascii_lowercase addr = hrp @ CHR ''1'' # cs" "hrp \<noteq> []"
      "list_all printable addr" "map char_to_value cs = map Some (data @ chk)" "length chk = 6"
      "verify_checksum hrp (data @ chk)" "convert_bits data 5 8 False = Ok payload"
    using bech32_decode_OkD [OF assms] by blast
  have small: "v < 32" if "v \<in> set (data @ chk)" for v
  proof -
    have "Some v \<in> set (map char_to_value cs)" unfolding d(4) using that by auto
    then show ?thesis using char_to_value_Some(2) by (metis imageE list.set_map)
  qed
  have hrp: "list_all printable hrp" "to_ascii_lowercase hrp = hrp"
    using lowercase_chars [OF d(3)] unfolding d(1) by (auto intro: lowercase_id)
  obtain k where k: "k < 5" "groups 5 data = groups 8 payload @ replicate k False"
    using d(7) convert_bits_no_pad [of 8 5 data payload] small by (auto simp: group_fits_5)
  obtain out k' where o: "convert_bits payload 8 5 True = Ok out" "k' < 5"
      "\<forall>v \<in> set out. group_fits 5 v" "groups 5 out = groups 8 payload @ replicate k' False"
    using convert_bits_pad [of 5 8 payload] by auto
  have len: "5 * length data = 8 * length payload + k" "5 * length out = 8 * length payload + k'"
    by (metis k(2) length_append length_groups length_replicate)
       (metis o(4) length_append length_groups length_replicate)
  have "\<not> length data < length out" "\<not> length out < length data"
    using len k(1) o(2) by linarith+
  with len have "length data = length out" "k = k'" by linarith+
  then have "out = data"
    using groups_inject [of out data 5] o(3,4) k(2) small by (auto simp: group_fits_5)
  moreover have "chk = create_checksum hrp data"
  proof (rule ccontr)
    assume "chk \<noteq> create_checksum hrp data"
    then have "\<not> verify_checksum hrp (data @ create_checksum hrp data @ [])"
      using d(5,6) small
      by (intro verify_checksum_burst [of chk]) (auto dest: create_checksum_less)
    then show False by (simp add: verify_create_checksum)
  qed
  ultimately have "encode_symbols (data @ create_checksum hrp data) = Ok cs"
      "convert_bits payload 8 5 True = Ok data"
    using decoded_symbols_encode [OF d(4)] o(1) by simp_all
  moreover have "list_all (\<lambda>c. 33 \<le> (of_char c :: nat) \<and> (of_char c :: nat) \<le> 126) hrp"
    using hrp(1) unfolding printable_def .
  ultimately show ?thesis
    unfolding bech32_encode_def d(1) using d(2) hrp(2) by (simp add: Let_def)
qed

theorem bech32_decode_canonical_witness:
  "bech32_decode ''A1PUT0XKHJ'' = Ok (''a'', [15]) \<and>
   bech32_encode ''a'' [15] = Ok ''a1put0xkhj''"
proof -
  have d: "bech32_decode ''A1PUT0XKHJ'' = Ok (''a'', [15])" by code_simp
  have "to_ascii_lowercase ''A1PUT0XKHJ'' = ''a1put0xkhj''" by code_simp
  then show ?thesis using d bech32_decode_canonical [OF d] by simp
qed

lemma convert_bits_no_panic: "convert_bits data f t pad \<noteq> Panic"
proof -
  have "convert_loop f t data acc bits out \<noteq> Panic" for acc bits out
    by (induction data arbitrary: acc bits out) (auto simp: Let_def split: prod.splits)
  then show ?thesis by (auto simp: convert_bits_def outcome_simps Let_def split: if_splits)
qed

lemma bech32_decode_never_panics: "bech32_decode addr \<noteq> Panic"
proof -
  have "length symbols = length (to_ascii_lowercase addr) - Suc pos"
    if "decode_symbols (drop (Suc pos) (to_ascii_lowercase addr)) = Ok symbols" for pos symbols
    using arg_cong [OF that [unfolded decode_symbols_Ok], of length] by simp
  moreover have "Suc pos \<le> length addr" if "rfind c (to_ascii_lowercase addr) = Some pos" for pos c
    using rfind_SomeD [OF that] by (metis Suc_leI length_append length_Cons length_to_ascii_lowercase less_add_Suc1 add_Suc_right)
  ultimately show ?thesis
    unfolding bech32_decode_def
    by (auto simp: outcome_simps scan_case_eq Let_def decode_symbols_no_panic
        convert_bits_no_panic slice_def slice_from_def sub_n_def split: if_splits prod.splits)
qed


section \<open>Error detection\<close>

lemma append_separator_unique:
  "h @ c # t = h' @ c # t' \<Longrightarrow> c \<notin> set t \<Longrightarrow> c \<notin> set t' \<Longrightarrow> h = h' \<and> t = t'"
  by (auto simp: append_eq_append_conv2 append_eq_Cons_conv Cons_eq_append_conv)

lemma map_char_to_value_inject:
  "map char_to_value cs = map Some vs \<Longrightarrow> map char_to_value cs' = map Some vs \<Longrightarrow> cs = cs'"
  by (metis decoded_symbols_encode res.inject(1))

lemma not_in_lowercase:
  assumes "CHR ''1'' \<notin> set s"
  shows "CHR ''1'' \<notin> set (to_ascii_lowercase s)"
proof -
  have no: "char_of ((of_char c :: nat) + 32) \<noteq> CHR ''1''" if u: "is_ascii_uppercase c" for c
  proof
    assume "char_of ((of_char c :: nat) + 32) = CHR ''1''"
    then have "(of_char c :: nat) + 32 = of_char CHR ''1''" using of_char_lower [OF u] by simp
    then show False using u by (simp add: is_ascii_uppercase_def)
  qed
  show ?thesis
  proof
    assume "CHR ''1'' \<in> set (to_ascii_lowercase s)"
    then obtain c where "c \<in> set s" "CHR ''1'' = (if is_ascii_uppercase c then char_of ((of_char c :: nat) + 32) else c)"
      unfolding to_ascii_lowercase_def set_map by blast
    then show False using no [of c] assms by (metis (full_types))
  qed
qed

lemma decoded_data_part:
  assumes "bech32_decode (h @ CHR ''1'' # t) = Ok r" "CHR ''1'' \<notin> set t"
  shows "\<exists>vs. map char_to_value (to_ascii_lowercase t) = map Some vs \<and>
    verify_checksum (to_ascii_lowercase h) vs"
proof -
  obtain hrp payload where r: "r = (hrp, payload)" by (cases r)
  obtain data chk cs where d: "to_ascii_lowercase (h @ CHR ''1'' # t) = hrp @ CHR ''1'' # cs"
      "map char_to_value cs = map Some (data @ chk)" "verify_checksum hrp (data @ chk)"
    using bech32_decode_OkD assms(1) unfolding r by blast
  have "CHR ''1'' \<notin> set cs"
  proof
    assume "CHR ''1'' \<in> set cs"
    then have "char_to_value CHR ''1'' \<in> set (map char_to_value cs)" by simp
    then obtain v where "char_to_value CHR ''1'' = Some v"
      unfolding d(2) set_map by (metis imageE)
    from char_to_value_Some(3) [OF this] show False by simp
  qed
  moreover have "to_ascii_lowercase (h @ CHR ''1'' # t) =
      to_ascii_lowercase h @ CHR ''1'' # to_ascii_lowercase t"
    by (simp add: to_ascii_lowercase_def is_ascii_uppercase_def)
  ultimately have "to_ascii_lowercase h = hrp" "to_ascii_lowercase t = cs"
    using append_separator_unique [OF _ not_in_lowercase [OF assms(2)]] d(1) by metis+
  then show ?thesis using d(2,3) by blast
qed

text \<open>
  C33: an error burst of up to six characters behind the separator is always noticed: of
  two strings that differ only there, in more than letter case, at most one decodes, and
  the other yields an error value.
\<close>

theorem bech32_burst_detected:
  assumes "bech32_decode (h @ CHR ''1'' # a @ b @ c) = Ok r"
    and "length b' = length b" "length b \<le> 6" "to_ascii_lowercase b' \<noteq> to_ascii_lowercase b"
    and "CHR ''1'' \<notin> set (a @ b @ c)" "CHR ''1'' \<notin> set b'"
  shows "\<exists>e. bech32_decode (h @ CHR ''1'' # a @ b' @ c) = Err e"
proof (cases "bech32_decode (h @ CHR ''1'' # a @ b' @ c)")
  case (Ok r')
  have app: "to_ascii_lowercase (x @ y @ z) =
      to_ascii_lowercase x @ to_ascii_lowercase y @ to_ascii_lowercase z" for x y z
    by (simp add: to_ascii_lowercase_def)
  obtain vs where vs: "map char_to_value (to_ascii_lowercase (a @ b @ c)) = map Some vs"
      "verify_checksum (to_ascii_lowercase h) vs"
    using decoded_data_part [OF assms(1)] assms(5) by blast
  obtain vs' where vs': "map char_to_value (to_ascii_lowercase (a @ b' @ c)) = map Some vs'"
      "verify_checksum (to_ascii_lowercase h) vs'"
    using decoded_data_part [OF Ok] assms(5,6) by auto
  obtain x y z where v: "vs = x @ y @ z" "map char_to_value (to_ascii_lowercase a) = map Some x"
      "map char_to_value (to_ascii_lowercase b) = map Some y"
      "map char_to_value (to_ascii_lowercase c) = map Some z"
    using vs(1) unfolding app by (auto simp: append_eq_map_conv map_eq_append_conv)
  obtain x' y' z' where v': "vs' = x' @ y' @ z'" "map char_to_value (to_ascii_lowercase a) = map Some x'"
      "map char_to_value (to_ascii_lowercase b') = map Some y'"
      "map char_to_value (to_ascii_lowercase c) = map Some z'"
    using vs'(1) unfolding app by (auto simp: append_eq_map_conv map_eq_append_conv)
  have same: "x' = x" "z' = z" using v v' by (auto simp: inj_map_eq_map)
  have "y \<noteq> y'" using v(3) v'(3) assms(4) map_char_to_value_inject by metis
  moreover have "length y = length y'" "length y \<le> 6"
    using arg_cong [OF v(3), of length] arg_cong [OF v'(3), of length] assms(2,3) by simp_all
  moreover have "\<forall>w \<in> set y \<union> set y'. w < 32"
    using v(3) v'(3) char_to_value_Some(2) by (auto simp: map_eq_conv) (metis imageE image_eqI list.set_map)+
  ultimately have "\<not> verify_checksum (to_ascii_lowercase h) (x @ y' @ z)"
    using verify_checksum_burst [of y y' "to_ascii_lowercase h" x z] vs(2) v(1) by simp
  then show ?thesis using vs'(2) v'(1) same by simp
next
  case Panic
  then show ?thesis using bech32_decode_never_panics by metis
qed simp


theorem bech32_burst_detected_witness:
  "bech32_decode ''a1put0xkhj'' = Ok (''a'', [15]) \<and>
   (\<exists>e. bech32_decode ''a1upt0xkhj'' = Err e)"
proof -
  have d: "bech32_decode (''a'' @ CHR ''1'' # [] @ ''pu'' @ ''t0xkhj'') = Ok (''a'', [15])"
    by code_simp
  have "\<exists>e. bech32_decode (''a'' @ CHR ''1'' # [] @ ''up'' @ ''t0xkhj'') = Err e"
    by (rule bech32_burst_detected [OF d]) (simp_all add: to_ascii_lowercase_def is_ascii_uppercase_def)
  then show ?thesis using d by simp
qed

end
