(* ===== verification/ApiKey.thy ===== *)
theory ApiKey
  imports Bech32 Errors
begin

text \<open>
  API keys: the payload layouts and packed limits of \<open>src/api_key_codec.rs\<close>, the
  authentication methods of \<open>src/config.rs\<close> and the validated \<open>ApiKey\<close> of
  \<open>src/api_key.rs\<close>.  The lemmas give the round trip through the encoder of the test
  module, the shape of every accepted key, the classification of errors, and freedom
  from panics on every input.
\<close>

section \<open>Limits\<close>

record api_key_limits =
  rate_buckets_max :: u32
  latency_services_max :: u32
  metrics_labels_max :: u32
  latency_buffer_size_max :: u32
  dedup_ttl_ms_max :: u32
  rate_window_size_ms_max :: u32

definition FORMAT_VERSION :: u8 where
  "FORMAT_VERSION = 1"

text \<open>
  \<open>1 << e\<close> with \<open>e\<close> a five-bit field: the shift amount is below 32, so it never panics.
\<close>

definition limits_from_payload :: "bytes \<Rightarrow> nat \<Rightarrow> (api_key_limits, decode_error) res" where
  "limits_from_payload payload offset =
    and_then (slice offset (offset + 4) payload) (\<lambda>bs.
    let word = (from_le bs :: u32);
        rate_exp = word AND 0x1f;
        latency_exp = drop_bit 5 word AND 0x1f;
        labels_exp = drop_bit 10 word AND 0x1f;
        buffer_exp = drop_bit 15 word AND 0x0f;
        dedup_units = drop_bit 19 word AND 0xff;
        window_exp = drop_bit 27 word AND 0x1f
    in if 24 < rate_exp \<or> 24 < latency_exp \<or> \<not> (1 \<le> dedup_units \<and> dedup_units \<le> 200)
       then Err InvalidPackedQuota
       else and_then (mul_w dedup_units 10) (\<lambda>dedup. Ok
         \<lparr>rate_buckets_max = push_bit (unat rate_exp) 1,
          latency_services_max = push_bit (unat latency_exp) 1,
          metrics_labels_max = push_bit (unat labels_exp) 1,
          latency_buffer_size_max = push_bit (unat buffer_exp) 1,
          dedup_ttl_ms_max = dedup,
          rate_window_size_ms_max =
            (if window_exp = 31 then 4294967295 else push_bit (unat window_exp) 1)\<rparr>))"

section \<open>Decoding the payload\<close>

record decoded_api_key =
  d_hrp :: string
  d_auth_method :: string
  d_format_version :: u8
  d_key_id :: u64
  d_auth_secret :: bytes
  d_limits :: "api_key_limits option"

definition decode_api_key :: "string \<Rightarrow> (decoded_api_key, decode_error) res" where
  "decode_api_key encoded =
    and_then (bech32_decode encoded) (\<lambda>(hrp, payload).
    and_then (ok_or InvalidHrpPrefix (strip_prefix ''rl-'' hrp)) (\<lambda>auth_method.
    if auth_method = ''secret'' then
      (if length payload \<noteq> 32 then Err (InvalidPayloadLength auth_method 32 (length payload))
       else Ok \<lparr>d_hrp = hrp, d_auth_method = ''secret'', d_format_version = 0, d_key_id = 0,
                d_auth_secret = payload, d_limits = None\<rparr>)
    else if auth_method = ''none'' then
      (if length payload \<noteq> 13 then Err (InvalidPayloadLength auth_method 13 (length payload))
       else and_then (at_index 0 payload) (\<lambda>version.
       if version \<noteq> FORMAT_VERSION then Err (UnsupportedFormatVersion version)
       else and_then (slice 1 9 payload) (\<lambda>id.
       and_then (limits_from_payload payload 9) (\<lambda>limits.
       Ok \<lparr>d_hrp = hrp, d_auth_method = ''none'', d_format_version = FORMAT_VERSION,
           d_key_id = from_le id, d_auth_secret = [], d_limits = Some limits\<rparr>))))
    else if auth_method = ''cookie'' \<or> auth_method = ''aes'' then
      (if length payload \<noteq> 45 then Err (InvalidPayloadLength auth_method 45 (length payload))
       else and_then (at_index 0 payload) (\<lambda>version.
       if version \<noteq> FORMAT_VERSION then Err (UnsupportedFormatVersion version)
       else and_then (slice 1 9 payload) (\<lambda>id.
       and_then (slice 9 41 payload) (\<lambda>secret.
       and_then (limits_from_payload payload 41) (\<lambda>limits.
       Ok \<lparr>d_hrp = hrp, d_auth_method = auth_method, d_format_version = FORMAT_VERSION,
           d_key_id = from_le id, d_auth_secret = secret, d_limits = Some limits\<rparr>)))))
    else Err (UnsupportedAuthMethod auth_method)))"

section \<open>Validated keys\<close>

datatype auth_method = AuthNone | Cookie bytes | AesGcm bytes

record api_key =
  ak_key_id :: u64
  ak_auth_method :: auth_method
  ak_limits :: api_key_limits

fun from_decode_error :: "decode_error \<Rightarrow> api_key_error" where
  "from_decode_error (UnsupportedFormatVersion v) = UnsupportedVersion"
| "from_decode_error (UnsupportedAuthMethod m) = UnsupportedCredential"
| "from_decode_error InvalidHrpPrefix = UnsupportedCredential"
| "from_decode_error InvalidPackedQuota = InvalidLimits"
| "from_decode_error e = InvalidEncoding"

text \<open>\<open><ApiKey as FromStr>::from_str\<close>.\<close>

definition api_key_from_str :: "string \<Rightarrow> (api_key, api_key_error) res" where
  "api_key_from_str encoded =
    and_then (map_err from_decode_error (decode_api_key encoded)) (\<lambda>decoded.
    and_then (ok_or UnsupportedCredential (d_limits decoded)) (\<lambda>limits.
    and_then
      (if d_auth_method decoded = ''none'' \<and> d_auth_secret decoded = [] then Ok AuthNone
       else if d_auth_method decoded = ''cookie'' \<and> length (d_auth_secret decoded) = 32
       then Ok (Cookie (d_auth_secret decoded))
       else if d_auth_method decoded = ''aes'' \<and> length (d_auth_secret decoded) = 32
       then Ok (AesGcm (d_auth_secret decoded))
       else Err UnsupportedCredential) (\<lambda>auth.
    Ok \<lparr>ak_key_id = d_key_id decoded, ak_auth_method = auth, ak_limits = limits\<rparr>)))"

text \<open>\<open><ApiKey as Debug>::fmt\<close>: the struct name and its printed fields.\<close>

definition api_key_debug :: "api_key \<Rightarrow> string \<times> (string \<times> fmt_arg) list" where
  "api_key_debug k =
    (''ApiKey'', [(''key_id'', NumArg (unat (ak_key_id k))), (''credential'', StrArg ''[REDACTED]'')])"

section \<open>The encoder of the test module\<close>

definition trailing_zeros :: "u32 \<Rightarrow> nat" where
  "trailing_zeros w = length (takeWhile (\<lambda>i. \<not> bit w i) [0..<32])"

definition quota_word :: "api_key_limits \<Rightarrow> u32" where
  "quota_word l =
    (let rate_exp = of_nat (trailing_zeros (rate_buckets_max l));
         latency_exp = of_nat (trailing_zeros (latency_services_max l));
         labels_exp = of_nat (trailing_zeros (metrics_labels_max l));
         buffer_exp = of_nat (trailing_zeros (latency_buffer_size_max l));
         window_exp = (if rate_window_size_ms_max l = 4294967295 then 31
                       else of_nat (trailing_zeros (rate_window_size_ms_max l)))
     in rate_exp OR push_bit 5 latency_exp OR push_bit 10 labels_exp OR push_bit 15 buffer_exp
        OR push_bit 19 (dedup_ttl_ms_max l div 10) OR push_bit 27 window_exp)"

definition encode_api_key ::
  "string \<Rightarrow> u64 \<Rightarrow> bytes \<Rightarrow> api_key_limits \<Rightarrow> (string, decode_error) res"
where
  "encode_api_key auth_method key_id auth_secret limits =
    and_then
      (if auth_method = ''none'' then Ok []
       else if auth_method = ''cookie'' \<or> auth_method = ''aes'' then Ok auth_secret
       else Panic) (\<lambda>secret.
    let payload = [FORMAT_VERSION] @ to_le 8 key_id @ secret @ to_le 4 (quota_word limits) in
    case bech32_encode (''rl-'' @ auth_method) payload of Ok s \<Rightarrow> Ok s | _ \<Rightarrow> Panic)"

section \<open>Limits: validity and the packed word\<close>

definition pow2_below :: "nat \<Rightarrow> u32 \<Rightarrow> bool" where
  "pow2_below n x \<longleftrightarrow> x \<in> set (map (\<lambda>k. push_bit k 1) [0..<n])"

text \<open>The limits a key can carry, field by field.\<close>

definition valid_limits :: "api_key_limits \<Rightarrow> bool" where
  "valid_limits l \<longleftrightarrow> pow2_below 25 (rate_buckets_max l) \<and> pow2_below 25 (latency_services_max l) \<and>
     pow2_below 32 (metrics_labels_max l) \<and> pow2_below 16 (latency_buffer_size_max l) \<and>
     unat (dedup_ttl_ms_max l) \<in> set (map (\<lambda>u. 10 * u) [1..<201]) \<and>
     (rate_window_size_ms_max l = 4294967295 \<or> pow2_below 31 (rate_window_size_ms_max l))"

lemma pow2_below_iff: "pow2_below n x \<longleftrightarrow> (\<exists>k<n. x = push_bit k 1)"
  by (auto simp: pow2_below_def)

lemma bit_pow2: "bit (push_bit k 1 :: u32) i \<longleftrightarrow> i = k \<and> i < 32"
  by (auto simp: bit_exp_iff)

lemma trailing_zeros_pow2: "k < 32 \<Longrightarrow> trailing_zeros (push_bit k 1) = k"
proof -
  assume k: "k < 32"
  then have "[0..<32] = [0..<k] @ k # [Suc k..<32]"
    using upt_add_eq_append [of 0 k "32 - k"] upt_conv_Cons [of k 32] by simp
  then have "takeWhile (\<lambda>i. \<not> bit (push_bit k 1 :: u32) i) [0..<32] = [0..<k]"
    using k by (simp only:) (subst takeWhile_append2, auto simp only: bit_pow2, auto simp: bit_pow2)
  then show ?thesis by (simp add: trailing_zeros_def)
qed

lemma fits_of_nat: "k < 2 ^ n \<Longrightarrow> n \<le> 32 \<Longrightarrow> fits n (of_nat k)"
  by (simp add: fits_take_bit take_bit_nat_eq_self flip: of_nat_take_bit)

lemma fits_and_mask: "fits n (x AND mask n)"
  by (auto simp: fits_def bit_simps)

lemma fits_bound: "fits n x \<Longrightarrow> unat x < 2 ^ n"
proof -
  assume "fits n x"
  then have "unat x = take_bit n (unat x)"
    by (metis fits_take_bit unsigned_take_bit_eq)
  then show ?thesis by (metis take_bit_nat_less_exp)
qed

lemma hex_masks: "(0x1f :: u32) = mask 5" "(0x0f :: u32) = mask 4" "(0xff :: u32) = mask 8"
  by (simp_all add: mask_eq_exp_minus_1)

lemma quota_fields:
  assumes "fits 5 a" "fits 5 b" "fits 5 c" "fits 4 d" "fits 8 e" "fits 5 f"
    and "w = a OR push_bit 5 b OR push_bit 10 c OR push_bit 15 d OR push_bit 19 e OR push_bit 27 f"
  shows "w AND 0x1f = a" "drop_bit 5 w AND 0x1f = b" "drop_bit 10 w AND 0x1f = c"
    "drop_bit 15 w AND 0x0f = d" "drop_bit 19 w AND 0xff = e" "drop_bit 27 w AND 0x1f = f"
proof -
  have bits: "bit w i \<longleftrightarrow> i < 32 \<and> (bit a i \<or> (5 \<le> i \<and> bit b (i - 5)) \<or> (10 \<le> i \<and> bit c (i - 10)) \<or>
     (15 \<le> i \<and> bit d (i - 15)) \<or> (19 \<le> i \<and> bit e (i - 19)) \<or> (27 \<le> i \<and> bit f (i - 27)))" for i
    unfolding assms(7) by (auto simp: bit_or_iff bit_push_bit_iff dest: bit_imp_le_length)
  have eqI: "x = y" if "\<And>i. i < 32 \<Longrightarrow> bit x i = bit y i" for x y :: u32
    using that by (intro bit_word_eqI) simp
  show "w AND 0x1f = a" "drop_bit 5 w AND 0x1f = b" "drop_bit 10 w AND 0x1f = c"
    "drop_bit 15 w AND 0x0f = d" "drop_bit 19 w AND 0xff = e" "drop_bit 27 w AND 0x1f = f"
    unfolding hex_masks
    by (rule eqI, use assms(1-6) in
        \<open>auto simp: bit_and_iff bit_mask_iff bits fits_def bit_drop_bit_eq\<close>)+
qed


lemma limits_from_payload_quota:
  assumes "valid_limits l"
  shows "limits_from_payload (pre @ to_le 4 (quota_word l)) (length pre) = Ok l"
proof -
  obtain r s n b where e: "r < 25" "s < 25" "n < 32" "b < 16"
      "rate_buckets_max l = push_bit r 1" "latency_services_max l = push_bit s 1"
      "metrics_labels_max l = push_bit n 1" "latency_buffer_size_max l = push_bit b 1"
    using assms unfolding valid_limits_def pow2_below_iff by blast
  obtain u where u: "unat (dedup_ttl_ms_max l) = 10 * u" "1 \<le> u" "u \<le> 200"
    using assms by (auto simp: valid_limits_def)
  obtain w where w: "w < 32" "(if rate_window_size_ms_max l = 4294967295 then 31
       else of_nat (trailing_zeros (rate_window_size_ms_max l))) = (of_nat w :: u32)"
      "rate_window_size_ms_max l = (if w = 31 then 4294967295 else push_bit w 1)"
  proof (cases "rate_window_size_ms_max l = 4294967295")
    case True
    then show ?thesis using that [of 31] by simp
  next
    case False
    then obtain k where "k < 31" "rate_window_size_ms_max l = push_bit k 1"
      using assms by (auto simp: valid_limits_def pow2_below_iff)
    then show ?thesis using that [of k] False trailing_zeros_pow2 [of k] by simp
  qed
  have small: "unat (of_nat k :: u32) = k" if "k \<le> 200" for k
    using that by (simp add: unat_of_nat)
  have ded: "dedup_ttl_ms_max l div 10 = of_nat u" "mul_w (of_nat u) 10 = (Ok (dedup_ttl_ms_max l) :: (u32, decode_error) res)"
    using u small [of u] by (simp_all add: word_unat_eq_iff unat_div mul_w_def unat_mul_no_overflow)
  have q: "quota_word l = of_nat r OR push_bit 5 (of_nat s) OR push_bit 10 (of_nat n)
      OR push_bit 15 (of_nat b) OR push_bit 19 (of_nat u) OR push_bit 27 (of_nat w)"
    unfolding quota_word_def Let_def w(2) ded(1) e(5-8) using e(1-4)
    by (simp add: trailing_zeros_pow2 [simplified])
  have f: "fits 5 (of_nat r)" "fits 5 (of_nat s)" "fits 5 (of_nat n)" "fits 4 (of_nat b)"
      "fits 8 (of_nat u)" "fits 5 (of_nat w)"
    using e(1-4) u w(1) by (intro fits_of_nat; simp)+
  have "\<not> 24 < (of_nat r :: u32)" "\<not> 24 < (of_nat s :: u32)" "1 \<le> (of_nat u :: u32)"
      "(of_nat u :: u32) \<le> 200" "(of_nat w :: u32) = 31 \<longleftrightarrow> w = 31"
    using e(1,2) u w(1) small [of r] small [of s] small [of u] small [of w]
    by (auto simp: word_less_nat_alt word_le_nat_alt word_unat_eq_iff)
  then show ?thesis
    using e w(1,3) small [of r] small [of s] small [of n] small [of b] small [of w] ded(2)
    by (auto simp: limits_from_payload_def slice_def quota_fields [OF f q] Let_def
             intro!: api_key_limits.equality)
qed

lemma limits_from_payload_valid:
  assumes "limits_from_payload p off = Ok l"
  shows "valid_limits l"
proof -
  have exp: "pow2_below n (2 ^ unat x)" if "unat x < n" for n and x :: u32
    using that by (auto simp: pow2_below_iff)
  have bnd: "unat (x AND 0x1f) < 32" "unat (x AND 0x0f) < 16" for x :: u32
    unfolding hex_masks using fits_bound [OF fits_and_mask [of 5 x]] fits_bound [OF fits_and_mask [of 4 x]]
    by simp_all
  have neq: "unat x < 31" if "x \<noteq> 31" "unat x < 32" for x :: u32
  proof -
    have "unat x \<noteq> 31" using that(1) by (simp add: word_unat_eq_iff)
    then show ?thesis using that(2) by linarith
  qed
  show ?thesis
    using assms bnd
    by (auto simp: limits_from_payload_def valid_limits_def outcome_simps Let_def mul_w_def
        not_less word_le_nat_alt unat_mul_no_overflow intro!: exp neq image_eqI
        split: if_splits)
qed

lemma limits_from_payload_no_panic:
  "off + 4 \<le> length p \<Longrightarrow> limits_from_payload p off \<noteq> Panic"
  by (auto simp: limits_from_payload_def outcome_simps Let_def mul_w_def word_le_nat_alt)


section \<open>Keys: round trip, shape, errors\<close>

lemma bech32_encode_total:
  assumes "hrp \<noteq> []" "list_all printable hrp"
  shows "\<exists>s. bech32_encode hrp payload = Ok s"
proof -
  obtain data where d: "convert_bits payload 8 5 True = Ok data" "\<forall>v \<in> set data. group_fits 5 v"
    using convert_bits_pad [of 5 8 payload] by auto
  have "v < 32" if "v \<in> set (data @ create_checksum (to_ascii_lowercase hrp) data)" for v
    using that d(2) create_checksum_less [of v] by (auto simp: group_fits_5)
  then obtain cs where "encode_symbols (data @ create_checksum (to_ascii_lowercase hrp) data) = Ok cs"
    using encode_symbols_total [of "data @ create_checksum (to_ascii_lowercase hrp) data"] by blast
  moreover have "list_all (\<lambda>c. 33 \<le> (of_char c :: nat) \<and> (of_char c :: nat) \<le> 126) hrp"
    using assms(2) unfolding printable_def .
  ultimately show ?thesis using assms(1) d(1) by (simp add: bech32_encode_def Let_def)
qed

definition auth_of :: "string \<Rightarrow> bytes \<Rightarrow> auth_method" where
  "auth_of m secret =
    (if m = ''none'' then AuthNone else if m = ''cookie'' then Cookie secret else AesGcm secret)"

definition credential_ok :: "string \<Rightarrow> bytes \<Rightarrow> bool" where
  "credential_ok m secret \<longleftrightarrow>
     m = ''none'' \<and> secret = [] \<or> m \<in> set [''cookie'', ''aes''] \<and> length secret = 32"

lemma credential_hrp:
  assumes "credential_ok m secret"
  shows "to_ascii_lowercase (''rl-'' @ m) = ''rl-'' @ m" "list_all printable (''rl-'' @ m)"
proof -
  have "\<forall>m \<in> set [''none'', ''cookie'', ''aes'']. to_ascii_lowercase (''rl-'' @ m) = ''rl-'' @ m \<and>
      list_all printable (''rl-'' @ m)"
    by code_simp
  then show "to_ascii_lowercase (''rl-'' @ m) = ''rl-'' @ m" "list_all printable (''rl-'' @ m)"
    using assms by (auto simp: credential_ok_def)
qed

lemma decode_encoded_payload:
  assumes "credential_ok m secret" "valid_limits l"
    and "bech32_decode s = Ok (''rl-'' @ m, [FORMAT_VERSION] @ to_le 8 kid @ secret @ to_le 4 (quota_word l))"
  shows "decode_api_key s = Ok \<lparr>d_hrp = ''rl-'' @ m, d_auth_method = m,
     d_format_version = FORMAT_VERSION, d_key_id = kid, d_auth_secret = secret, d_limits = Some l\<rparr>"
proof -
  define payload where "payload = [FORMAT_VERSION] @ to_le 8 kid @ secret @ to_le 4 (quota_word l)"
  have len: "length payload = 13 + length secret" by (simp add: payload_def)
  have "limits_from_payload payload (9 + length secret) = Ok l"
    using limits_from_payload_quota [OF assms(2), of "[FORMAT_VERSION] @ to_le 8 kid @ secret"]
    by (simp add: payload_def)
  moreover have "slice 1 9 payload = (Ok (to_le 8 kid) :: (bytes, decode_error) res)"
      "slice 9 (9 + length secret) payload = (Ok secret :: (bytes, decode_error) res)"
      "at_index 0 payload = (Ok FORMAT_VERSION :: (u8, decode_error) res)"
    by (simp_all add: slice_def at_index_def len) (simp_all add: payload_def)
  moreover have "strip_prefix ''rl-'' (''rl-'' @ m) = Some m" by (simp add: strip_prefix_eq_Some)
  ultimately show ?thesis
    using assms(1,3) len unfolding payload_def [symmetric]
    by (auto simp: decode_api_key_def credential_ok_def)
qed

section \<open>A key of the test suite\<close>

text \<open>The vector of \<open>public_constructor_accepts_canonical_key_identity\<close>.\<close>

definition sample_key_limits :: api_key_limits where
  "sample_key_limits = \<lparr>rate_buckets_max = 65536, latency_services_max = 1024,
     metrics_labels_max = 4096, latency_buffer_size_max = 32, dedup_ttl_ms_max = 300,
     rate_window_size_ms_max = 4294967295\<rparr>"

lemma sample_limits: "limits_from_payload [1,8,7,6,5,4,3,2,1,80,177,242,248] 9 = Ok sample_key_limits"
  by (simp add: limits_from_payload_def slice_def mul_w_def sample_key_limits_def Let_def)

lemma sample_limits_valid: "valid_limits sample_key_limits"
  by (rule limits_from_payload_valid [OF sample_limits])

lemma sample_checksum: "verify_checksum ''rl-none''
  [0, 4, 4, 0, 14, 1, 16, 5, 0, 16, 1, 16, 4, 0, 10, 16, 22, 7, 25, 15, 16, 9, 13, 1, 17, 4, 16]"
proof -
  have h: "hrp_expand ''rl-none'' = [3, 3, 1, 3, 3, 3, 3, 0, 18, 12, 13, 14, 15, 14, 5]" by code_simp
  have a: "foldl polymod_step 1 [3, 3, 1, 3, 3, 3, 3, 0, 18, 12, 13, 14, 15, 14, 5] = 776886656"
    by code_simp
  have b: "foldl polymod_step 776886656 [0, 4, 4, 0, 14, 1, 16, 5, 0, 16, 1, 16, 4] = 623703319"
    by code_simp
  have c: "foldl polymod_step 623703319 [0, 10, 16, 22, 7, 25, 15, 16, 9, 13, 1, 17, 4, 16] = 1"
    by code_simp
  have d: "[0, 4, 4, 0, 14, 1, 16, 5, 0, 16, 1, 16, 4, 0, 10, 16, 22, 7, 25, 15, 16, 9, 13, 1, 17, 4, 16] =
      [0, 4, 4, 0, 14, 1, 16, 5, 0, 16, 1, 16, 4] @ [0, 10, 16, 22, 7, 25, 15, 16, 9, 13, 1, 17, 4, 16 :: u8]"
    by simp
  show ?thesis
    unfolding verify_checksum_def polymod_def h d foldl_append a b c by (rule refl)
qed

lemma sample_key_bech32:
  "bech32_decode ''rl-none1qyyqwps9qspsyq2sk8e0sfdp3ys'' = Ok (''rl-none'', [1,8,7,6,5,4,3,2,1,80,177,242,248])"
proof -
  let ?s = "''rl-none1qyyqwps9qspsyq2sk8e0sfdp3ys''"
  let ?data = "[0, 4, 4, 0, 14, 1, 16, 5, 0, 16, 1, 16, 4, 0, 10, 16, 22, 7, 25, 15, 16, 9, 13, 1, 17, 4, 16]"
  have scan: "scan_case ?s False False = Ok (True, False)" by code_simp
  have lower: "to_ascii_lowercase ?s = ?s" by code_simp
  have sep: "rfind (CHR ''1'') ?s = Some 7" by code_simp
  have parts: "sub_n (length ?s) (7 + 1) = (Ok 27 :: (nat, decode_error) res)"
      "slice 0 7 ?s = (Ok ''rl-none'' :: (string, decode_error) res)"
      "slice_from (7 + 1) ?s = (Ok ''qyyqwps9qspsyq2sk8e0sfdp3ys'' :: (string, decode_error) res)"
    by code_simp+
  have data: "decode_symbols ''qyyqwps9qspsyq2sk8e0sfdp3ys'' = Ok ?data" by code_simp
  have n: "sub_n (length ?data) 6 = (Ok 21 :: (nat, decode_error) res)"
      "slice 0 21 ?data = (Ok [0, 4, 4, 0, 14, 1, 16, 5, 0, 16, 1, 16, 4, 0, 10, 16, 22, 7, 25, 15, 16] :: (bytes, decode_error) res)"
    by code_simp+
  have out: "convert_bits [0, 4, 4, 0, 14, 1, 16, 5, 0, 16, 1, 16, 4, 0, 10, 16, 22, 7, 25, 15, 16] 5 8 False =
      Ok [1,8,7,6,5,4,3,2,1,80,177,242,248]"
    by code_simp
  have "?s \<noteq> []" by simp
  then show ?thesis
    unfolding bech32_decode_def
    by (simp only: scan lower sep parts data n out sample_checksum Let_def and_then.simps ok_or.simps
        prod.case if_False not_True_eq_False simp_thms) simp
qed

lemma sample_key_decodes:
  "decode_api_key ''rl-none1qyyqwps9qspsyq2sk8e0sfdp3ys'' = Ok
    \<lparr>d_hrp = ''rl-none'', d_auth_method = ''none'', d_format_version = 1,
     d_key_id = 0x0102030405060708, d_auth_secret = [], d_limits = Some sample_key_limits\<rparr>"
  unfolding decode_api_key_def sample_key_bech32
  by (simp add: sample_limits FORMAT_VERSION_def at_index_def slice_def)

lemma encoded_key_decodes:
  assumes "credential_ok m secret" "valid_limits l"
  shows "\<exists>s. encode_api_key m kid secret l = Ok s \<and>
    decode_api_key s = Ok \<lparr>d_hrp = ''rl-'' @ m, d_auth_method = m, d_format_version = FORMAT_VERSION,
      d_key_id = kid, d_auth_secret = secret, d_limits = Some l\<rparr>"
proof -
  let ?payload = "[FORMAT_VERSION] @ to_le 8 kid @ secret @ to_le 4 (quota_word l)"
  obtain s where s: "bech32_encode (''rl-'' @ m) ?payload = Ok s"
    using bech32_encode_total credential_hrp(2) [OF assms(1)] by blast
  have e: "encode_api_key m kid secret l = Ok s"
    using assms(1) s by (auto simp: encode_api_key_def credential_ok_def Let_def)
  have "bech32_decode s = Ok (''rl-'' @ m, ?payload)"
    using bech32_decode_encode [OF s] credential_hrp(1) [OF assms(1)] by simp
  with e show ?thesis using decode_encoded_payload [OF assms] by blast
qed

section \<open>Properties\<close>

text \<open>
  C18: a key built from any identifier, credential and valid limits parses back to exactly
  these, through the checksum, the bit regrouping, the packed quota word and the
  credential check.
\<close>

theorem api_key_roundtrip:
  assumes "credential_ok m secret" "valid_limits l"
  shows "\<exists>s. encode_api_key m kid secret l = Ok s \<and>
    api_key_from_str s = Ok \<lparr>ak_key_id = kid, ak_auth_method = auth_of m secret, ak_limits = l\<rparr>"
proof -
  obtain s where s: "encode_api_key m kid secret l = Ok s"
    "decode_api_key s = Ok \<lparr>d_hrp = ''rl-'' @ m, d_auth_method = m, d_format_version = FORMAT_VERSION,
       d_key_id = kid, d_auth_secret = secret, d_limits = Some l\<rparr>"
    using encoded_key_decodes [OF assms] by blast
  then have "api_key_from_str s = Ok \<lparr>ak_key_id = kid, ak_auth_method = auth_of m secret, ak_limits = l\<rparr>"
    using assms(1) by (auto simp: api_key_from_str_def credential_ok_def auth_of_def)
  with s(1) show ?thesis by blast
qed

theorem api_key_roundtrip_witness:
  "\<exists>s. encode_api_key ''none'' 5 [] sample_key_limits = Ok s \<and> api_key_from_str s =
    Ok \<lparr>ak_key_id = 5, ak_auth_method = AuthNone, ak_limits = sample_key_limits\<rparr>"
proof -
  have "credential_ok ''none'' []" "auth_of ''none'' [] = AuthNone" by (simp_all add: credential_ok_def auth_of_def)
  then show ?thesis using api_key_roundtrip [OF _ sample_limits_valid, of "''none''" "[]" 5] by simp
qed

definition wf_api_key :: "api_key \<Rightarrow> bool" where
  "wf_api_key k \<longleftrightarrow> valid_limits (ak_limits k) \<and>
    (case ak_auth_method k of AuthNone \<Rightarrow> True
     | Cookie secret \<Rightarrow> length secret = 32 | AesGcm secret \<Rightarrow> length secret = 32)"

lemma decode_api_key_OkD:
  assumes "decode_api_key s = Ok d"
  shows "(d_auth_method d = ''secret'' \<and> d_limits d = None) \<or>
    (credential_ok (d_auth_method d) (d_auth_secret d) \<and> (\<exists>l. d_limits d = Some l \<and> valid_limits l))"
proof -
  obtain hrp p m where m: "bech32_decode s = Ok (hrp, p)" "strip_prefix ''rl-'' hrp = Some m"
    using assms by (auto simp: decode_api_key_def outcome_simps)
  note body = assms [unfolded decode_api_key_def m and_then.simps prod.case ok_or.simps]
  consider "m = ''secret''" | "m = ''none''" | "m = ''cookie''" | "m = ''aes''"
    using body by (auto split: if_splits)
  then show ?thesis
  proof cases
    case 1
    then show ?thesis using body by (simp split: if_splits) auto
  next
    case 2
    then show ?thesis using body
      by (simp add: outcome_simps credential_ok_def split: if_splits)
        (elim exE conjE, hypsubst, simp add: limits_from_payload_valid)
  next
    case 3
    then show ?thesis using body
      by (simp add: outcome_simps credential_ok_def slice_def split: if_splits)
        (elim exE conjE, hypsubst, simp add: limits_from_payload_valid)
  next
    case 4
    then show ?thesis using body
      by (simp add: outcome_simps credential_ok_def slice_def split: if_splits)
        (elim exE conjE, hypsubst, simp add: limits_from_payload_valid)
  qed
qed

lemma decode_api_key_never_panics: "decode_api_key s \<noteq> Panic"
  unfolding decode_api_key_def
  by (auto simp: outcome_simps bech32_decode_never_panics slice_def at_index_def
      limits_from_payload_no_panic split: if_splits prod.splits)

text \<open>
  C34: parsing never panics on any text, and a key it accepts carries limits within the
  documented ranges and, for the secret-bearing methods, a secret of exactly 32 bytes.
\<close>

theorem api_key_from_str_sound:
  "case api_key_from_str s of Ok k \<Rightarrow> wf_api_key k | Err e \<Rightarrow> True | Panic \<Rightarrow> False"
proof (cases "decode_api_key s")
  case (Ok d)
  then show ?thesis using decode_api_key_OkD [OF Ok]
    by (auto simp: api_key_from_str_def credential_ok_def wf_api_key_def split: option.splits)
next
  case Panic
  then show ?thesis using decode_api_key_never_panics by blast
qed (simp add: api_key_from_str_def)

text \<open>
  Every text that decodes is accepted as a key, except the \<open>rl-secret\<close> credential,
  which is rejected as unsupported: the catch-all arm of the credential match is
  unreachable for keys that carry limits.
\<close>

lemma api_key_from_str_decoded:
  assumes "decode_api_key s = Ok d"
  shows "api_key_from_str s =
    (case d_limits d of
       None \<Rightarrow> Err UnsupportedCredential
     | Some l \<Rightarrow> Ok \<lparr>ak_key_id = d_key_id d,
         ak_auth_method = auth_of (d_auth_method d) (d_auth_secret d), ak_limits = l\<rparr>)"
  using assms decode_api_key_OkD [OF assms]
  by (auto simp: api_key_from_str_def credential_ok_def auth_of_def)

end
