(* ===== verification/Packet.thy ===== *)
theory Packet
  imports Wire ApiKey
begin

text \<open>
  Building of packets in \<open>src/client.rs\<close>: the tenant header, the rate request and
  latency report bodies, the metrics label TLV, PDU framing and authentication.
\<close>

section \<open>Constants\<close>

definition TENANT_TLV_LEN :: nat where "TENANT_TLV_LEN = 40"
definition PDU_HEADER_LEN :: nat where "PDU_HEADER_LEN = 8"
definition MAX_PACKET_SIZE :: nat where "MAX_PACKET_SIZE = 1200"

text \<open>\<open>mem::size_of\<close> of the two \<open>repr(C)\<close> blocks, whose fields leave no padding.\<close>

definition guard_len :: nat where "guard_len = 36"
definition resource_len :: nat where "resource_len = 28"

section \<open>Building requests\<close>

record api_key_config =
  service_domain :: string
  ac_key_id :: u64
  ac_auth_method :: auth_method
  ac_limits :: api_key_limits
  ac_steering_feedback :: bool

text \<open>The clock reading \<open>now_millis\<close> and the fresh UUID are arguments.\<close>

definition build_tenant_header :: "api_key_config \<Rightarrow> u64 \<Rightarrow> bytes \<Rightarrow> tenant_header" where
  "build_tenant_header cfg now request_id =
    \<lparr>th_tlv_type = TLV_TENANT, th_tlv_size = of_nat TENANT_TLV_LEN, th_key_id = ac_key_id cfg,
     th_unique_id = request_id, th_time_stamp = now,
     th_steering_feedback = (if ac_steering_feedback cfg then 1 else 0),
     th_tenant_mgmt_flag = 0, th_padding = [0, 0]\<rparr>"

definition write_tenant_header :: "bytes \<Rightarrow> tenant_header \<Rightarrow> (bytes, 'e) res" where
  "write_tenant_header packet header =
    (let packet = packet @ replicate TENANT_TLV_LEN 0 in
     and_then (slice 0 TENANT_TLV_LEN packet) (\<lambda>front.
     and_then (write_tenant header front) (\<lambda>front.
     Ok (front @ drop TENANT_TLV_LEN packet))))"

definition guard_block_of :: "bytes \<Rightarrow> latency_guard \<Rightarrow> guard_block" where
  "guard_block_of i g =
    \<lparr>gb_latency_tracker_id = i, gb_ttl_ms = lg_ttl_ms g, gb_max_samples = lg_max_samples g,
     gb_min_sample_threshold = lg_min_sample_threshold g, gb_latency_threshold = lg_threshold_ms g,
     gb_current_latency = 0\<rparr>"

definition resource_block_of :: "bytes \<Rightarrow> resource_request \<Rightarrow> resource_block" where
  "resource_block_of i r =
    \<lparr>rb_bucket_id = i, rb_window_size_ms = rr_window_size_ms r, rb_rate_limit = rr_rate_limit r,
     rb_tokens_requested = rr_tokens_requested r, rb_padding = 0\<rparr>"

fun append_guards ::
  "(bytes \<Rightarrow> bytes) \<Rightarrow> latency_guard list \<Rightarrow> bytes \<Rightarrow> (bytes, core_error) res"
where
  "append_guards hash [] body = Ok body"
| "append_guards hash (g # gs) body =
    and_then (derive_latency_tracker_id hash (lg_latency_tracker_name g) (lg_ttl_ms g)
      (lg_max_samples g) (lg_min_sample_threshold g)) (\<lambda>i.
    and_then (append_block write_guard guard_len body (guard_block_of i g)) (\<lambda>body.
    append_guards hash gs body))"

fun append_resources ::
  "(bytes \<Rightarrow> bytes) \<Rightarrow> resource_request list \<Rightarrow> bytes \<Rightarrow> (bytes, core_error) res"
where
  "append_resources hash [] body = Ok body"
| "append_resources hash (r # rs) body =
    and_then (derive_bucket_id hash (rr_bucket_name r) (rr_window_size_ms r) (rr_rate_limit r)) (\<lambda>i.
    and_then (append_block write_resource resource_len body (resource_block_of i r)) (\<lambda>body.
    append_resources hash rs body))"

definition append_metrics_label_tlv :: "bytes \<Rightarrow> string \<Rightarrow> (bytes, core_error) res" where
  "append_metrics_label_tlv pdu_body label =
    (let label_bytes = as_bytes label in
     if 65535 < length label_bytes then Err (CoreProtocol (Text ''Metrics label too long''))
     else
       let body_len = 2 + length label_bytes;
           padding = (4 - body_len mod 4) mod 4;
           tlv_size = 4 + body_len + padding
       in if 65535 < tlv_size then Err (CoreProtocol (Text ''Metrics label TLV too large''))
          else
            and_then (if 0 < padding then slice 0 padding (replicate 4 0) else Ok []) (\<lambda>pad.
            Ok (pdu_body @ to_le 2 TLV_METRICS_LABEL @ to_le 2 (of_nat tlv_size :: u16) @
                to_le 2 (of_nat (length label_bytes) :: u16) @ label_bytes @ pad)))"

definition build_rate_request_body ::
  "(bytes \<Rightarrow> bytes) \<Rightarrow> resource_request list \<Rightarrow> latency_guard list \<Rightarrow> string option
   \<Rightarrow> (bytes, core_error) res"
where
  "build_rate_request_body hash resources guards metrics_label =
    (let body = to_le 2 (of_nat (length guards) :: u16) @ to_le 2 (of_nat (length resources) :: u16) in
     and_then (append_guards hash guards body) (\<lambda>body.
     and_then (append_resources hash resources body) (\<lambda>body.
     case metrics_label of
       None \<Rightarrow> Ok body
     | Some label \<Rightarrow> append_metrics_label_tlv body label)))"

definition latency_block_of :: "bytes \<Rightarrow> service_latency_report \<Rightarrow> service_latency_block" where
  "latency_block_of i r =
    \<lparr>lb_latency_tracker_id = i, lb_ttl_ms = lr_ttl_ms r, lb_max_samples = lr_max_samples r,
     lb_min_sample_threshold = lr_min_sample_threshold r, lb_observed_latency = lr_observed_latency r\<rparr>"

fun append_reports ::
  "(bytes \<Rightarrow> bytes) \<Rightarrow> service_latency_report list \<Rightarrow> bytes \<Rightarrow> (bytes, core_error) res"
where
  "append_reports hash [] body = Ok body"
| "append_reports hash (r # rs) body =
    and_then (derive_latency_tracker_id hash (lr_latency_tracker_name r) (lr_ttl_ms r)
      (lr_max_samples r) (lr_min_sample_threshold r)) (\<lambda>i.
    and_then (append_block write_latency SERVICE_LATENCY_BLOCK_WIRE_LEN body (latency_block_of i r)) (\<lambda>body.
    append_reports hash rs body))"

definition build_latency_report_body ::
  "(bytes \<Rightarrow> bytes) \<Rightarrow> service_latency_report list \<Rightarrow> (bytes, core_error) res"
where
  "build_latency_report_body hash reports =
    append_reports hash reports (to_le 2 (of_nat (length reports) :: u16) @ replicate 2 0)"

definition build_pdu :: "u16 \<Rightarrow> bytes \<Rightarrow> (bytes, core_error) res" where
  "build_pdu pdu_type body =
    (let pdu_size = PDU_HEADER_LEN + length body in
     if 65535 < pdu_size then Err (CoreProtocol (Text ''PDU too large''))
     else Ok (to_le 2 pdu_type @ to_le 2 (of_nat pdu_size :: u16) @ replicate 4 0 @ body))"

definition build_rate_request_pdu :: "u32 \<Rightarrow> bytes \<Rightarrow> (bytes, core_error) res" where
  "build_rate_request_pdu dedup_ttl_ms body =
    (let pdu_size = PDU_HEADER_LEN + length body in
     if 65535 < pdu_size then Err (CoreProtocol (Text ''PDU too large''))
     else Ok (to_le 2 PDU_RATE_REQUEST @ to_le 2 (of_nat pdu_size :: u16) @ to_le 4 dedup_ttl_ms @ body))"

primrec auth_header_size :: "auth_method \<Rightarrow> nat" where
  "auth_header_size AuthNone = 4"
| "auth_header_size (Cookie secret) = 36"
| "auth_header_size (AesGcm secret) = 32"

text \<open>The two caches that \<open>CoreClient::new\<close> derives from the credential.\<close>

primrec cookie_hash_cache :: "auth_method \<Rightarrow> bytes option" where
  "cookie_hash_cache AuthNone = None"
| "cookie_hash_cache (Cookie secret) = Some secret"
| "cookie_hash_cache (AesGcm secret) = None"

primrec aes_key_cache :: "auth_method \<Rightarrow> bytes option" where
  "aes_key_cache AuthNone = None"
| "aes_key_cache (Cookie secret) = None"
| "aes_key_cache (AesGcm secret) = Some secret"

definition append_auth_tlv ::
  "cipher \<Rightarrow> bytes \<Rightarrow> auth_method \<Rightarrow> bytes option \<Rightarrow> bytes option \<Rightarrow> bytes \<Rightarrow> bytes
   \<Rightarrow> (bytes, core_error) res"
where
  "append_auth_tlv seal nonce auth_method cookie_cache aes_cache packet pdu_data =
    (case auth_method of
       AuthNone \<Rightarrow> Ok (packet @ to_le 2 TLV_AUTH_NONE @ to_le 2 (4 :: u16) @ pdu_data)
     | Cookie _ \<Rightarrow>
         let packet = packet @ to_le 2 TLV_AUTH_COOKIE @ to_le 2 (36 :: u16) in
         and_then (ok_or (CoreAuth (Text ''Missing cookie hash cache'')) cookie_cache) (\<lambda>cookie.
         Ok (packet @ cookie @ pdu_data))
     | AesGcm _ \<Rightarrow>
         (case aes_cache of
            None \<Rightarrow> Panic
          | Some key \<Rightarrow>
              let packet = packet @ to_le 2 TLV_AUTH_AES @ to_le 2 (32 :: u16) in
              and_then (encrypt_pdu seal nonce pdu_data key packet) (\<lambda>(encrypted_pdu, nonce, auth_tag).
              Ok (packet @ nonce @ auth_tag @ encrypted_pdu))))"

section \<open>Blocks of a request\<close>

context wire_codec
begin

lemma get_nth:
  "list_all wf bs \<Longrightarrow> i < length bs \<Longrightarrow> get (drop (size_of * i) (concat (map wire bs) @ rest)) = Ok (bs ! i)"
proof (induction bs arbitrary: i)
  case Nil
  then show ?case by simp
next
  case (Cons b bs)
  then show ?case
    by (cases i) (simp_all add: read_wire wire_length add.commute flip: drop_drop)
qed

end

text \<open>
  The three loops that append blocks have one shape: derive an identifier, make the
  block, append it.
\<close>

locale append_loop = wire_writer wf wire size_of put
  for wf :: "'b \<Rightarrow> bool" and wire :: "'b \<Rightarrow> bytes" and size_of :: nat
    and put :: "'b \<Rightarrow> bytes \<Rightarrow> (bytes, core_error) res" +
  fixes loop :: "'q list \<Rightarrow> bytes \<Rightarrow> (bytes, core_error) res"
    and ident :: "'q \<Rightarrow> (bytes, core_error) res"
    and block :: "bytes \<Rightarrow> 'q \<Rightarrow> 'b"
  assumes loop_Nil: "loop [] body = Ok body"
    and loop_Cons: "loop (q # qs) body =
      and_then (ident q) (\<lambda>i. and_then (append_block put size_of body (block i q)) (\<lambda>body. loop qs body))"
    and wf_block: "ident q = Ok i \<Longrightarrow> wf (block i q)"
begin

definition made_of :: "'q list \<Rightarrow> 'b list \<Rightarrow> bool" where
  "made_of qs bs \<longleftrightarrow> list_all2 (\<lambda>q b. \<exists>i. ident q = Ok i \<and> b = block i q) qs bs"

lemma loop_OkD:
  "loop qs body = Ok out \<Longrightarrow>
   \<exists>bs. made_of qs bs \<and> list_all wf bs \<and> out = body @ concat (map wire bs)"
proof (induction qs arbitrary: body)
  case Nil
  then show ?case by (simp add: loop_Nil made_of_def)
next
  case (Cons q qs)
  then obtain i where i: "ident q = Ok i" "loop qs (body @ wire (block i q)) = Ok out"
    by (auto simp: loop_Cons outcome_simps append_block_wire wf_block)
  from Cons.IH [OF i(2)] obtain bs where "made_of qs bs" "list_all wf bs"
      "out = (body @ wire (block i q)) @ concat (map wire bs)" by blast
  then show ?case using i(1) wf_block [OF i(1)]
    by (intro exI [of _ "block i q # bs"]) (simp add: made_of_def)
qed

lemma loop_total:
  "list_all (\<lambda>q. \<exists>i. ident q = Ok i) qs \<Longrightarrow> \<exists>out. loop qs body = Ok out"
  by (induction qs arbitrary: body)
    (auto simp: loop_Nil loop_Cons append_block_wire wf_block)

lemma loop_never_Err: "loop qs body = Err e \<Longrightarrow> \<exists>q. ident q = Err e"
  by (induction qs arbitrary: body)
    (auto simp: loop_Nil loop_Cons outcome_simps append_block_wire wf_block)

end

definition guard_id :: "(bytes \<Rightarrow> bytes) \<Rightarrow> latency_guard \<Rightarrow> (bytes, core_error) res" where
  "guard_id hash g = content_id hash (TrackerContent (as_bytes (lg_latency_tracker_name g))
    (lg_ttl_ms g) (lg_max_samples g) (lg_min_sample_threshold g))"

definition resource_id :: "(bytes \<Rightarrow> bytes) \<Rightarrow> resource_request \<Rightarrow> (bytes, core_error) res" where
  "resource_id hash r = content_id hash (BucketContent (as_bytes (rr_bucket_name r))
    (rr_window_size_ms r) (rr_rate_limit r))"

definition report_id :: "(bytes \<Rightarrow> bytes) \<Rightarrow> service_latency_report \<Rightarrow> (bytes, core_error) res" where
  "report_id hash r = content_id hash (TrackerContent (as_bytes (lr_latency_tracker_name r))
    (lr_ttl_ms r) (lr_max_samples r) (lr_min_sample_threshold r))"

lemma content_id_OkD: "content_id hash c = Ok i \<Longrightarrow> length i = 16 \<and> length (content_name c) < 2 ^ 32"
  by (cases c) (auto simp: derive_bucket_id_bytes_def derive_latency_tracker_id_bytes_def
      derive_content_id_def slice_def split: if_splits)

lemma content_id_not_Err: "content_id hash c \<noteq> Err e"
  by (cases c) (auto simp: derive_bucket_id_bytes_def derive_latency_tracker_id_bytes_def
      derive_content_id_def slice_def)

interpretation guard_append: append_loop wf_guard guard_wire 36 write_guard "append_guards hash"
  "guard_id hash" guard_block_of
  by unfold_locales
    (auto simp: guard_id_def derive_latency_tracker_id_def guard_len_def wf_guard_def guard_block_of_def
      simp del: content_id.simps dest: content_id_OkD, simp_all)

interpretation resource_append: append_loop wf_resource resource_wire 28 write_resource
  "append_resources hash" "resource_id hash" resource_block_of
  by unfold_locales
    (auto simp: resource_id_def derive_bucket_id_def resource_len_def wf_resource_def resource_block_of_def
      simp del: content_id.simps dest: content_id_OkD, simp_all)

interpretation report_append: append_loop wf_latency latency_wire 32 write_latency
  "append_reports hash" "report_id hash" latency_block_of
  by unfold_locales
    (auto simp: report_id_def derive_latency_tracker_id_def SERVICE_LATENCY_BLOCK_WIRE_LEN_def
      wf_latency_def latency_block_of_def simp del: content_id.simps dest: content_id_OkD, simp_all)

section \<open>The metrics label\<close>

definition label_padding :: "nat \<Rightarrow> nat" where
  "label_padding n = (4 - (2 + n) mod 4) mod 4"

definition metrics_label_tlv :: "string \<Rightarrow> bytes" where
  "metrics_label_tlv label =
    to_le 2 TLV_METRICS_LABEL @ to_le 2 (of_nat (6 + length label + label_padding (length label)) :: u16) @
    to_le 2 (of_nat (length label) :: u16) @ as_bytes label @ replicate (label_padding (length label)) 0"

lemma label_padding_cases:
  "label_padding (4 * q + r) = (if r = 0 then 2 else if r = 1 then 1 else if r = 2 then 0 else 3)"
  if "r < 4" for q r :: nat
proof -
  have "(2 + (4 * q + r)) mod 4 = (2 + r) mod 4" by presburger
  moreover have "r = 0 \<or> r = 1 \<or> r = 2 \<or> r = 3" using that by arith
  ultimately show ?thesis by (auto simp: label_padding_def)
qed

lemma label_size:
  "6 + n + label_padding n \<le> 65535 \<longleftrightarrow> n \<le> 65526" "(6 + n + label_padding n) mod 4 = 0"
proof -
  obtain q r where n: "n = 4 * q + r" "r < 4"
    by (metis mult_div_mod_eq mod_less_divisor zero_less_numeral)
  have "r = 0 \<or> r = 1 \<or> r = 2 \<or> r = 3" using n(2) by arith
  then show "6 + n + label_padding n \<le> 65535 \<longleftrightarrow> n \<le> 65526" "(6 + n + label_padding n) mod 4 = 0"
    unfolding n(1) label_padding_cases [OF n(2)] by (elim disjE; simp; presburger)+
qed

lemmas label_size_bound = label_size(1)

lemma label_padding_less: "label_padding n < 4"
  by (simp add: label_padding_def)

lemma append_metrics_label_tlv_small:
  "length label \<le> 65526 \<Longrightarrow> append_metrics_label_tlv body label = Ok (body @ metrics_label_tlv label)"
  using label_padding_less [of "length label"] label_size_bound [of "length label"]
  by (auto simp: append_metrics_label_tlv_def metrics_label_tlv_def label_padding_def Let_def slice_def)

text \<open>
  A metrics label is accepted exactly up to the 65526 bytes the public API allows;
  its TLV is a multiple of four bytes, states its own length, and carries the label's
  length and bytes followed by at most three zeros.
\<close>

lemma append_metrics_label_tlv_spec:
  "append_metrics_label_tlv body label =
    (if length label \<le> 65526 then Ok (body @ metrics_label_tlv label)
     else if length label \<le> 65535 then Err (CoreProtocol (Text ''Metrics label TLV too large''))
     else Err (CoreProtocol (Text ''Metrics label too long''))) \<and>
   length (metrics_label_tlv label) = 6 + length label + label_padding (length label) \<and>
   length (metrics_label_tlv label) mod 4 = 0 \<and> label_padding (length label) < 4"
proof -
  let ?n = "length label"
  have pad: "(4 - (2 + ?n) mod 4) mod 4 = label_padding ?n" "4 + (2 + ?n) + label_padding ?n = 6 + ?n + label_padding ?n"
    by (simp_all add: label_padding_def)
  have "append_metrics_label_tlv body label =
    (if ?n \<le> 65526 then Ok (body @ metrics_label_tlv label)
     else if ?n \<le> 65535 then Err (CoreProtocol (Text ''Metrics label TLV too large''))
     else Err (CoreProtocol (Text ''Metrics label too long'')))"
    using label_padding_less [of ?n] label_size_bound [of ?n]
    unfolding append_metrics_label_tlv_def length_as_bytes Let_def pad
    by (simp add: metrics_label_tlv_def slice_def) auto
  then show ?thesis using label_padding_less label_size(2) [of ?n] by (simp add: metrics_label_tlv_def add.assoc)
qed

section \<open>Request and report packets\<close>

definition label_part :: "string option \<Rightarrow> bytes" where
  "label_part label = (case label of None \<Rightarrow> [] | Some l \<Rightarrow> metrics_label_tlv l)"

lemma append_label_OkD: "append_metrics_label_tlv body label = Ok out \<Longrightarrow> out = body @ metrics_label_tlv label"
  using label_size_bound [of "length label"] label_padding_less [of "length label"]
  by (auto simp: append_metrics_label_tlv_def metrics_label_tlv_def label_padding_def Let_def slice_def
      split: if_splits)

text \<open>What a built request body consists of.\<close>

lemma build_rate_request_body_OkD:
  assumes "build_rate_request_body hash rs gs label = Ok body"
  shows "\<exists>gbs rbs. list_all2 (\<lambda>g b. \<exists>i. guard_id hash g = Ok i \<and> b = guard_block_of i g) gs gbs \<and>
    list_all2 (\<lambda>r b. \<exists>i. resource_id hash r = Ok i \<and> b = resource_block_of i r) rs rbs \<and>
    list_all wf_guard gbs \<and> list_all wf_resource rbs \<and>
    body = to_le 2 (of_nat (length gs) :: u16) @ to_le 2 (of_nat (length rs) :: u16) @
      concat (map guard_wire gbs) @ concat (map resource_wire rbs) @ label_part label"
proof -
  let ?counts = "to_le 2 (of_nat (length gs) :: u16) @ to_le 2 (of_nat (length rs) :: u16)"
  obtain b1 b2 where b: "append_guards hash gs ?counts = Ok b1" "append_resources hash rs b1 = Ok b2"
      "(case label of None \<Rightarrow> Ok b2 | Some l \<Rightarrow> append_metrics_label_tlv b2 l) = Ok body"
    using assms by (auto simp: build_rate_request_body_def outcome_simps Let_def)
  obtain gbs where g: "list_all2 (\<lambda>g b. \<exists>i. guard_id hash g = Ok i \<and> b = guard_block_of i g) gs gbs"
      "list_all wf_guard gbs" "b1 = ?counts @ concat (map guard_wire gbs)"
    using guard_append.loop_OkD [OF b(1)] unfolding guard_append.made_of_def by blast
  obtain rbs where r: "list_all2 (\<lambda>r b. \<exists>i. resource_id hash r = Ok i \<and> b = resource_block_of i r) rs rbs"
      "list_all wf_resource rbs" "b2 = b1 @ concat (map resource_wire rbs)"
    using resource_append.loop_OkD [OF b(2)] unfolding resource_append.made_of_def by blast
  have "body = b2 @ label_part label"
    using b(3) by (auto simp: label_part_def dest: append_label_OkD split: option.splits)
  then show ?thesis using g r by auto
qed

text \<open>A built request PDU, block by block.\<close>

lemma rate_request_pdu_reads:
  assumes "build_rate_request_body hash rs gs label = Ok body"
    and "build_rate_request_pdu dedup body = Ok pdu"
  shows "length pdu \<le> 65535 \<and>
    take 8 pdu = to_le 2 PDU_RATE_REQUEST @ to_le 2 (of_nat (length pdu) :: u16) @ to_le 4 dedup \<and>
    from_le (take 2 (drop 8 pdu)) = (of_nat (length gs) :: u16) \<and> length gs < 2 ^ 16 \<and>
    from_le (take 2 (drop 10 pdu)) = (of_nat (length rs) :: u16) \<and> length rs < 2 ^ 16 \<and>
    (\<forall>k < length gs. \<exists>i. guard_id hash (gs ! k) = Ok i \<and>
       read_guard (drop (12 + 36 * k) pdu) = Ok (guard_block_of i (gs ! k))) \<and>
    (\<forall>k < length rs. \<exists>i. resource_id hash (rs ! k) = Ok i \<and>
       read_resource (drop (12 + 36 * length gs + 28 * k) pdu) = Ok (resource_block_of i (rs ! k))) \<and>
    drop (12 + 36 * length gs + 28 * length rs) pdu = label_part label"
proof -
  obtain gbs rbs where b: "list_all2 (\<lambda>g b. \<exists>i. guard_id hash g = Ok i \<and> b = guard_block_of i g) gs gbs"
      "list_all2 (\<lambda>r b. \<exists>i. resource_id hash r = Ok i \<and> b = resource_block_of i r) rs rbs"
      "list_all wf_guard gbs" "list_all wf_resource rbs"
      "body = to_le 2 (of_nat (length gs) :: u16) @ to_le 2 (of_nat (length rs) :: u16) @
        concat (map guard_wire gbs) @ concat (map resource_wire rbs) @ label_part label"
    using build_rate_request_body_OkD [OF assms(1)] by blast
  have p: "pdu = to_le 2 PDU_RATE_REQUEST @ to_le 2 (of_nat (8 + length body) :: u16) @ to_le 4 dedup @ body"
      "8 + length body \<le> 65535"
    using assms(2) by (auto simp: build_rate_request_pdu_def PDU_HEADER_LEN_def Let_def split: if_splits)
  have l: "length gbs = length gs" "length rbs = length rs"
    using b(1,2) by (auto dest: list_all2_lengthD)
  have w: "length (concat (map guard_wire gbs)) = 36 * length gs"
      "length (concat (map resource_wire rbs)) = 28 * length rs"
    using guard_codec.length_wire_concat [OF b(3)] resource_codec.length_wire_concat [OF b(4)] l by simp_all
  have drop12: "drop (12 + k) pdu = drop k (concat (map guard_wire gbs) @ concat (map resource_wire rbs) @ label_part label)" for k
    unfolding p(1) b(5) by simp
  have g: "read_guard (drop (12 + 36 * k) pdu) = Ok (gbs ! k)" if "k < length gs" for k
    unfolding drop12 using guard_codec.get_nth [OF b(3), of k "concat (map resource_wire rbs) @ label_part label"] that l
    by simp
  have r: "read_resource (drop (12 + 36 * length gs + 28 * k) pdu) = Ok (rbs ! k)" if "k < length rs" for k
    unfolding add.assoc drop12 using resource_codec.get_nth [OF b(4)] that l w by simp
  have "drop (12 + 36 * length gs + 28 * length rs) pdu = label_part label"
    unfolding add.assoc drop12 using w by simp
  moreover have "36 * length gs + 28 * length rs \<le> 65535"
    using p(2) w unfolding b(5) by simp
  then have "length gs < 2 ^ 16" "length rs < 2 ^ 16" by simp_all
  moreover have "take 8 pdu = to_le 2 PDU_RATE_REQUEST @ to_le 2 (of_nat (length pdu) :: u16) @ to_le 4 dedup"
      "length pdu \<le> 65535"
    using p(2) unfolding p(1) by simp_all
  moreover have "from_le (take 2 (drop 8 pdu)) = (of_nat (length gs) :: u16)"
      "from_le (take 2 (drop 10 pdu)) = (of_nat (length rs) :: u16)"
    unfolding p(1) b(5) by simp_all
  moreover have "\<forall>k < length gs. \<exists>i. guard_id hash (gs ! k) = Ok i \<and>
       read_guard (drop (12 + 36 * k) pdu) = Ok (guard_block_of i (gs ! k))"
    using b(1) g l by (auto simp: list_all2_conv_all_nth)
  moreover have "\<forall>k < length rs. \<exists>i. resource_id hash (rs ! k) = Ok i \<and>
       read_resource (drop (12 + 36 * length gs + 28 * k) pdu) = Ok (resource_block_of i (rs ! k))"
    using b(2) r l by (auto simp: list_all2_conv_all_nth)
  ultimately show ?thesis by blast
qed

text \<open>
  C14: whenever a rate request PDU is built, it is at most 65535 bytes and states its
  own length, its type and the deduplication time; its two counts are the exact numbers
  of guards and resources (no count is truncated to 16 bits), and reading it block by
  block gives back every guard and every resource of the request with its identifier, in
  order, with the metrics label after them.
\<close>

theorem request_pdu_faithful:
  assumes "build_rate_request_body hash rs gs label = Ok body"
    and "build_rate_request_pdu dedup body = Ok pdu"
  shows "length pdu \<le> 65535 \<and>
    take 8 pdu = to_le 2 PDU_RATE_REQUEST @ to_le 2 (of_nat (length pdu) :: u16) @ to_le 4 dedup \<and>
    from_le (take 2 (drop 8 pdu)) = (of_nat (length gs) :: u16) \<and> length gs < 2 ^ 16 \<and>
    from_le (take 2 (drop 10 pdu)) = (of_nat (length rs) :: u16) \<and> length rs < 2 ^ 16 \<and>
    (\<forall>k < length gs. \<exists>i. guard_id hash (gs ! k) = Ok i \<and>
       read_guard (drop (12 + 36 * k) pdu) = Ok (guard_block_of i (gs ! k))) \<and>
    (\<forall>k < length rs. \<exists>i. resource_id hash (rs ! k) = Ok i \<and>
       read_resource (drop (12 + 36 * length gs + 28 * k) pdu) = Ok (resource_block_of i (rs ! k))) \<and>
    drop (12 + 36 * length gs + 28 * length rs) pdu = label_part label"
  by (rule rate_request_pdu_reads [OF assms])

text \<open>A request with one guard, one resource and a label.\<close>

definition sample_guard :: latency_guard where
  "sample_guard = \<lparr>lg_latency_tracker_name = ''db'', lg_threshold_ms = 250, lg_ttl_ms = 5000,
     lg_max_samples = 10, lg_min_sample_threshold = 2\<rparr>"

definition sample_resource :: resource_request where
  "sample_resource = \<lparr>rr_bucket_name = ''checkout'', rr_window_size_ms = 1000, rr_rate_limit = 100,
     rr_tokens_requested = 1\<rparr>"

theorem request_pdu_faithful_witness:
  "\<exists>body pdu. build_rate_request_body (\<lambda>x. replicate 32 7) [sample_resource] [sample_guard] (Some ''web'') = Ok body \<and>
    build_rate_request_pdu 60 body = Ok pdu \<and>
    (\<exists>i. read_guard (drop 12 pdu) = Ok (guard_block_of i sample_guard)) \<and>
    (\<exists>i. read_resource (drop 48 pdu) = Ok (resource_block_of i sample_resource)) \<and>
    drop 76 pdu = metrics_label_tlv ''web''"
proof -
  have g: "guard_id (\<lambda>x. replicate 32 7) sample_guard = Ok (replicate 16 7)"
    by (simp add: guard_id_def sample_guard_def derive_latency_tracker_id_bytes_def derive_content_id_def slice_def)
  have r: "resource_id (\<lambda>x. replicate 32 7) sample_resource = Ok (replicate 16 7)"
    by (simp add: resource_id_def sample_resource_def derive_bucket_id_bytes_def derive_content_id_def slice_def)
  let ?body = "to_le 2 (1 :: u16) @ to_le 2 (1 :: u16) @ guard_wire (guard_block_of (replicate 16 7) sample_guard) @
    resource_wire (resource_block_of (replicate 16 7) sample_resource) @ metrics_label_tlv ''web''"
  have wf: "wf_guard (guard_block_of (replicate 16 7) sample_guard)"
      "wf_resource (resource_block_of (replicate 16 7) sample_resource)"
    by (simp_all add: wf_guard_def guard_block_of_def wf_resource_def resource_block_of_def)
  have b: "build_rate_request_body (\<lambda>x. replicate 32 7) [sample_resource] [sample_guard] (Some ''web'') = Ok ?body"
    using g r wf append_metrics_label_tlv_small [of "''web''"]
    by (simp add: build_rate_request_body_def Let_def guard_append.loop_Cons resource_append.loop_Cons
        guard_codec.append_block_wire resource_codec.append_block_wire del: append_guards.simps(2) append_resources.simps(2))
  have "length ?body = 80"
    using guard_codec.wire_length [OF wf(1)] resource_codec.wire_length [OF wf(2)]
    by (simp add: metrics_label_tlv_def label_padding_def)
  then obtain pdu where p: "build_rate_request_pdu 60 ?body = Ok pdu"
    by (simp add: build_rate_request_pdu_def PDU_HEADER_LEN_def del: length_append)
  show ?thesis
    using request_pdu_faithful [OF b p] b p by (auto simp: label_part_def)
qed

end
