(* ===== verification/Sockets.thy ===== *)
theory Sockets
  imports Dns Packet
begin

text \<open>
  UDP sockets and source ports of \<open>src/client.rs\<close>: the two sockets of a client, one per
  address family, how they are bound, sent from and polled, and the search for the next
  source port when the server asks for another one.  The operating system is an
  argument: a state and a function that answers a call and returns the next state.  The
  Windows-only exclusive-address option is not modelled.
\<close>

section \<open>Binding\<close>

definition STEERING_PORT_MIN :: u16 where "STEERING_PORT_MIN = 49152"
definition STEERING_PORT_COUNT :: nat where "STEERING_PORT_COUNT = 65535 - 49152 + 1"

text \<open>A bound socket: its family and the port it was bound to (0 lets the system choose).\<close>

record udp_socket =
  sock_ipv6 :: bool
  sock_port :: u16

datatype syscall =
    OpenUdp bool
  | SetOnlyV6
  | BindTo socket_addr
  | SetNonblocking
  | Register
  | LocalAddr udp_socket

text \<open>An answer is an error or an address; only \<open>LocalAddr\<close> looks at the address.\<close>

type_synonym 'o os = "'o \<Rightarrow> syscall \<Rightarrow> (io_error + socket_addr) \<times> 'o"

definition unspecified :: "u16 \<Rightarrow> bool \<Rightarrow> socket_addr" where
  "unspecified port ipv6 = socket_addr_new (if ipv6 then IpV6 0 else IpV4 0) port"

fun syscalls :: "'o os \<Rightarrow> syscall list \<Rightarrow> 'o \<Rightarrow> (unit, core_error) res \<times> 'o" where
  "syscalls os [] o1 = (Ok (), o1)"
| "syscalls os (call # calls) o1 =
    (case os o1 call of
       (Inl e, o2) \<Rightarrow> (Err (CoreIo e), o2)
     | (Inr a, o2) \<Rightarrow> syscalls os calls o2)"

definition bind_udp_socket_for_family ::
  "'o os \<Rightarrow> u16 \<Rightarrow> bool \<Rightarrow> 'o \<Rightarrow> (udp_socket, core_error) res \<times> 'o"
where
  "bind_udp_socket_for_family os port ipv6 o1 =
    (let (r, o2) = syscalls os ([OpenUdp ipv6] @ (if ipv6 then [SetOnlyV6] else []) @
           [BindTo (unspecified port ipv6), SetNonblocking, Register]) o1
     in (and_then r (\<lambda>_. Ok \<lparr>sock_ipv6 = ipv6, sock_port = port\<rparr>), o2))"

record family_sockets =
  fs_v4 :: "udp_socket option"
  fs_v6 :: "udp_socket option"
  fs_v6_first :: bool

definition is_addr_in_use :: "('a, core_error) res \<Rightarrow> bool" where
  "is_addr_in_use r \<longleftrightarrow> r = Err (CoreIo AddrInUse)"

primrec res_ok :: "('a, 'e) res \<Rightarrow> 'a option" where
  "res_ok (Ok x) = Some x"
| "res_ok (Err e) = None"
| "res_ok Panic = None"

definition bind_sockets :: "'o os \<Rightarrow> u16 \<Rightarrow> 'o \<Rightarrow> (family_sockets, core_error) res \<times> 'o" where
  "bind_sockets os port o1 =
    (let (v4, o2) = bind_udp_socket_for_family os port False o1;
         (v6, o3) = bind_udp_socket_for_family os port True o2
     in (if is_addr_in_use v4 \<or> is_addr_in_use v6 then Err (CoreIo AddrInUse)
         else case (v4, v6) of
           (Err e, Err e') \<Rightarrow> Err e
         | _ \<Rightarrow> Ok \<lparr>fs_v4 = res_ok v4, fs_v6 = res_ok v6, fs_v6_first = False\<rparr>, o3))"

definition local_addr :: "'o os \<Rightarrow> family_sockets \<Rightarrow> 'o \<Rightarrow> (socket_addr, core_error) res \<times> 'o" where
  "local_addr os fs o1 =
    (case (case fs_v4 fs of Some s \<Rightarrow> Some s | None \<Rightarrow> fs_v6 fs) of
       None \<Rightarrow> (Panic, o1)
     | Some s \<Rightarrow> (case os o1 (LocalAddr s) of
         (Inl e, o2) \<Rightarrow> (Err (CoreIo e), o2)
       | (Inr a, o2) \<Rightarrow> (Ok a, o2)))"

section \<open>Sending and polling\<close>

text \<open>The socket a target is sent from; without one the send fails locally.\<close>

definition no_family_socket :: io_error where
  "no_family_socket = AddrNotAvailable"

definition send_socket :: "family_sockets \<Rightarrow> socket_addr \<Rightarrow> udp_socket option" where
  "send_socket fs target = (if is_ipv4 target then fs_v4 fs else fs_v6 fs)"

text \<open>
  One poll of \<open>recv_from\<close>: \<open>ready\<close> is what each socket would answer now.  The order of
  the two families alternates from poll to poll.
\<close>

definition poll_recv ::
  "family_sockets \<Rightarrow> (udp_socket \<Rightarrow> 'r option) \<Rightarrow> 'r option \<times> family_sockets"
where
  "poll_recv fs ready =
    (let order = (if fs_v6_first fs then [fs_v6 fs, fs_v4 fs] else [fs_v4 fs, fs_v6 fs]);
         answers = List.map_filter ready (List.map_filter (\<lambda>s. s) order)
     in ((case answers of [] \<Rightarrow> None | r # rs \<Rightarrow> Some r), fs\<lparr>fs_v6_first := \<not> fs_v6_first fs\<rparr>))"

section \<open>Steering ports\<close>

definition next_steering_port :: "u16 \<Rightarrow> u16" where
  "next_steering_port port =
    (if \<not> (STEERING_PORT_MIN \<le> port \<and> port < 65535) then STEERING_PORT_MIN else port + 1)"

text \<open>The loop over the remaining attempts, with the last error seen.\<close>

fun try_ports ::
  "'o os \<Rightarrow> nat \<Rightarrow> u16 \<Rightarrow> io_error option \<Rightarrow> 'o \<Rightarrow> (family_sockets \<times> u16, core_error) res \<times> 'o"
where
  "try_ports os 0 candidate last_error o1 =
    (Err (CoreIo (case last_error of Some e \<Rightarrow> e | None \<Rightarrow> AddrNotAvailable)), o1)"
| "try_ports os (Suc n) candidate last_error o1 =
    (case bind_sockets os candidate o1 of
       (Ok fs, o2) \<Rightarrow> (Ok (fs, next_steering_port candidate), o2)
     | (Err e, o2) \<Rightarrow>
         if e = CoreIo AddrInUse
         then try_ports os n (next_steering_port candidate) (Some AddrInUse) o2
         else (Err e, o2)
     | (Panic, o2) \<Rightarrow> (Panic, o2))"

definition bind_next_steering_socket ::
  "'o os \<Rightarrow> u16 \<Rightarrow> u16 \<Rightarrow> 'o \<Rightarrow> (family_sockets \<times> u16, core_error) res \<times> 'o"
where
  "bind_next_steering_socket os next_port current_port o1 =
    (let candidate = (if next_port = 0 then next_steering_port current_port else next_port)
     in try_ports os STEERING_PORT_COUNT candidate None o1)"

section \<open>The port ring\<close>

text \<open>
  A step function that walks around a finite set: every member is met exactly once in
  one turn, from any starting point.
\<close>

locale ring =
  fixes member :: "'p \<Rightarrow> bool"
    and position :: "'p \<Rightarrow> nat"
    and circumference :: nat
    and advance :: "'p \<Rightarrow> 'p"
  assumes advance_member: "member p \<Longrightarrow> member (advance p)"
    and position_bound: "member p \<Longrightarrow> position p < circumference"
    and position_inject: "member p \<Longrightarrow> member q \<Longrightarrow> position p = position q \<Longrightarrow> p = q"
    and position_advance: "member p \<Longrightarrow> position (advance p) = Suc (position p) mod circumference"
begin

lemma walk_member: "member p \<Longrightarrow> member ((advance ^^ k) p)"
  by (induction k) (simp_all add: advance_member)

lemma walk_position: "member p \<Longrightarrow> position ((advance ^^ k) p) = (position p + k) mod circumference"
  by (induction k) (simp_all add: position_bound position_advance walk_member mod_Suc_eq)

lemma meets_all:
  assumes "member p" "member q"
  shows "\<exists>!k. k < circumference \<and> (advance ^^ k) p = q"
proof -
  let ?n = circumference
  have b: "position p < ?n" "position q < ?n" using assms position_bound by blast+
  have iff: "(advance ^^ k) p = q \<longleftrightarrow> (position p + k) mod ?n = position q" for k
    using walk_position [OF assms(1), of k] position_inject walk_member [OF assms(1)] assms(2) by metis
  have wrap: "(position p + k) mod ?n = (if position p + k < ?n then position p + k else position p + k - ?n)"
    if "k < ?n" for k
    using b(1) that by (simp add: mod_if le_mod_geq)
  show ?thesis
  proof (rule ex1I [of _ "(position q + ?n - position p) mod ?n"], rule conjI)
    let ?k = "(position q + ?n - position p) mod ?n"
    show k: "?k < ?n" using b by simp
    have "?k = (if position p \<le> position q then position q - position p else position q + ?n - position p)"
      using b by (auto simp: mod_if)
    then show "(advance ^^ ?k) p = q" unfolding iff wrap [OF k] using b by auto
  next
    fix k assume "k < ?n \<and> (advance ^^ k) p = q"
    then have "k < ?n" "(position p + k) mod ?n = position q" using iff by simp_all
    then show "k = (position q + ?n - position p) mod ?n"
      using wrap [of k] b by (auto simp: mod_if split: if_splits)
  qed
qed

end

definition steering_port :: "u16 \<Rightarrow> bool" where
  "steering_port p \<longleftrightarrow> STEERING_PORT_MIN \<le> p"

lemma unat_u16_bound: "unat (p :: u16) \<le> 65535"
  using unat_le_max [of p] by simp

lemma next_steering_port_unat:
  "unat (next_steering_port p) = (if 49152 \<le> unat p \<and> unat p < 65535 then Suc (unat p) else 49152)"
proof -
  have "unat (p + 1) = Suc (unat p)" if "unat p < 65535"
    using that by (simp add: unat_word_ariths)
  then show ?thesis
    by (auto simp: next_steering_port_def STEERING_PORT_MIN_def word_le_nat_alt word_less_nat_alt)
qed

lemma steering_port_unat: "steering_port p \<longleftrightarrow> 49152 \<le> unat p"
  by (simp add: steering_port_def STEERING_PORT_MIN_def word_le_nat_alt)

lemma next_steering_port_range: "steering_port (next_steering_port p)"
  by (simp add: steering_port_unat next_steering_port_unat)

interpretation ports: ring steering_port "\<lambda>p. unat p - 49152" STEERING_PORT_COUNT next_steering_port
proof unfold_locales
  fix p q :: u16
  show "steering_port p \<Longrightarrow> steering_port (next_steering_port p)" by (rule next_steering_port_range)
  show "steering_port p \<Longrightarrow> unat p - 49152 < STEERING_PORT_COUNT"
    using unat_u16_bound [of p] by (simp add: STEERING_PORT_COUNT_def)
  show "steering_port p \<Longrightarrow> steering_port q \<Longrightarrow> unat p - 49152 = unat q - 49152 \<Longrightarrow> p = q"
    by (simp add: steering_port_unat word_unat_eq_iff)
  show "steering_port p \<Longrightarrow> unat (next_steering_port p) - 49152 = Suc (unat p - 49152) mod STEERING_PORT_COUNT"
    using unat_u16_bound [of p]
    by (auto simp: steering_port_unat next_steering_port_unat STEERING_PORT_COUNT_def mod_if)
qed

section \<open>The search for a port\<close>

text \<open>The first \<open>k\<close> candidates are all in use.\<close>

primrec in_use_run :: "'o os \<Rightarrow> nat \<Rightarrow> u16 \<Rightarrow> 'o \<Rightarrow> 'o option" where
  "in_use_run os 0 c o1 = Some o1"
| "in_use_run os (Suc n) c o1 =
    (case bind_sockets os c o1 of
       (r, o2) \<Rightarrow> if r = Err (CoreIo AddrInUse) then in_use_run os n (next_steering_port c) o2 else None)"

lemma syscalls_not_panic: "fst (syscalls os calls o1) \<noteq> Panic"
  by (induction os calls o1 rule: syscalls.induct) (auto split: prod.splits sum.splits)

lemma bind_family_cases:
  "\<exists>r o2. bind_udp_socket_for_family os port ipv6 o1 = (r, o2) \<and>
    (r = Ok \<lparr>sock_ipv6 = ipv6, sock_port = port\<rparr> \<or> (\<exists>e. r = Err e))"
proof -
  obtain r o2 where s: "syscalls os ([OpenUdp ipv6] @ (if ipv6 then [SetOnlyV6] else []) @
      [BindTo (unspecified port ipv6), SetNonblocking, Register]) o1 = (r, o2)" by force
  then have "r \<noteq> Panic" using syscalls_not_panic by (metis fst_conv)
  then show ?thesis using s unfolding bind_udp_socket_for_family_def Let_def by (cases r) auto
qed

definition sockets_on :: "u16 \<Rightarrow> family_sockets \<Rightarrow> bool" where
  "sockets_on port fs \<longleftrightarrow> (fs_v4 fs \<noteq> None \<or> fs_v6 fs \<noteq> None) \<and>
    fs_v4 fs \<in> {None, Some \<lparr>sock_ipv6 = False, sock_port = port\<rparr>} \<and>
    fs_v6 fs \<in> {None, Some \<lparr>sock_ipv6 = True, sock_port = port\<rparr>}"

lemma bind_sockets_cases:
  "\<exists>r o2. bind_sockets os port o1 = (r, o2) \<and> ((\<exists>fs. r = Ok fs \<and> sockets_on port fs) \<or> (\<exists>e. r = Err e))"
proof -
  obtain r4 o2 where 4: "bind_udp_socket_for_family os port False o1 = (r4, o2)"
      "r4 = Ok \<lparr>sock_ipv6 = False, sock_port = port\<rparr> \<or> (\<exists>e. r4 = Err e)"
    using bind_family_cases [of os port False o1] by blast
  obtain r6 o3 where 6: "bind_udp_socket_for_family os port True o2 = (r6, o3)"
      "r6 = Ok \<lparr>sock_ipv6 = True, sock_port = port\<rparr> \<or> (\<exists>e. r6 = Err e)"
    using bind_family_cases [of os port True o2] by blast
  show ?thesis
    using 4 6 by (auto simp: bind_sockets_def Let_def sockets_on_def)
qed

text \<open>What a search of \<open>n\<close> ports from \<open>c\<close> comes to.\<close>

definition search_ends ::
  "'o os \<Rightarrow> nat \<Rightarrow> u16 \<Rightarrow> io_error option \<Rightarrow> 'o \<Rightarrow> (family_sockets \<times> u16, core_error) res \<Rightarrow> 'o \<Rightarrow> bool"
where
  "search_ends os n c le o1 r o' \<longleftrightarrow>
    (case r of
       Ok (fs, port) \<Rightarrow> \<exists>k ok. k < n \<and> in_use_run os k c o1 = Some ok \<and> sockets_on ((next_steering_port ^^ k) c) fs \<and>
         bind_sockets os ((next_steering_port ^^ k) c) ok = (Ok fs, o') \<and>
         port = (next_steering_port ^^ Suc k) c
     | Err e \<Rightarrow>
         (n = 0 \<and> e = CoreIo (case le of Some e \<Rightarrow> e | None \<Rightarrow> AddrNotAvailable)) \<or>
         (0 < n \<and> e = CoreIo AddrInUse \<and> in_use_run os n c o1 = Some o') \<or>
         (e \<noteq> CoreIo AddrInUse \<and> (\<exists>k ok. k < n \<and> in_use_run os k c o1 = Some ok \<and>
            bind_sockets os ((next_steering_port ^^ k) c) ok = (Err e, o')))
     | Panic \<Rightarrow> False)"

lemma search_ends_now:
  "bind_sockets os c o1 = (Ok fs, o2) \<Longrightarrow> sockets_on c fs \<Longrightarrow>
    search_ends os (Suc n) c le o1 (Ok (fs, next_steering_port c)) o2"
  "bind_sockets os c o1 = (Err e, o2) \<Longrightarrow> e \<noteq> CoreIo AddrInUse \<Longrightarrow>
    search_ends os (Suc n) c le o1 (Err e) o2"
  unfolding search_ends_def
  by (auto simp del: in_use_run.simps(2) intro!: exI [of _ 0] exI [of _ o1])

lemma search_ends_later:
  assumes used: "bind_sockets os c o1 = (Err (CoreIo AddrInUse), o2)"
    and rest: "search_ends os n (next_steering_port c) (Some AddrInUse) o2 r o'"
    and zero: "n = 0 \<Longrightarrow> o' = o2"
  shows "search_ends os (Suc n) c le o1 r o'"
proof -
  have step: "in_use_run os (Suc k) c o1 = in_use_run os k (next_steering_port c) o2"
    "(next_steering_port ^^ Suc k) c = (next_steering_port ^^ k) (next_steering_port c)" for k
    using used by (simp_all add: funpow_swap1)
  show ?thesis
  proof (cases r)
    case (Ok p)
    then show ?thesis using rest unfolding search_ends_def
      by (auto simp del: funpow.simps in_use_run.simps split: prod.splits) (metis Suc_less_eq step)
  next
    case (Err e)
    then consider "n = 0" "e = CoreIo AddrInUse" | "e = CoreIo AddrInUse" "in_use_run os (Suc n) c o1 = Some o'"
      | "e \<noteq> CoreIo AddrInUse" "\<exists>k ok. k < n \<and> in_use_run os (Suc k) c o1 = Some ok \<and>
          bind_sockets os ((next_steering_port ^^ Suc k) c) ok = (Err e, o')"
      using rest unfolding search_ends_def step by auto
    then show ?thesis
    proof cases
      case 1
      then show ?thesis using Err used zero by (simp add: search_ends_def)
    next
      case 2
      then show ?thesis using Err by (simp add: search_ends_def del: in_use_run.simps)
    next
      case 3
      then obtain k ok where "k < n" "in_use_run os (Suc k) c o1 = Some ok"
          "bind_sockets os ((next_steering_port ^^ Suc k) c) ok = (Err e, o')"
        by blast
      with 3(1) show ?thesis unfolding search_ends_def Err res.case
        by (intro disjI2 conjI exI [of _ "Suc k"] exI [of _ ok]) simp_all
    qed
  qed (use rest in \<open>simp add: search_ends_def\<close>)
qed

lemma try_ports_ends:
  "try_ports os n c le o1 = (r, o') \<Longrightarrow> search_ends os n c le o1 r o' \<and> (n = 0 \<longrightarrow> o' = o1)"
proof (induction n arbitrary: c le o1)
  case 0
  then show ?case by (auto simp: search_ends_def)
next
  case (Suc n)
  obtain r2 o2 where b: "bind_sockets os c o1 = (r2, o2)"
      "(\<exists>fs. r2 = Ok fs \<and> sockets_on c fs) \<or> (\<exists>e. r2 = Err e)"
    using bind_sockets_cases [of os c o1] by (elim exE conjE)
  from b(2) consider (bound) fs where "r2 = Ok fs" "sockets_on c fs"
    | (used) "r2 = Err (CoreIo AddrInUse)" | (failed) e where "r2 = Err e" "e \<noteq> CoreIo AddrInUse"
    by blast
  then show ?case
  proof cases
    case used
    then have "try_ports os n (next_steering_port c) (Some AddrInUse) o2 = (r, o')" using Suc.prems b(1) by simp
    from Suc.IH [OF this] show ?thesis using search_ends_later [OF b(1) [unfolded used]] by blast
  qed (use Suc.prems b(1) search_ends_now in auto)
qed

lemmas try_ports_spec = try_ports_ends [THEN conjunct1, unfolded search_ends_def]

text \<open>
  C40: the search for a new source port starts after the current one (or where the last
  search stopped), skips only ports in use, and returns sockets bound to the first free
  one with its successor as the next start; it fails with the address in use only after
  trying every port of the dynamic range exactly once, and with any other error at once.
\<close>

theorem bind_next_steering_socket_spec:
  assumes "next_port = 0 \<or> steering_port next_port"
    and "c = (if next_port = 0 then next_steering_port current_port else next_port)"
  shows "(\<forall>p. steering_port p \<longrightarrow> (\<exists>!k. k < STEERING_PORT_COUNT \<and> (next_steering_port ^^ k) c = p)) \<and>
    (case bind_next_steering_socket os next_port current_port o1 of (r, o') \<Rightarrow>
      case r of
        Ok (fs, port) \<Rightarrow> \<exists>k ok. k < STEERING_PORT_COUNT \<and> in_use_run os k c o1 = Some ok \<and>
          bind_sockets os ((next_steering_port ^^ k) c) ok = (Ok fs, o') \<and>
          sockets_on ((next_steering_port ^^ k) c) fs \<and>
          port = (next_steering_port ^^ Suc k) c \<and> steering_port port
      | Err e \<Rightarrow>
          if e = CoreIo AddrInUse then in_use_run os STEERING_PORT_COUNT c o1 = Some o'
          else \<exists>k ok. k < STEERING_PORT_COUNT \<and> in_use_run os k c o1 = Some ok \<and>
            bind_sockets os ((next_steering_port ^^ k) c) ok = (Err e, o')
      | Panic \<Rightarrow> False)"
proof -
  have c: "steering_port c" using assms next_steering_port_range by auto
  have pos: "0 < STEERING_PORT_COUNT" by (simp add: STEERING_PORT_COUNT_def)
  obtain r o' where t: "try_ports os STEERING_PORT_COUNT c None o1 = (r, o')" by force
  have b: "bind_next_steering_socket os next_port current_port o1 = (r, o')"
    using t assms(2) by (simp add: bind_next_steering_socket_def)
  note spec = try_ports_spec [OF t]
  show ?thesis
    unfolding b prod.case
    using ports.meets_all [OF c] spec pos ports.walk_member [OF c]
    by (cases r) (auto simp del: funpow.simps)
qed

lemma try_ports_first:
  "bind_sockets os c o1 = (Ok fs, o2) \<Longrightarrow> 0 < n \<Longrightarrow> try_ports os n c e o1 = (Ok (fs, next_steering_port c), o2)"
  by (cases n) simp_all

theorem bind_next_steering_socket_spec_witness:
  "bind_next_steering_socket (\<lambda>o1 call. (Inr (SocketV4 0 0), o1)) 0 65535 () =
     (Ok (\<lparr>fs_v4 = Some \<lparr>sock_ipv6 = False, sock_port = 49152\<rparr>,
           fs_v6 = Some \<lparr>sock_ipv6 = True, sock_port = 49152\<rparr>, fs_v6_first = False\<rparr>, 49153), ()) \<and>
   (\<exists>!k. k < STEERING_PORT_COUNT \<and> (next_steering_port ^^ k) 49152 = 65535)"
proof -
  let ?os = "\<lambda>o1 call. (Inr (SocketV4 0 0), o1)"
  let ?fs = "\<lparr>fs_v4 = Some \<lparr>sock_ipv6 = False, sock_port = 49152\<rparr>,
           fs_v6 = Some \<lparr>sock_ipv6 = True, sock_port = 49152\<rparr>, fs_v6_first = False\<rparr>"
  have "bind_sockets ?os 49152 () = (Ok ?fs, ())"
    by (simp add: bind_sockets_def bind_udp_socket_for_family_def is_addr_in_use_def Let_def)
  from try_ports_first [OF this, of STEERING_PORT_COUNT None]
  have "try_ports ?os STEERING_PORT_COUNT 49152 None () = (Ok (?fs, next_steering_port 49152), ())"
    by (simp add: STEERING_PORT_COUNT_def)
  then have "bind_next_steering_socket ?os 0 65535 () = (Ok (?fs, 49153), ())"
    by (simp add: bind_next_steering_socket_def next_steering_port_def STEERING_PORT_MIN_def)
  moreover have "steering_port 65535" "next_steering_port 65535 = 49152"
    by (simp_all add: steering_port_unat next_steering_port_def STEERING_PORT_MIN_def)
  ultimately show ?thesis
    using bind_next_steering_socket_spec [of 0 49152 65535 "\<lambda>o1 call. (Inr (SocketV4 0 0), o1)" "()"]
    by simp
qed

section \<open>Both families are served\<close>

text \<open>
  A client whose host has both families never starves one: of two consecutive
  polls with datagrams waiting on both sockets, one takes from each.
\<close>

lemma poll_recv_fair:
  assumes "fs_v4 fs = Some a" "fs_v6 fs = Some b" "ready a = Some x" "ready b = Some y"
    and "ready' a = Some x'" "ready' b = Some y'"
  shows "case poll_recv fs ready of (r, fs1) \<Rightarrow> case poll_recv fs1 ready' of (r', fs2) \<Rightarrow>
    fs2 = fs \<and> (if fs_v6_first fs then r = Some y \<and> r' = Some x' else r = Some x \<and> r' = Some y')"
  using assms by (simp add: poll_recv_def Let_def List.map_filter_simps)

section \<open>Leaving a port\<close>

text \<open>
  A port is taken when binding it again, in one of the families, always finds the address
  in use, as for the port of a socket that is still held.  The search does not find it.
\<close>

definition port_taken :: "'o os \<Rightarrow> u16 \<Rightarrow> bool" where
  "port_taken os port \<longleftrightarrow> (\<exists>ipv6. \<forall>o1. is_addr_in_use (fst (bind_udp_socket_for_family os port ipv6 o1)))"

lemma sockets_on_unique: "sockets_on p fs \<Longrightarrow> sockets_on q fs \<Longrightarrow> p = q"
  by (auto simp: sockets_on_def)

lemma try_ports_bound:
  "try_ports os n c e o1 = (Ok (fs, port), o') \<Longrightarrow> \<exists>q oa ob. bind_sockets os q oa = (Ok fs, ob)"
proof (induction n arbitrary: c e o1)
  case (Suc n)
  then show ?case
    by (cases "bind_sockets os c o1"; cases "fst (bind_sockets os c o1)") (auto split: if_splits)
qed simp

lemma taken_port_refused:
  assumes "port_taken os p"
  shows "fst (bind_sockets os p o1) \<noteq> Ok fs"
proof -
  obtain ipv6 where taken: "is_addr_in_use (fst (bind_udp_socket_for_family os p ipv6 o1))" for o1
    using assms by (auto simp: port_taken_def)
  obtain v4 o2 where 4: "bind_udp_socket_for_family os p False o1 = (v4, o2)" by force
  obtain v6 o3 where 6: "bind_udp_socket_for_family os p True o2 = (v6, o3)" by force
  have "is_addr_in_use v4 \<or> is_addr_in_use v6"
    using taken [of o1] taken [of o2] 4 6 by (cases ipv6) simp_all
  then show ?thesis by (simp add: bind_sockets_def 4 6 Let_def)
qed

lemma bind_next_leaves:
  assumes "bind_next_steering_socket os n c o1 = (Ok (fs, port), o')"
    and "port_taken os p"
  shows "\<not> sockets_on p fs"
proof -
  obtain q oa ob where "bind_sockets os q oa = (Ok fs, ob)"
    using assms(1) try_ports_bound by (metis bind_next_steering_socket_def)
  then have "sockets_on q fs" "q \<noteq> p"
    using bind_sockets_cases [of os q oa] taken_port_refused [OF assms(2), of oa fs] by auto
  then show ?thesis using sockets_on_unique by blast
qed

end
