(* ===== verification/Steering.thy ===== *)
theory Steering
  imports Sockets
begin

text \<open>
  Source-port steering of \<open>src/client.rs\<close>: the rebind that a response with steering
  feedback zero asks for, and the protocol by which concurrent requests, steering tasks
  and the response router agree on it (coalescing by a pending flag, draining of active
  requests, the socket epoch the router acknowledges).
\<close>

section \<open>One rebind\<close>

text \<open>The counts are unbounded: \<open>2 ^ 64\<close> events are out of reach.\<close>

record steering_stats =
  feedback_zero_count :: nat
  port_changes :: nat
  last_port :: "u16 option"
  next_port :: u16

definition default_steering_stats :: steering_stats where
  "default_steering_stats =
    \<lparr>feedback_zero_count = 0, port_changes = 0, last_port = None, next_port = 0\<rparr>"

record steering_state =
  sockets :: family_sockets
  socket_epoch :: u64
  steer_stats :: steering_stats

text \<open>
  The body of \<open>apply_steering_feedback\<close> under its locks.  \<open>router_alive\<close> tells whether
  the response router acknowledges the new epoch or has stopped.
\<close>

definition rebind ::
  "'o os \<Rightarrow> bool \<Rightarrow> steering_state \<Rightarrow> 'o \<Rightarrow> (unit, core_error) res \<times> steering_state \<times> 'o"
where
  "rebind os router_alive s o1 =
    (let stats = steer_stats s; stats = stats\<lparr>feedback_zero_count := feedback_zero_count stats + 1\<rparr>;
         s = s\<lparr>steer_stats := stats\<rparr>;
         (current, o2) = local_addr os (sockets s) o1
     in case current of Err e \<Rightarrow> (Err e, s, o2) | Panic \<Rightarrow> (Panic, s, o2)
     | Ok current_addr \<Rightarrow>
         let (bound, o3) = bind_next_steering_socket os (next_port stats) (socket_port current_addr) o2
         in case bound of Err e \<Rightarrow> (Err e, s, o3) | Panic \<Rightarrow> (Panic, s, o3)
         | Ok (new_socket, next) \<Rightarrow>
             let stats = stats\<lparr>next_port := next\<rparr>;
                 s = s\<lparr>sockets := new_socket, socket_epoch := socket_epoch s + 1, steer_stats := stats\<rparr>;
                 (actual, o4) = local_addr os new_socket o3
             in case actual of Err e \<Rightarrow> (Err e, s, o4) | Panic \<Rightarrow> (Panic, s, o4)
             | Ok actual_addr \<Rightarrow>
                 if \<not> router_alive
                 then (Err (CoreIo (OtherIo ''response router stopped during source-port steering'')), s, o4)
                 else
                   let actual_port = socket_port actual_addr;
                       stats = (if last_port stats \<noteq> Some actual_port
                                then stats\<lparr>port_changes := port_changes stats + 1\<rparr> else stats)
                   in (Ok (), s\<lparr>steer_stats := stats\<lparr>last_port := Some actual_port\<rparr>\<rparr>, o4))"

text \<open>The early return, and the rebind when no other task interferes.\<close>

definition apply_steering_feedback ::
  "'o os \<Rightarrow> bool \<Rightarrow> bool \<Rightarrow> bool \<Rightarrow> rate_limit_result \<Rightarrow> steering_state \<Rightarrow> 'o
   \<Rightarrow> (unit, core_error) res \<times> steering_state \<times> 'o"
where
  "apply_steering_feedback os router_alive steering_feedback ignore_steering_feedback result s o1 =
    (if \<not> steering_feedback \<or> rl_steering_feedback result \<or> ignore_steering_feedback
     then (Ok (), s, o1)
     else rebind os router_alive s o1)"

section \<open>The protocol between tasks\<close>

text \<open>
  Where a task stands: outside, holding the request-activity read guard, about to set
  the pending flag, waiting for the apply lock, past the lock, waiting for the write
  guard, past the swap of the flag and rebinding, and waiting for the router after the
  socket has been replaced.
\<close>

datatype steer_pc =
    Outside | Requesting | Advised | AwaitingApply | HoldingApply | AwaitingWrite | Rebinding | AwaitingRouter

text \<open>
  \<open>epoch\<close> numbers the shared socket; \<open>router_epoch\<close> is the socket the router reads
  from and \<open>ready_epoch\<close> the one it has published.  The last three fields record
  history: the rebinds begun, how many of them a task's advisory had seen, and the
  socket a request started on.
\<close>

record steer_system =
  pcs :: "nat \<Rightarrow> steer_pc"
  steering_pending :: bool
  apply_lock :: "nat option"
  activity_writer :: "nat option"
  epoch :: nat
  router_epoch :: nat
  ready_epoch :: nat
  rebinds :: nat
  advised_at :: "nat \<Rightarrow> nat"
  started_on :: "nat \<Rightarrow> nat"

definition steer_init :: steer_system where
  "steer_init = \<lparr>pcs = (\<lambda>_. Outside), steering_pending = False, apply_lock = None,
     activity_writer = None, epoch = 0, router_epoch = 0, ready_epoch = 0, rebinds = 0,
     advised_at = (\<lambda>_. 0), started_on = (\<lambda>_. 0)\<rparr>"

inductive steer_step :: "steer_system \<Rightarrow> steer_system \<Rightarrow> bool" where
  begin_request: "\<lbrakk>pcs s i = Outside; activity_writer s = None\<rbrakk> \<Longrightarrow>
    steer_step s (s\<lparr>pcs := (pcs s)(i := Requesting), started_on := (started_on s)(i := epoch s)\<rparr>)"
| end_request: "pcs s i = Requesting \<Longrightarrow> steer_step s (s\<lparr>pcs := (pcs s)(i := Outside)\<rparr>)"
| advise: "pcs s i = Requesting \<Longrightarrow> steer_step s (s\<lparr>pcs := (pcs s)(i := Advised)\<rparr>)"
| set_pending: "pcs s i = Advised \<Longrightarrow>
    steer_step s (s\<lparr>pcs := (pcs s)(i := AwaitingApply), steering_pending := True,
      advised_at := (advised_at s)(i := rebinds s)\<rparr>)"
| take_apply: "\<lbrakk>pcs s i = AwaitingApply; apply_lock s = None\<rbrakk> \<Longrightarrow>
    steer_step s (s\<lparr>pcs := (pcs s)(i := HoldingApply), apply_lock := Some i\<rparr>)"
| already_applied: "\<lbrakk>pcs s i = HoldingApply; \<not> steering_pending s\<rbrakk> \<Longrightarrow>
    steer_step s (s\<lparr>pcs := (pcs s)(i := Outside), apply_lock := None\<rparr>)"
| still_pending: "\<lbrakk>pcs s i = HoldingApply; steering_pending s\<rbrakk> \<Longrightarrow>
    steer_step s (s\<lparr>pcs := (pcs s)(i := AwaitingWrite)\<rparr>)"
| take_write_and_swap: "\<lbrakk>pcs s i = AwaitingWrite; activity_writer s = None;
     \<forall>j. pcs s j \<noteq> Requesting; steering_pending s\<rbrakk> \<Longrightarrow>
    steer_step s (s\<lparr>pcs := (pcs s)(i := Rebinding), activity_writer := Some i, steering_pending := False,
      rebinds := rebinds s + 1\<rparr>)"
| swap_finds_nothing: "\<lbrakk>pcs s i = AwaitingWrite; activity_writer s = None;
     \<forall>j. pcs s j \<noteq> Requesting; \<not> steering_pending s\<rbrakk> \<Longrightarrow>
    steer_step s (s\<lparr>pcs := (pcs s)(i := Outside), apply_lock := None\<rparr>)"
| replace_socket: "pcs s i = Rebinding \<Longrightarrow>
    steer_step s (s\<lparr>pcs := (pcs s)(i := AwaitingRouter), epoch := epoch s + 1\<rparr>)"
| router_observes: "steer_step s (s\<lparr>router_epoch := epoch s\<rparr>)"
| router_publishes: "steer_step s (s\<lparr>ready_epoch := router_epoch s\<rparr>)"
| router_acknowledged: "\<lbrakk>pcs s i = AwaitingRouter; ready_epoch s = epoch s\<rbrakk> \<Longrightarrow>
    steer_step s (s\<lparr>pcs := (pcs s)(i := Outside), apply_lock := None, activity_writer := None\<rparr>)"

text \<open>
  What may go wrong: a waiting task is dropped by its caller, the rebind fails or is
  dropped, the router stops; the guards are released by their destructors.
\<close>

inductive steer_fault :: "steer_system \<Rightarrow> steer_system \<Rightarrow> bool" where
  dropped_before_lock: "pcs s i = AwaitingApply \<Longrightarrow> steer_fault s (s\<lparr>pcs := (pcs s)(i := Outside)\<rparr>)"
| dropped_with_lock: "pcs s i = AwaitingWrite \<Longrightarrow>
    steer_fault s (s\<lparr>pcs := (pcs s)(i := Outside), apply_lock := None\<rparr>)"
| rebind_failed: "pcs s i = Rebinding \<Longrightarrow>
    steer_fault s (s\<lparr>pcs := (pcs s)(i := Outside), apply_lock := None, activity_writer := None\<rparr>)"
| router_stopped: "pcs s i = AwaitingRouter \<Longrightarrow>
    steer_fault s (s\<lparr>pcs := (pcs s)(i := Outside), apply_lock := None, activity_writer := None\<rparr>)"

inductive steer_reachable :: "steer_system \<Rightarrow> bool" where
  start: "steer_reachable steer_init"
| step: "steer_reachable s \<Longrightarrow> steer_step s t \<Longrightarrow> steer_reachable t"
| fault: "steer_reachable s \<Longrightarrow> steer_fault s t \<Longrightarrow> steer_reachable t"

section \<open>Invariants\<close>

definition holds_apply :: "steer_pc \<Rightarrow> bool" where
  "holds_apply p \<longleftrightarrow> p = HoldingApply \<or> p = AwaitingWrite \<or> p = Rebinding \<or> p = AwaitingRouter"

definition holds_write :: "steer_pc \<Rightarrow> bool" where
  "holds_write p \<longleftrightarrow> p = Rebinding \<or> p = AwaitingRouter"

definition waits :: "steer_pc \<Rightarrow> bool" where
  "waits p \<longleftrightarrow> p = AwaitingApply \<or> p = HoldingApply \<or> p = AwaitingWrite"

lemma pc_simps [simp]:
  "holds_apply HoldingApply" "holds_apply AwaitingWrite" "holds_apply Rebinding" "holds_apply AwaitingRouter"
  "\<not> holds_apply Outside" "\<not> holds_apply Requesting" "\<not> holds_apply Advised" "\<not> holds_apply AwaitingApply"
  "holds_write Rebinding" "holds_write AwaitingRouter"
  "\<not> holds_write Outside" "\<not> holds_write Requesting" "\<not> holds_write Advised" "\<not> holds_write AwaitingApply"
  "\<not> holds_write HoldingApply" "\<not> holds_write AwaitingWrite"
  "waits AwaitingApply" "waits HoldingApply" "waits AwaitingWrite"
  "\<not> waits Outside" "\<not> waits Requesting" "\<not> waits Advised" "\<not> waits Rebinding" "\<not> waits AwaitingRouter"
  by (simp_all add: holds_apply_def holds_write_def waits_def)

text \<open>The locks are held by the tasks that stand inside them.\<close>

definition locks_agree :: "steer_system \<Rightarrow> bool" where
  "locks_agree s \<longleftrightarrow> (\<forall>i. (apply_lock s = Some i) = holds_apply (pcs s i)) \<and>
    (\<forall>i. (activity_writer s = Some i) = holds_write (pcs s i))"

text \<open>Active requests exclude a rebind and use the current socket.\<close>

definition requests_current :: "steer_system \<Rightarrow> bool" where
  "requests_current s \<longleftrightarrow>
    (\<forall>i. pcs s i = Requesting \<longrightarrow> activity_writer s = None \<and> started_on s i = epoch s)"

text \<open>An advisory that waits is pending or was taken up by a rebind begun after it.\<close>

definition advisories_kept :: "steer_system \<Rightarrow> bool" where
  "advisories_kept s \<longleftrightarrow> (\<forall>i. advised_at s i \<le> rebinds s) \<and>
    (\<forall>i. waits (pcs s i) \<longrightarrow> steering_pending s \<or> advised_at s i < rebinds s)"

definition epochs_ordered :: "steer_system \<Rightarrow> bool" where
  "epochs_ordered s \<longleftrightarrow> ready_epoch s \<le> router_epoch s \<and> router_epoch s \<le> epoch s"

definition finitely_active :: "steer_system \<Rightarrow> bool" where
  "finitely_active s \<longleftrightarrow> finite {i. pcs s i \<noteq> Outside}"

lemmas steer_inv_defs = locks_agree_def requests_current_def advisories_kept_def finitely_active_def

lemma active_update:
  "finite {j. pcs s j \<noteq> Outside} \<Longrightarrow> finite {j. ((pcs s)(i := p)) j \<noteq> Outside}"
  by (rule finite_subset [of _ "insert i {j. pcs s j \<noteq> Outside}"]) auto

lemma locks_agree_step: "steer_step s t \<or> steer_fault s t \<Longrightarrow> locks_agree s \<Longrightarrow> locks_agree t"
  unfolding locks_agree_def
  by (elim disjE; erule steer_step.cases steer_fault.cases; clarsimp; 
      metis pc_simps option.inject option.distinct(1))

lemma requests_current_step:
  "steer_step s t \<or> steer_fault s t \<Longrightarrow> locks_agree s \<Longrightarrow> requests_current s \<Longrightarrow> requests_current t"
  unfolding requests_current_def locks_agree_def
  by (elim disjE; erule steer_step.cases steer_fault.cases; clarsimp; metis pc_simps option.distinct(1))

lemma advisories_kept_step:
  "steer_step s t \<or> steer_fault s t \<Longrightarrow> advisories_kept s \<Longrightarrow> advisories_kept t"
  unfolding advisories_kept_def
  by (elim disjE; erule steer_step.cases steer_fault.cases; clarsimp; metis pc_simps le_SucI less_Suc_eq_le less_SucI order_refl)

lemma finitely_active_step: "steer_step s t \<or> steer_fault s t \<Longrightarrow> finitely_active s \<Longrightarrow> finitely_active t"
  unfolding finitely_active_def
  by (elim disjE; erule steer_step.cases steer_fault.cases) (simp_all add: active_update [simplified])

lemma epochs_ordered_step:
  "steer_step s t \<or> steer_fault s t \<Longrightarrow> epochs_ordered s \<Longrightarrow> epochs_ordered t"
  unfolding epochs_ordered_def
  by (elim disjE; erule steer_step.cases steer_fault.cases) simp_all

definition steer_inv :: "steer_system \<Rightarrow> bool" where
  "steer_inv s \<longleftrightarrow> locks_agree s \<and> requests_current s \<and> advisories_kept s \<and> epochs_ordered s \<and> finitely_active s"

lemma steer_inv_init: "steer_inv steer_init"
  by (simp add: steer_inv_def steer_inv_defs epochs_ordered_def steer_init_def)

lemma steer_inv_step: "steer_step s t \<or> steer_fault s t \<Longrightarrow> steer_inv s \<Longrightarrow> steer_inv t"
  unfolding steer_inv_def
  using locks_agree_step requests_current_step advisories_kept_step epochs_ordered_step finitely_active_step
  by metis

lemma steer_reachable_inv: "steer_reachable s \<Longrightarrow> steer_inv s"
  by (induction rule: steer_reachable.induct) (blast intro: steer_inv_init steer_inv_step)+

section \<open>Safety\<close>

abbreviation steer_run :: "steer_system \<Rightarrow> steer_system \<Rightarrow> bool" where
  "steer_run \<equiv> steer_step\<^sup>*\<^sup>*"

lemma steer_run_reachable: "steer_run s t \<Longrightarrow> steer_reachable s \<Longrightarrow> steer_reachable t"
  by (induction rule: rtranclp_induct) (auto intro: steer_reachable.step)

text \<open>Without faults the router reads from the shared socket whenever no task waits for it.\<close>

definition router_follows :: "steer_system \<Rightarrow> bool" where
  "router_follows s \<longleftrightarrow> (\<forall>i. pcs s i \<noteq> AwaitingRouter) \<longrightarrow> router_epoch s = epoch s"

lemma router_follows_step: "steer_step s t \<Longrightarrow> epochs_ordered s \<Longrightarrow> router_follows s \<Longrightarrow> router_follows t"
  unfolding router_follows_def epochs_ordered_def
  by (erule steer_step.cases; clarsimp; metis steer_pc.distinct le_antisym)

lemma router_follows_run: "steer_run steer_init s \<Longrightarrow> router_follows s"
proof (induction rule: rtranclp_induct)
  case base
  show ?case by (simp add: router_follows_def steer_init_def)
next
  case (step s t)
  have "epochs_ordered s"
    using steer_reachable_inv [OF steer_run_reachable [OF step(1) steer_reachable.start]] by (simp add: steer_inv_def)
  with step show ?case by (auto intro: router_follows_step)
qed

text \<open>
  C23: a request never loses its socket: while any request is active the shared socket is
  the one it started on, and no task is between taking the write guard and the router's
  acknowledgement; as long as no task was dropped or failed, that socket is also the one
  the router reads responses from.
\<close>

theorem requests_keep_their_socket:
  assumes "steer_reachable s" "pcs s i = Requesting"
  shows "started_on s i = epoch s \<and> (\<forall>j. pcs s j \<noteq> Rebinding \<and> pcs s j \<noteq> AwaitingRouter) \<and>
    (steer_run steer_init s \<longrightarrow> router_epoch s = started_on s i)"
proof -
  have "locks_agree s" "requests_current s"
    using steer_reachable_inv [OF assms(1)] by (simp_all add: steer_inv_def)
  then have "started_on s i = epoch s" "\<forall>j. pcs s j \<noteq> Rebinding \<and> pcs s j \<noteq> AwaitingRouter"
    using assms(2) unfolding locks_agree_def requests_current_def by (metis option.distinct(1) pc_simps)+
  then show ?thesis using router_follows_run [of s] by (simp add: router_follows_def)
qed

text \<open>
  C24: coalescing loses no advisory: a task that finds the pending flag cleared, under the
  apply lock or after draining the requests, gives up only because a rebind began after
  it had set the flag.
\<close>

theorem no_advisory_lost:
  assumes "steer_reachable s" "pcs s i = HoldingApply \<or> pcs s i = AwaitingWrite" "\<not> steering_pending s"
  shows "advised_at s i < rebinds s"
proof -
  have "advisories_kept s" using steer_reachable_inv [OF assms(1)] by (simp add: steer_inv_def)
  then show ?thesis using assms(2,3) unfolding advisories_kept_def by (metis pc_simps)
qed

text \<open>
  When the rebinding task sees its epoch published, the router reads from the new
  socket: no later response can be waiting on a socket that nobody polls.
\<close>

lemma acknowledged_router_current:
  assumes "steer_reachable s" "ready_epoch s = epoch s"
  shows "router_epoch s = epoch s"
proof -
  have "epochs_ordered s" using steer_reachable_inv [OF assms(1)] by (simp add: steer_inv_def)
  then show ?thesis using assms(2) by (simp add: epochs_ordered_def)
qed

section \<open>Progress\<close>

text \<open>Steps by which no request starts, and what task \<open>i\<close> can do by them while every other task stays.\<close>

definition finishing_step :: "steer_system \<Rightarrow> steer_system \<Rightarrow> bool" where
  "finishing_step s t \<longleftrightarrow> steer_step s t \<and> (\<forall>i. pcs t i = Requesting \<longrightarrow> pcs s i = Requesting)"

lemma finishing_run: "finishing_step\<^sup>*\<^sup>* s t \<Longrightarrow> steer_run s t"
  by (erule mono_rtranclp [rule_format, rotated]) (simp add: finishing_step_def)

definition can_leave :: "steer_system \<Rightarrow> nat \<Rightarrow> bool" where
  "can_leave s i \<longleftrightarrow> (\<exists>t. finishing_step\<^sup>*\<^sup>* s t \<and> pcs t = (pcs s)(i := Outside))"

lemma can_leave_direct: "steer_step s t \<Longrightarrow> pcs t = (pcs s)(i := Outside) \<Longrightarrow> can_leave s i"
  unfolding can_leave_def by (intro exI conjI, rule r_into_rtranclp) (auto simp: finishing_step_def)

lemma can_leave_step:
  assumes "steer_step s t" "can_leave t i" "pcs t = (pcs s)(i := p)" "p \<noteq> Requesting"
  shows "can_leave s i"
proof -
  have "finishing_step s t" using assms by (auto simp: finishing_step_def)
  moreover obtain u where "finishing_step\<^sup>*\<^sup>* t u" "pcs u = (pcs t)(i := Outside)"
    using assms(2) unfolding can_leave_def by blast
  ultimately show ?thesis unfolding can_leave_def using assms(3) converse_rtranclp_into_rtranclp by fastforce
qed

lemma leave_requesting: "pcs s i = Requesting \<Longrightarrow> can_leave s i"
  by (rule can_leave_direct, rule end_request) simp_all

lemma leave_router: "pcs s i = AwaitingRouter \<Longrightarrow> can_leave s i"
proof -
  assume pc: "pcs s i = AwaitingRouter"
  let ?s1 = "s\<lparr>router_epoch := epoch s\<rparr>"
  let ?s2 = "?s1\<lparr>ready_epoch := router_epoch ?s1\<rparr>"
  have "can_leave ?s2 i"
    by (rule can_leave_direct, rule router_acknowledged [where i = i]) (simp_all add: pc)
  then have "can_leave ?s1 i" by (rule can_leave_step [OF router_publishes, where p = AwaitingRouter]) (simp_all add: pc fun_upd_idem)
  then show ?thesis by (rule can_leave_step [OF router_observes, where p = AwaitingRouter]) (simp_all add: pc fun_upd_idem)
qed

lemma leave_rebinding: "pcs s i = Rebinding \<Longrightarrow> can_leave s i"
  by (rule can_leave_step [OF replace_socket leave_router, where p = AwaitingRouter]) simp_all

lemma leave_write:
  "pcs s i = AwaitingWrite \<Longrightarrow> activity_writer s = None \<Longrightarrow> \<forall>j. pcs s j \<noteq> Requesting \<Longrightarrow> can_leave s i"
proof (cases "steering_pending s")
  case True
  assume "pcs s i = AwaitingWrite" "activity_writer s = None" "\<forall>j. pcs s j \<noteq> Requesting"
  then show ?thesis using True
    by (intro can_leave_step [OF take_write_and_swap leave_rebinding, where p = Rebinding]) simp_all
next
  case False
  assume "pcs s i = AwaitingWrite" "activity_writer s = None" "\<forall>j. pcs s j \<noteq> Requesting"
  then show ?thesis using False
    by (intro can_leave_direct [OF swap_finds_nothing]) simp_all
qed

lemma leave_holding:
  "pcs s i = HoldingApply \<Longrightarrow> activity_writer s = None \<Longrightarrow> \<forall>j. pcs s j \<noteq> Requesting \<Longrightarrow> can_leave s i"
proof (cases "steering_pending s")
  case True
  assume "pcs s i = HoldingApply" "activity_writer s = None" "\<forall>j. pcs s j \<noteq> Requesting"
  then show ?thesis using True
    by (intro can_leave_step [OF still_pending leave_write, where p = AwaitingWrite]) simp_all
next
  case False
  assume "pcs s i = HoldingApply"
  then show ?thesis using False by (intro can_leave_direct [OF already_applied]) simp_all
qed

lemma leave_apply:
  "pcs s i = AwaitingApply \<Longrightarrow> apply_lock s = None \<Longrightarrow> activity_writer s = None \<Longrightarrow>
    \<forall>j. pcs s j \<noteq> Requesting \<Longrightarrow> can_leave s i"
  by (rule can_leave_step [OF take_apply leave_holding, where p = HoldingApply]) simp_all

lemma leave_advised:
  "pcs s i = Advised \<Longrightarrow> apply_lock s = None \<Longrightarrow> activity_writer s = None \<Longrightarrow>
    \<forall>j. pcs s j \<noteq> Requesting \<Longrightarrow> can_leave s i"
  by (rule can_leave_step [OF set_pending leave_apply, where p = AwaitingApply]) simp_all

lemma someone_can_leave:
  assumes inv: "steer_inv s" and active: "pcs s i \<noteq> Outside"
  shows "\<exists>j. pcs s j \<noteq> Outside \<and> can_leave s j"
proof (cases "\<exists>j. pcs s j = Requesting")
  case True
  then obtain j where "pcs s j = Requesting" by blast
  then show ?thesis using leave_requesting [of s j] by (intro exI [of _ j]) simp
next
  case none: False
  have locks: "(apply_lock s = Some j) = holds_apply (pcs s j)" "(activity_writer s = Some j) = holds_write (pcs s j)" for j
    using inv by (simp_all add: steer_inv_def locks_agree_def)
  have writer: "activity_writer s = None" if "\<not> holds_write (pcs s j)" "holds_apply (pcs s j)" for j
  proof (rule ccontr)
    assume "activity_writer s \<noteq> None"
    then obtain k where "activity_writer s = Some k" by blast
    then have "holds_write (pcs s k)" using locks by simp
    then have "apply_lock s = Some k" using locks(1) by (cases "pcs s k") simp_all
    then show False using locks that by (metis option.inject \<open>holds_write (pcs s k)\<close>)
  qed
  show ?thesis
  proof (cases "apply_lock s")
    case (Some j)
    then have h: "holds_apply (pcs s j)" using locks(1) by simp
    then have "can_leave s j"
      using none leave_router leave_rebinding leave_write leave_holding writer [of j]
      by (cases "pcs s j") simp_all
    then show ?thesis using h by (metis pc_simps)
  next
    case None
    then have "\<not> holds_apply (pcs s j)" for j using locks(1) by (metis option.distinct(1))
    then have nw: "\<not> holds_write (pcs s j)" and i: "\<not> holds_apply (pcs s i)" for j
      unfolding holds_apply_def holds_write_def by blast+
    then have "activity_writer s = None" using locks(2) by (metis option.exhaust)
    then have "can_leave s i"
      using None none active i leave_apply leave_advised by (cases "pcs s i") simp_all
    then show ?thesis using active by blast
  qed
qed

definition all_outside :: "steer_system \<Rightarrow> bool" where
  "all_outside s \<longleftrightarrow> (\<forall>i. pcs s i = Outside)"

definition active_tasks :: "steer_system \<Rightarrow> nat" where
  "active_tasks s = card {i. pcs s i \<noteq> Outside}"

interpretation steering: progress_system finishing_step steer_inv all_outside active_tasks
proof
  fix s t
  assume "steer_inv s" "finishing_step s t"
  then show "steer_inv t" using steer_inv_step unfolding finishing_step_def by blast
next
  fix s
  assume inv: "steer_inv s" and "\<not> all_outside s"
  then obtain i where "pcs s i \<noteq> Outside" by (auto simp: all_outside_def)
  from someone_can_leave [OF inv this] obtain j t
    where j: "pcs s j \<noteq> Outside" and t: "finishing_step\<^sup>*\<^sup>* s t" "pcs t = (pcs s)(j := Outside)"
    unfolding can_leave_def by blast
  have "{i. pcs t i \<noteq> Outside} \<subset> {i. pcs s i \<noteq> Outside}" using t(2) j by auto
  moreover have "finite {i. pcs s i \<noteq> Outside}" using inv by (simp add: steer_inv_def finitely_active_def)
  ultimately have "active_tasks t < active_tasks s" unfolding active_tasks_def by (intro psubset_card_mono)
  then show "\<exists>t. finishing_step\<^sup>*\<^sup>* s t \<and> active_tasks t < active_tasks s" using t(1) by blast
qed

text \<open>
  The protocol never blocks: whatever has happened, dropped tasks and failed rebinds
  included, the tasks that are inside can all finish, by steps of the protocol alone.
\<close>

lemma steering_never_deadlocks:
  assumes "steer_reachable s"
  shows "\<exists>t. steer_run s t \<and> (\<forall>i. pcs t i = Outside)"
  using steering.becomes_quiet [OF steer_reachable_inv [OF assms]] finishing_run by (auto simp: all_outside_def)

text \<open>Two tasks are advised while a third request runs, and the first one rebinds.\<close>

lemma two_advised:
  "\<exists>s. steer_reachable s \<and> pcs s = (\<lambda>_. Outside)(0 := AwaitingApply, 1 := AwaitingApply) \<and>
    apply_lock s = None \<and> activity_writer s = None \<and> epoch s = 0 \<and> steering_pending s"
proof -
  note reach = steer_reachable.step
  define s1 where "s1 = (let s = steer_init in s\<lparr>pcs := (pcs s)(0 := Requesting), started_on := (started_on s)(0 := epoch s)\<rparr>)"
  have 1: "steer_reachable s1"
    unfolding s1_def Let_def by (rule reach [OF steer_reachable.start begin_request]) (simp_all add: steer_init_def)
  define s2 where "s2 = s1\<lparr>pcs := (pcs s1)(1 := Requesting), started_on := (started_on s1)(1 := epoch s1)\<rparr>"
  have 2: "steer_reachable s2"
    unfolding s2_def by (rule reach [OF 1 begin_request]) (simp_all add: steer_init_def s1_def)
  define s3 where "s3 = s2\<lparr>pcs := (pcs s2)(0 := Advised)\<rparr>"
  have 3: "steer_reachable s3"
    unfolding s3_def by (rule reach [OF 2 advise]) (simp add: steer_init_def s1_def s2_def)
  define s4 where "s4 = s3\<lparr>pcs := (pcs s3)(1 := Advised)\<rparr>"
  have 4: "steer_reachable s4"
    unfolding s4_def by (rule reach [OF 3 advise]) (simp add: steer_init_def s2_def s3_def)
  define s5 where "s5 = s4\<lparr>pcs := (pcs s4)(0 := AwaitingApply), steering_pending := True, advised_at := (advised_at s4)(0 := rebinds s4)\<rparr>"
  have 5: "steer_reachable s5"
    unfolding s5_def by (rule reach [OF 4 set_pending]) (simp add: s3_def s4_def)
  define s6 where "s6 = s5\<lparr>pcs := (pcs s5)(1 := AwaitingApply), steering_pending := True, advised_at := (advised_at s5)(1 := rebinds s5)\<rparr>"
  have 6: "steer_reachable s6"
    unfolding s6_def by (rule reach [OF 5 set_pending]) (simp add: s4_def s5_def)
  show ?thesis
    by (rule exI [of _ s6]) (use 6 in \<open>auto simp: s6_def s5_def s4_def s3_def s2_def s1_def steer_init_def\<close>)
qed

lemma coalescing_run:
  "\<exists>s. steer_reachable s \<and> pcs s 0 = Outside \<and> pcs s 1 = HoldingApply \<and> \<not> steering_pending s \<and>
    ready_epoch s = epoch s \<and> epoch s = 1"
proof -
  note reach = steer_reachable.step
  obtain s6 where 6: "steer_reachable s6"
    and pcs6: "pcs s6 = (\<lambda>_. Outside)(0 := AwaitingApply, 1 := AwaitingApply)"
    and f6: "apply_lock s6 = None" "activity_writer s6 = None" "epoch s6 = 0" "steering_pending s6"
    using two_advised by blast
  define s7 where "s7 = s6\<lparr>pcs := (pcs s6)(0 := HoldingApply), apply_lock := Some 0\<rparr>"
  have 7: "steer_reachable s7"
    unfolding s7_def by (rule reach [OF 6 take_apply]) (simp_all add: pcs6 f6)
  define s8 where "s8 = s7\<lparr>pcs := (pcs s7)(0 := AwaitingWrite)\<rparr>"
  have 8: "steer_reachable s8"
    unfolding s8_def by (rule reach [OF 7 still_pending]) (simp_all add: s7_def f6)
  define s9 where "s9 = s8\<lparr>pcs := (pcs s8)(0 := Rebinding), activity_writer := Some 0, steering_pending := False, rebinds := rebinds s8 + 1\<rparr>"
  have 9: "steer_reachable s9"
    unfolding s9_def by (rule reach [OF 8 take_write_and_swap]) (simp_all add: s8_def s7_def f6 pcs6)
  define s10 where "s10 = s9\<lparr>pcs := (pcs s9)(0 := AwaitingRouter), epoch := epoch s9 + 1\<rparr>"
  have 10: "steer_reachable s10"
    unfolding s10_def by (rule reach [OF 9 replace_socket]) (simp add: s9_def)
  define s11 where "s11 = s10\<lparr>router_epoch := epoch s10\<rparr>"
  have 11: "steer_reachable s11"
    unfolding s11_def by (rule reach [OF 10 router_observes])
  define s12 where "s12 = s11\<lparr>ready_epoch := router_epoch s11\<rparr>"
  have 12: "steer_reachable s12"
    unfolding s12_def by (rule reach [OF 11 router_publishes])
  define s13 where "s13 = s12\<lparr>pcs := (pcs s12)(0 := Outside), apply_lock := None, activity_writer := None\<rparr>"
  have 13: "steer_reachable s13"
    unfolding s13_def by (rule reach [OF 12 router_acknowledged]) (simp_all add: s12_def s11_def s10_def)
  define s14 where "s14 = s13\<lparr>pcs := (pcs s13)(1 := HoldingApply), apply_lock := Some 1\<rparr>"
  have 14: "steer_reachable s14"
    unfolding s14_def
    by (rule reach [OF 13 take_apply])
      (simp_all add: s13_def s12_def s11_def s10_def s9_def s8_def s7_def pcs6)
  have "pcs s14 0 = Outside" "pcs s14 1 = HoldingApply" "\<not> steering_pending s14"
    "ready_epoch s14 = epoch s14" "epoch s14 = 1"
    by (simp_all add: s14_def s13_def s12_def s11_def s10_def s9_def s8_def s7_def pcs6 f6)
  with 14 show ?thesis by blast
qed

theorem requests_keep_their_socket_witness:
  "\<exists>s. steer_run steer_init s \<and> pcs s 0 = Requesting \<and> started_on s 0 = epoch s \<and> router_epoch s = epoch s"
proof -
  let ?s = "steer_init\<lparr>pcs := (pcs steer_init)(0 := Requesting), started_on := (started_on steer_init)(0 := epoch steer_init)\<rparr>"
  have run: "steer_run steer_init ?s"
    by (rule r_into_rtranclp, rule begin_request) (simp_all add: steer_init_def)
  then have "steer_reachable ?s" by (rule steer_run_reachable [OF _ steer_reachable.start])
  then show ?thesis using requests_keep_their_socket [of ?s 0] run by (intro exI [of _ ?s]) simp
qed

theorem no_advisory_lost_witness:
  "\<exists>s. steer_reachable s \<and> pcs s 1 = HoldingApply \<and> \<not> steering_pending s \<and> advised_at s 1 < rebinds s"
proof -
  obtain s where "steer_reachable s" "pcs s 1 = HoldingApply" "\<not> steering_pending s"
    using coalescing_run by blast
  then show ?thesis using no_advisory_lost [of s 1] by blast
qed

section \<open>The rebind\<close>

definition bound_sockets :: "steering_state \<Rightarrow> bool" where
  "bound_sockets s \<longleftrightarrow> fs_v4 (sockets s) \<noteq> None \<or> fs_v6 (sockets s) \<noteq> None"

definition steering_start_ok :: "steering_state \<Rightarrow> bool" where
  "steering_start_ok s \<longleftrightarrow> next_port (steer_stats s) = 0 \<or> steering_port (next_port (steer_stats s))"

lemma local_addr_cases:
  assumes "fs_v4 fs \<noteq> None \<or> fs_v6 fs \<noteq> None"
  shows "\<exists>r o2. local_addr os fs o1 = (r, o2) \<and> ((\<exists>a. r = Ok a) \<or> (\<exists>e. r = Err e))"
  using assms unfolding local_addr_def by (auto split: option.splits prod.splits sum.splits)

lemma bind_next_cases:
  assumes "from_port = 0 \<or> steering_port from_port"
  shows "\<exists>r o2. bind_next_steering_socket os from_port current o1 = (r, o2) \<and>
    ((\<exists>fs p. r = Ok (fs, next_steering_port p) \<and> steering_port p \<and> sockets_on p fs) \<or> (\<exists>e. r = Err e))"
proof -
  define c where "c = (if from_port = 0 then next_steering_port current else from_port)"
  have c: "steering_port c" using assms next_steering_port_range by (auto simp: c_def)
  obtain r o2 where t: "try_ports os STEERING_PORT_COUNT c None o1 = (r, o2)" by force
  then have b: "bind_next_steering_socket os from_port current o1 = (r, o2)"
    by (simp add: bind_next_steering_socket_def c_def)
  note spec = try_ports_spec [OF t]
  show ?thesis
  proof (cases r)
    case (Ok x)
    then obtain k where "sockets_on ((next_steering_port ^^ k) c) (fst x)"
        "snd x = (next_steering_port ^^ Suc k) c"
      using spec by (auto simp del: funpow.simps split: prod.splits)
    then show ?thesis using b Ok ports.walk_member [OF c, of k]
      by (intro exI [of _ r] exI [of _ o2] conjI disjI1 exI [of _ "fst x"] exI [of _ "(next_steering_port ^^ k) c"])
        (auto simp: prod_eq_iff)
  qed (use b spec in auto)
qed

lemma apply_steering_cases:
  assumes "bound_sockets s" "steering_start_ok s"
  shows "case apply_steering_feedback os alive enabled ignored result s o1 of (r, s', o') \<Rightarrow>
    if \<not> enabled \<or> rl_steering_feedback result \<or> ignored then r = Ok () \<and> s' = s \<and> o' = o1
    else r \<noteq> Panic \<and> bound_sockets s' \<and> steering_start_ok s' \<and>
      feedback_zero_count (steer_stats s') = feedback_zero_count (steer_stats s) + 1 \<and>
      (if socket_epoch s' = socket_epoch s then (\<exists>e. r = Err e) \<and> sockets s' = sockets s
       else socket_epoch s' = socket_epoch s + 1 \<and>
         (\<exists>p. steering_port p \<and> sockets_on p (sockets s') \<and>
           next_port (steer_stats s') = next_steering_port p) \<and>
         (\<exists>oa answer. local_addr os (sockets s') oa = (answer, o') \<and>
           (case answer of Err e \<Rightarrow> r = Err e | Panic \<Rightarrow> False
            | Ok a \<Rightarrow> if \<not> alive then \<exists>e. r = Err e
                else r = Ok () \<and> last_port (steer_stats s') = Some (socket_port a) \<and>
                  port_changes (steer_stats s') = port_changes (steer_stats s) +
                    (if last_port (steer_stats s) = Some (socket_port a) then 0 else 1))))"
proof (cases "\<not> enabled \<or> rl_steering_feedback result \<or> ignored")
  case True
  then show ?thesis by (simp add: apply_steering_feedback_def)
next
  case False
  then have eq: "apply_steering_feedback os alive enabled ignored result s o1 = rebind os alive s o1"
    by (simp add: apply_steering_feedback_def)
  have ne: "(e :: u64) + 1 \<noteq> e" for e by simp
  obtain r2 o2 where l: "local_addr os (sockets s) o1 = (r2, o2)" "(\<exists>a. r2 = Ok a) \<or> (\<exists>e. r2 = Err e)"
    using local_addr_cases assms(1) unfolding bound_sockets_def by meson
  show ?thesis
  proof (cases r2)
    case (Err e)
    then show ?thesis using False l(1) assms unfolding eq
      by (simp add: rebind_def Let_def bound_sockets_def steering_start_ok_def)
  next
    case Panic
    then show ?thesis using l(2) by simp
  next
    case (Ok a)
    obtain r3 o3 where b: "bind_next_steering_socket os (next_port (steer_stats s)) (socket_port a) o2 = (r3, o3)"
        "(\<exists>fs p. r3 = Ok (fs, next_steering_port p) \<and> steering_port p \<and> sockets_on p fs) \<or> (\<exists>e. r3 = Err e)"
      using bind_next_cases [OF assms(2) [unfolded steering_start_ok_def], of os "socket_port a" o2]
      by (elim exE conjE)
    from b(2) show ?thesis
    proof (elim disjE exE conjE)
      fix e assume "r3 = Err e"
      then show ?thesis using False l(1) b(1) Ok assms unfolding eq
        by (simp add: rebind_def Let_def bound_sockets_def steering_start_ok_def)
    next
      fix fs p assume r3: "r3 = Ok (fs, next_steering_port p)" and p: "steering_port p" "sockets_on p fs"
      then have fs: "fs_v4 fs \<noteq> None \<or> fs_v6 fs \<noteq> None" by (simp add: sockets_on_def)
      obtain r4 o4 where l4: "local_addr os fs o3 = (r4, o4)" "(\<exists>a. r4 = Ok a) \<or> (\<exists>e. r4 = Err e)"
        using local_addr_cases [OF fs, of os o3] by blast
      note facts = False l(1) b(1) Ok r3 l4(1) p fs next_steering_port_range [of p]
      from l4(2) show ?thesis
        using facts unfolding eq
        by (elim disjE exE)
          (auto simp: rebind_def Let_def bound_sockets_def steering_start_ok_def
            intro!: exI [of _ p] exI [of _ o3] exI [of _ r4])
    qed
  qed
qed

text \<open>One step of the protocol or a fault.\<close>

definition steer_move :: "steer_system \<Rightarrow> steer_system \<Rightarrow> bool" where
  "steer_move a b \<longleftrightarrow> steer_step a b \<or> steer_fault a b"

text \<open>The moves of a rebinding task: giving up before or after the swap, or completing.\<close>

definition given_up :: "nat \<Rightarrow> steer_system \<Rightarrow> steer_system" where
  "given_up i a = a\<lparr>pcs := (pcs a)(i := Outside), apply_lock := None, activity_writer := None\<rparr>"

definition swapped :: "nat \<Rightarrow> steer_system \<Rightarrow> steer_system" where
  "swapped i a = a\<lparr>pcs := (pcs a)(i := AwaitingRouter), epoch := epoch a + 1\<rparr>"

definition noticed :: "steer_system \<Rightarrow> steer_system" where
  "noticed a = a\<lparr>router_epoch := epoch a, ready_epoch := epoch a\<rparr>"

lemma moves_failed: "pcs a i = Rebinding \<Longrightarrow> steer_move\<^sup>*\<^sup>* a (given_up i a)"
  unfolding given_up_def by (rule r_into_rtranclp) (simp add: steer_move_def steer_fault.rebind_failed)

lemma moves_swapped: "pcs a i = Rebinding \<Longrightarrow> steer_step a (swapped i a)"
  unfolding swapped_def by (rule replace_socket)

lemma moves_stopped:
  assumes "pcs a i = Rebinding"
  shows "steer_move\<^sup>*\<^sup>* a (given_up i (swapped i a))"
proof -
  have "steer_move a (swapped i a)" using moves_swapped [OF assms] by (simp add: steer_move_def)
  moreover have "steer_move (swapped i a) (given_up i (swapped i a))"
    unfolding given_up_def steer_move_def by (rule disjI2, rule router_stopped) (simp add: swapped_def)
  ultimately show ?thesis by (meson converse_rtranclp_into_rtranclp r_into_rtranclp)
qed

lemma moves_completed:
  assumes "pcs a i = Rebinding"
  shows "steer_run a (given_up i (noticed (swapped i a)))"
proof -
  let ?b = "swapped i a"
  have "steer_step ?b (?b\<lparr>router_epoch := epoch ?b\<rparr>)" by (rule router_observes)
  moreover have "steer_step (?b\<lparr>router_epoch := epoch ?b\<rparr>) (noticed ?b)"
    using router_publishes [of "?b\<lparr>router_epoch := epoch ?b\<rparr>"] by (simp add: noticed_def)
  moreover have "steer_step (noticed ?b) (given_up i (noticed ?b))"
    unfolding given_up_def by (rule router_acknowledged) (simp_all add: noticed_def swapped_def)
  ultimately show ?thesis
    using moves_swapped [OF assms] by (meson converse_rtranclp_into_rtranclp r_into_rtranclp)
qed

lemma run_moves: "steer_run a b \<Longrightarrow> steer_move\<^sup>*\<^sup>* a b"
  by (induction rule: rtranclp_induct) (auto simp: steer_move_def intro: rtranclp.rtrancl_into_rtrancl)

lemmas phase_simps = given_up_def swapped_def noticed_def

text \<open>A successful rebind leaves a port that is taken, as its own port is while it binds.\<close>

lemma steering_leaves_port:
  assumes "apply_steering_feedback os alive True False result s o1 = (Ok (), s', o')" "\<not> rl_steering_feedback result"
    and "port_taken os p"
  shows "\<not> sockets_on p (sockets s')"
  using assms(1,2) bind_next_leaves [OF _ assms(3)]
  by (auto simp: apply_steering_feedback_def rebind_def Let_def split: res.splits prod.splits if_splits)


text \<open>A kernel that grants every port and reports the one a socket was bound to.\<close>

definition granting_os :: "unit os" where
  "granting_os o1 call =
    (case call of LocalAddr s \<Rightarrow> (Inr (SocketV4 0 (sock_port s)), o1) | _ \<Rightarrow> (Inr (SocketV4 0 0), o1))"

definition one_socket :: steering_state where
  "one_socket = \<lparr>sockets = \<lparr>fs_v4 = Some \<lparr>sock_ipv6 = False, sock_port = 65535\<rparr>, fs_v6 = None,
     fs_v6_first = False\<rparr>, socket_epoch = 7, steer_stats = default_steering_stats\<rparr>"

definition advisory :: rate_limit_result where
  "advisory = \<lparr>rl_success = True, rl_guard_results = [], rl_resource_results = [], rl_server_id = 1,
     rl_steering_feedback = False\<rparr>"

lemma granting_bind:
  "bind_sockets granting_os 49152 () = (Ok \<lparr>fs_v4 = Some \<lparr>sock_ipv6 = False, sock_port = 49152\<rparr>,
     fs_v6 = Some \<lparr>sock_ipv6 = True, sock_port = 49152\<rparr>, fs_v6_first = False\<rparr>, ())"
  by (simp add: bind_sockets_def bind_udp_socket_for_family_def is_addr_in_use_def Let_def granting_os_def)

lemma granting_next:
  "bind_next_steering_socket granting_os 0 65535 () = (Ok (\<lparr>fs_v4 = Some \<lparr>sock_ipv6 = False, sock_port = 49152\<rparr>,
     fs_v6 = Some \<lparr>sock_ipv6 = True, sock_port = 49152\<rparr>, fs_v6_first = False\<rparr>, 49153), ())"
  using try_ports_first [OF granting_bind, of STEERING_PORT_COUNT None]
  by (simp add: bind_next_steering_socket_def next_steering_port_def STEERING_PORT_MIN_def STEERING_PORT_COUNT_def)

text \<open>A task that holds both locks in epoch 7.\<close>

definition rebinding_system :: steer_system where
  "rebinding_system = steer_init\<lparr>pcs := (\<lambda>_. Outside)(0 := Rebinding), apply_lock := Some 0,
     activity_writer := Some 0, epoch := 7, router_epoch := 7, ready_epoch := 7, rebinds := 8\<rparr>"


end
