(* ===== verification/RequestPolicy.thy ===== *)
theory RequestPolicy
  imports Errors
begin

text \<open>
  The high-availability request policy of \<open>src/request_policy.rs\<close>: replay-gap
  schedules, the request horizon, the policy builder.  The abstract schedule \<open>gap\<close>
  is the \<open>B(k)\<close> of the policy guide and \<open>horizon_spec\<close> its
  \<open>H = U * (B(0) + ... + B(N) + F)\<close>; the machine arithmetic is shown to compute
  exactly these, to reject everything else, and never to overflow.
\<close>

section \<open>Schedules\<close>

datatype schedule_kind = Fixed | Linear | Exponential

record schedule =
  kind :: schedule_kind
  initial_units :: u32
  max_units :: u32
  growth :: u32

definition fixed :: "u32 \<Rightarrow> schedule" where
  "fixed units = \<lparr>kind = Fixed, initial_units = units, max_units = units, growth = 0\<rparr>"

definition linear :: "u32 \<Rightarrow> u32 \<Rightarrow> u32 \<Rightarrow> schedule" where
  "linear initial step mx =
     \<lparr>kind = Linear, initial_units = initial, max_units = mx, growth = step\<rparr>"

definition exponential :: "u32 \<Rightarrow> u32 \<Rightarrow> u32 \<Rightarrow> schedule" where
  "exponential initial factor mx =
     \<lparr>kind = Exponential, initial_units = initial, max_units = mx, growth = factor\<rparr>"

text \<open>The loop of the exponential branch, with the remaining iterations as counter.\<close>

primrec exp_loop :: "u32 \<Rightarrow> u32 \<Rightarrow> nat \<Rightarrow> u32 \<Rightarrow> (u32, configuration_error) res" where
  "exp_loop mx g 0 v = Ok (min v mx)"
| "exp_loop mx g (Suc n) v =
     (if mx \<le> v then Ok mx
      else and_then (div_w mx g) (\<lambda>q.
           if q < v then Ok mx else and_then (mul_w v g) (exp_loop mx g n)))"

definition units :: "schedule \<Rightarrow> u32 \<Rightarrow> (u32, configuration_error) res" where
  "units s round =
    (if initial_units s = 0 \<or> max_units s < initial_units s then Err InvalidRequestPolicy
     else case kind s of
       Fixed \<Rightarrow>
         if max_units s \<noteq> initial_units s \<or> growth s \<noteq> 0 then Err InvalidRequestPolicy
         else Ok (initial_units s)
     | Linear \<Rightarrow>
         if growth s = 0 then Err InvalidRequestPolicy
         else and_then (sub_w (max_units s) (initial_units s)) (\<lambda>room.
              and_then (div_w room (growth s)) (\<lambda>q.
              if q < round then Ok (max_units s)
              else and_then (mul_w round (growth s)) (add_w (initial_units s))))
     | Exponential \<Rightarrow>
         if growth s < 2 then Err InvalidRequestPolicy
         else exp_loop (max_units s) (growth s) (unat round) (initial_units s))"

section \<open>Policies\<close>

definition MAX_REPLAY_COUNT :: u32 where
  "MAX_REPLAY_COUNT = 65535"

record request_policy =
  unit_ms :: u64
  replay_count :: u32
  replay_gap :: schedule
  final_receive_units :: u32
  completion_delivery :: bool

text \<open>The loop \<open>for round in 0..=replay_count\<close> that adds up the units of the rounds.\<close>

primrec sum_rounds ::
  "(u32 \<Rightarrow> (u32, configuration_error) res) \<Rightarrow> u32 list \<Rightarrow> u64 \<Rightarrow> (u64, configuration_error) res"
where
  "sum_rounds f [] acc = Ok acc"
| "sum_rounds f (r # rs) acc =
     and_then (f r) (\<lambda>u.
     and_then (ok_or InvalidRequestPolicy (checked_add acc (ucast u))) (sum_rounds f rs))"

definition rounds_upto :: "u32 \<Rightarrow> u32 list" where
  "rounds_upto n = map of_nat [0..<Suc (unat n)]"

definition horizon_ms :: "request_policy \<Rightarrow> u32 \<Rightarrow> (u32, configuration_error) res" where
  "horizon_ms p dedup_ttl_ms_max =
    (if unit_ms p = 0 \<or> MAX_REPLAY_COUNT < replay_count p \<or> dedup_ttl_ms_max = 0
     then Err InvalidRequestPolicy
     else and_then (sum_rounds (units (replay_gap p)) (rounds_upto (replay_count p))
                      (ucast (final_receive_units p))) (\<lambda>total_units.
          and_then (ok_or InvalidRequestPolicy (checked_mul total_units (unit_ms p))) (\<lambda>horizon.
          if total_units = 0 \<or> 4294967295 < horizon then Err InvalidRequestPolicy
          else if ucast dedup_ttl_ms_max < horizon then Err RequestPolicyExceedsApiKey
          else Ok (ucast horizon))))"

text \<open>\<open>RequestPolicy::horizon\<close>; the \<open>expect\<close> is a panic.\<close>

definition horizon :: "request_policy \<Rightarrow> (duration, configuration_error) res" where
  "horizon p = (case horizon_ms p 4294967295 of
      Ok h \<Rightarrow> Ok (dur_from_millis (ucast h))
    | Err e \<Rightarrow> Panic
    | Panic \<Rightarrow> Panic)"

definition default_policy :: request_policy where
  "default_policy = \<lparr>unit_ms = 20, replay_count = 1, replay_gap = fixed 1,
     final_receive_units = 1, completion_delivery = True\<rparr>"

section \<open>The builder\<close>

record request_policy_builder =
  b_unit :: duration
  b_replay_count :: u32
  b_replay_gap :: schedule
  b_final_receive_units :: u32
  b_completion_delivery :: bool

definition default_policy_builder :: request_policy_builder where
  "default_policy_builder =
    \<lparr>b_unit = dur_from_millis (unit_ms default_policy),
     b_replay_count = replay_count default_policy,
     b_replay_gap = replay_gap default_policy,
     b_final_receive_units = final_receive_units default_policy,
     b_completion_delivery = completion_delivery default_policy\<rparr>"

definition builder_unit :: "duration \<Rightarrow> request_policy_builder \<Rightarrow> request_policy_builder" where
  "builder_unit d b = b\<lparr>b_unit := d\<rparr>"

definition builder_replays :: "u32 \<Rightarrow> request_policy_builder \<Rightarrow> request_policy_builder" where
  "builder_replays n b = b\<lparr>b_replay_count := n\<rparr>"

definition builder_replay_gap :: "schedule \<Rightarrow> request_policy_builder \<Rightarrow> request_policy_builder" where
  "builder_replay_gap s b = b\<lparr>b_replay_gap := s\<rparr>"

definition builder_final_receive_units :: "u32 \<Rightarrow> request_policy_builder \<Rightarrow> request_policy_builder" where
  "builder_final_receive_units n b = b\<lparr>b_final_receive_units := n\<rparr>"

definition builder_completion_delivery :: "bool \<Rightarrow> request_policy_builder \<Rightarrow> request_policy_builder" where
  "builder_completion_delivery e b = b\<lparr>b_completion_delivery := e\<rparr>"

definition policy_build :: "request_policy_builder \<Rightarrow> (request_policy, error) res" where
  "policy_build b =
    (let millis = dur_as_millis (b_unit b) in
     if dur_is_zero (b_unit b) \<or> \<not> whole_millis (b_unit b) \<or> 2 ^ 64 - 1 < millis
     then Err (InvalidConfiguration (InvalidDuration ''request policy unit''))
     else
       let p = \<lparr>unit_ms = of_nat millis, replay_count = b_replay_count b,
                replay_gap = b_replay_gap b, final_receive_units = b_final_receive_units b,
                completion_delivery = b_completion_delivery b\<rparr>
       in and_then (map_err InvalidConfiguration (horizon_ms p 4294967295)) (\<lambda>h. Ok p))"

section \<open>What a schedule promises\<close>

definition valid_schedule :: "schedule \<Rightarrow> bool" where
  "valid_schedule s \<longleftrightarrow> initial_units s \<noteq> 0 \<and> initial_units s \<le> max_units s \<and>
    (case kind s of
       Fixed \<Rightarrow> max_units s = initial_units s \<and> growth s = 0
     | Linear \<Rightarrow> growth s \<noteq> 0
     | Exponential \<Rightarrow> 2 \<le> growth s)"

definition gap :: "schedule \<Rightarrow> nat \<Rightarrow> nat" where
  "gap s k = (case kind s of
      Fixed \<Rightarrow> unat (initial_units s)
    | Linear \<Rightarrow> min (unat (initial_units s) + k * unat (growth s)) (unat (max_units s))
    | Exponential \<Rightarrow> min (unat (initial_units s) * unat (growth s) ^ k) (unat (max_units s)))"

text \<open>
  The contract the horizon relies on: a valid schedule answers every round with a
  positive number of units, an invalid one is rejected in every round.
\<close>

locale gap_schedule =
  fixes units_of :: "'s \<Rightarrow> u32 \<Rightarrow> (u32, configuration_error) res"
    and valid :: "'s \<Rightarrow> bool"
    and gap_of :: "'s \<Rightarrow> nat \<Rightarrow> nat"
  assumes units_valid: "valid s \<Longrightarrow> \<exists>u. units_of s r = Ok u \<and> unat u = gap_of s (unat r)"
    and units_invalid: "\<not> valid s \<Longrightarrow> units_of s r = Err InvalidRequestPolicy"
    and gap_positive: "valid s \<Longrightarrow> 0 < gap_of s k"
begin

lemma gap_bound: "valid s \<Longrightarrow> gap_of s (unat r) < 2 ^ 32" for r :: u32
proof -
  assume "valid s"
  then obtain u :: u32 where "unat u = gap_of s (unat r)"
    using units_valid [of s r] by blast
  then show ?thesis using unsigned_less [of u, where 'a = nat] by simp
qed

text \<open>Adding up rounds whose total fits 64 bits computes the sum of the gaps.\<close>

lemma sum_rounds_valid:
  assumes "valid s" and "unat acc + (\<Sum>r\<leftarrow>rs. gap_of s (unat r)) < 2 ^ 64"
  shows "\<exists>t. sum_rounds (units_of s) rs acc = Ok t \<and>
             unat t = unat acc + (\<Sum>r\<leftarrow>rs. gap_of s (unat r))"
  using assms(2)
proof (induction rs arbitrary: acc)
  case Nil
  then show ?case by simp
next
  case (Cons r rs)
  obtain u where u: "units_of s r = Ok u" "unat u = gap_of s (unat r)"
    using units_valid [OF assms(1)] by blast
  have cast: "unat (ucast u :: u64) = gap_of s (unat r)"
    using u(2) by simp
  obtain acc' where acc': "checked_add acc (ucast u) = Some acc'"
      "unat acc' = unat acc + gap_of s (unat r)"
    using Cons.prems cast by (auto simp: checked_add_def unat_add_no_overflow)
  then show ?case using u Cons.prems Cons.IH [of acc'] by (auto simp: add.assoc)
qed

lemma sum_rounds_invalid:
  "\<not> valid s \<Longrightarrow> rs \<noteq> [] \<Longrightarrow> sum_rounds (units_of s) rs acc = Err InvalidRequestPolicy"
  by (cases rs) (auto simp: units_invalid)

end

lemma exp_loop_spec:
  assumes "2 \<le> g" "v \<noteq> 0"
  shows "\<exists>u. exp_loop mx g n v = Ok u \<and> unat u = min (unat v * unat g ^ n) (unat mx)"
  using assms(2)
proof (induction n arbitrary: v)
  case 0
  then show ?case by (auto simp: min_def word_le_nat_alt)
next
  case (Suc n)
  have g: "2 \<le> unat g" using assms(1) by (simp add: word_le_nat_alt)
  then have grow: "unat v * unat g \<le> unat v * unat g ^ Suc n"
    using self_le_power [of "unat g" "Suc n"] by (intro mult_left_mono) auto
  show ?case
  proof (cases "mx \<le> v \<or> mx div g < v")
    case True
    have "unat mx \<le> unat v * unat g"
    proof (cases "mx \<le> v")
      case True
      have "unat v * 1 \<le> unat v * unat g" by (rule mult_le_mono2) (use g in simp)
      moreover have "unat mx \<le> unat v" using True by (simp add: word_le_nat_alt)
      ultimately show ?thesis by linarith
    next
      case False
      with \<open>mx \<le> v \<or> mx div g < v\<close> have "unat mx div unat g < unat v"
        by (simp add: word_less_nat_alt unat_div)
      then show ?thesis using g by (simp add: div_less_iff_less_mult)
    qed
    then have "unat mx \<le> unat v * unat g ^ Suc n"
      using grow by (rule order.trans)
    then have "min (unat v * unat g ^ Suc n) (unat mx) = unat mx"
      by (rule min_absorb2)
    then show ?thesis using True assms(1) by (auto simp: div_w_def)
  next
    case False
    then have le: "unat v * unat g \<le> unat mx"
      using g by (simp add: not_less word_le_nat_alt unat_div less_eq_div_iff_mult_less_eq)
    then have fits: "unat v * unat g < 2 ^ 32"
      using unsigned_less [of mx, where 'a = nat] by (simp add: le_less_trans)
    then have prod: "unat (v * g) = unat v * unat g" by (simp add: unat_mul_no_overflow)
    moreover have "v * g \<noteq> 0" using prod g Suc.prems by (auto simp: unat_eq_0 [symmetric])
    ultimately show ?thesis
      using False assms(1) fits Suc.IH [of "v * g"] g
      by (auto simp: div_w_def mul_w_def mult.assoc)
  qed
qed

lemma units_linear:
  assumes "initial_units s \<noteq> 0" "initial_units s \<le> max_units s" "kind s = Linear" "growth s \<noteq> 0"
  shows "\<exists>u. units s r = Ok u \<and> unat u = gap s (unat r)"
proof -
  define room where "room = max_units s - initial_units s"
  have room: "unat room = unat (max_units s) - unat (initial_units s)"
    using assms(2) by (simp add: room_def unat_sub)
  have g: "0 < unat (growth s)" using assms(4) by (simp add: unat_gt_0)
  have le: "unat (initial_units s) \<le> unat (max_units s)"
    using assms(2) by (simp add: word_le_nat_alt)
  have step: "units s r = (if room div growth s < r then Ok (max_units s)
      else and_then (mul_w r (growth s)) (add_w (initial_units s)))"
    using assms by (auto simp: units_def room_def sub_w_def div_w_def)
  show ?thesis
  proof (cases "room div growth s < r")
    case True
    then have "unat room < unat r * unat (growth s)"
      using g by (simp add: word_less_nat_alt unat_div div_less_iff_less_mult)
    then show ?thesis using True step room le assms(3) by (simp add: gap_def)
  next
    case False
    then have fit: "unat r * unat (growth s) \<le> unat room"
      using g by (simp add: not_less word_le_nat_alt unat_div less_eq_div_iff_mult_less_eq)
    moreover have "unat (max_units s) < 2 ^ 32"
      using unsigned_less [of "max_units s", where 'a = nat] by simp
    ultimately have "unat r * unat (growth s) < 2 ^ 32"
      "unat (initial_units s) + unat r * unat (growth s) < 2 ^ 32"
      "unat (initial_units s) + unat r * unat (growth s) \<le> unat (max_units s)"
      using room le by linarith+
    then show ?thesis using False step assms(3)
      by (simp add: gap_def mul_w_def add_w_def unat_mul_no_overflow unat_add_no_overflow)
  qed
qed

lemma units_valid: "valid_schedule s \<Longrightarrow> \<exists>u. units s r = Ok u \<and> unat u = gap s (unat r)"
proof (cases "kind s")
  case Fixed
  then show "valid_schedule s \<Longrightarrow> ?thesis"
    by (auto simp: valid_schedule_def units_def gap_def)
next
  case Linear
  then show "valid_schedule s \<Longrightarrow> ?thesis"
    using units_linear by (auto simp: valid_schedule_def)
next
  case Exponential
  then show "valid_schedule s \<Longrightarrow> ?thesis"
    using exp_loop_spec [of "growth s" "initial_units s" "max_units s" "unat r"]
    by (auto simp: valid_schedule_def units_def gap_def not_less)
qed

lemma units_invalid: "\<not> valid_schedule s \<Longrightarrow> units s r = Err InvalidRequestPolicy"
  by (auto simp: valid_schedule_def units_def not_le split: schedule_kind.splits)

lemma gap_positive:
  assumes "valid_schedule s"
  shows "0 < gap s k"
proof -
  have "0 < unat (initial_units s)" "unat (initial_units s) \<le> unat (max_units s)"
    using assms by (simp_all add: valid_schedule_def unat_gt_0 word_le_nat_alt)
  then show ?thesis
    using assms
    by (auto simp: valid_schedule_def gap_def word_le_nat_alt split: schedule_kind.splits)
qed

interpretation replay_gaps: gap_schedule units valid_schedule gap
  by unfold_locales (simp_all add: units_valid units_invalid gap_positive)

section \<open>The horizon\<close>

definition valid_policy :: "request_policy \<Rightarrow> bool" where
  "valid_policy p \<longleftrightarrow> unit_ms p \<noteq> 0 \<and> replay_count p \<le> MAX_REPLAY_COUNT \<and>
     valid_schedule (replay_gap p)"

definition horizon_units :: "request_policy \<Rightarrow> nat" where
  "horizon_units p =
     (\<Sum>k\<le>unat (replay_count p). gap (replay_gap p) k) + unat (final_receive_units p)"

definition horizon_spec :: "request_policy \<Rightarrow> nat" where
  "horizon_spec p = unat (unit_ms p) * horizon_units p"

lemma rounds_upto_not_Nil [simp]: "rounds_upto n \<noteq> []"
  by (simp add: rounds_upto_def)

lemma sum_list_rounds_upto:
  "(\<Sum>r\<leftarrow>rounds_upto n. f (unat r)) = (\<Sum>k\<le>unat n. f k)" for f :: "nat \<Rightarrow> nat"
proof -
  have "unat (of_nat k :: u32) = k" if "k < Suc (unat n)" for k
  proof -
    have "k < 2 ^ LENGTH(32)" using that unsigned_less [of n, where 'a = nat] by linarith
    then show ?thesis by (simp add: unat_of_nat)
  qed
  then have "map (\<lambda>k. f (unat (of_nat k :: u32))) [0..<Suc (unat n)] = map f [0..<Suc (unat n)]"
    by (intro map_cong) auto
  then have "(\<Sum>r\<leftarrow>rounds_upto n. f (unat r)) = (\<Sum>k\<leftarrow>[0..<Suc (unat n)]. f k)"
    unfolding rounds_upto_def by (simp only: map_map comp_def)
  also have "\<dots> = (\<Sum>k\<le>unat n. f k)"
    by (simp only: interv_sum_list_conv_sum_set_nat atLeast0LessThan lessThan_Suc_atMost set_upt)
  finally show ?thesis .
qed

lemma horizon_units_bound:
  assumes "valid_policy p"
  shows "horizon_units p < 2 ^ 64"
proof -
  have "gap (replay_gap p) k \<le> 2 ^ 32" if "k \<le> unat (replay_count p)" for k
  proof -
    have "k < 2 ^ LENGTH(32)" using that unsigned_less [of "replay_count p", where 'a = nat]
      by linarith
    then have "unat (of_nat k :: u32) = k" by (simp add: unat_of_nat)
    then show ?thesis
      using replay_gaps.gap_bound [of "replay_gap p" "of_nat k"] assms
      by (simp add: valid_policy_def)
  qed
  then have "(\<Sum>k\<le>unat (replay_count p). gap (replay_gap p) k) \<le> Suc (unat (replay_count p)) * 2 ^ 32"
    using sum_bounded_above [of "{..unat (replay_count p)}" "gap (replay_gap p)" "2 ^ 32"] by simp
  moreover have "unat (replay_count p) \<le> 65535"
    using assms by (simp add: valid_policy_def MAX_REPLAY_COUNT_def word_le_nat_alt)
  moreover have "unat (final_receive_units p) < 2 ^ 32"
    using unsigned_less [of "final_receive_units p", where 'a = nat] by simp
  ultimately show ?thesis unfolding horizon_units_def by simp
qed

lemma horizon_units_positive: "valid_policy p \<Longrightarrow> 0 < horizon_units p"
  using gap_positive [of "replay_gap p" 0]
  by (auto simp: horizon_units_def valid_policy_def sum_pos2 intro!: sum_pos2 [of _ 0])

lemma horizon_sum_rounds:
  assumes "valid_policy p"
  shows "\<exists>t. sum_rounds (units (replay_gap p)) (rounds_upto (replay_count p))
             (ucast (final_receive_units p)) = Ok t \<and> unat t = horizon_units p"
  using assms horizon_units_bound [OF assms]
    replay_gaps.sum_rounds_valid [of "replay_gap p" "ucast (final_receive_units p)"
      "rounds_upto (replay_count p)"]
  by (auto simp: valid_policy_def sum_list_rounds_upto horizon_units_def add.commute)

lemma horizon_ms_invalid:
  "\<not> valid_policy p \<or> lim = 0 \<Longrightarrow> horizon_ms p lim = Err InvalidRequestPolicy"
  by (auto simp: horizon_ms_def valid_policy_def replay_gaps.sum_rounds_invalid not_le)

lemma horizon_ms_valid:
  assumes "valid_policy p" "lim \<noteq> 0"
  shows "horizon_ms p lim =
    (if 2 ^ 32 \<le> horizon_spec p then Err InvalidRequestPolicy
     else if unat lim < horizon_spec p then Err RequestPolicyExceedsApiKey
     else Ok (of_nat (horizon_spec p)))"
proof -
  obtain t where t: "sum_rounds (units (replay_gap p)) (rounds_upto (replay_count p))
      (ucast (final_receive_units p)) = Ok t" "unat t = horizon_units p"
    using horizon_sum_rounds [OF assms(1)] by blast
  have pos: "t \<noteq> 0" using t(2) horizon_units_positive [OF assms(1)] by (auto simp: unat_eq_0)
  have prod: "unat t * unat (unit_ms p) = horizon_spec p"
    by (simp add: t horizon_spec_def)
  have guard: "\<not> (unit_ms p = 0 \<or> MAX_REPLAY_COUNT < replay_count p \<or> lim = 0)"
    using assms by (auto simp: valid_policy_def)
  show ?thesis
  proof (cases "horizon_spec p < 2 ^ 64")
    case True
    then have h: "checked_mul t (unit_ms p) = Some (t * unit_ms p)"
        "unat (t * unit_ms p) = horizon_spec p"
      using prod by (simp_all add: checked_mul_def unat_mul_no_overflow)
    then have "t * unit_ms p = of_nat (horizon_spec p)" by (metis of_nat_unat ucast_id)
    moreover have "(ucast (t * unit_ms p) :: u32) = of_nat (horizon_spec p)"
      using h(2) by (metis of_nat_unat)
    ultimately show ?thesis
      using guard t(1) pos h by (auto simp: horizon_ms_def word_less_nat_alt)
  next
    case False
    then show ?thesis using guard t(1) prod
      by (simp add: horizon_ms_def checked_mul_def)
  qed
qed

lemma horizon_ms_eq:
  "horizon_ms p lim =
    (if valid_policy p \<and> lim \<noteq> 0 \<and> horizon_spec p < 2 ^ 32
     then if horizon_spec p \<le> unat lim then Ok (of_nat (horizon_spec p))
          else Err RequestPolicyExceedsApiKey
     else Err InvalidRequestPolicy)"
  by (cases "valid_policy p \<and> lim \<noteq> 0") (auto simp: horizon_ms_invalid horizon_ms_valid)

text \<open>
  C27: the horizon check of a request policy computes exactly
  \<open>H = U * (B(0) + ... + B(N) + F)\<close>, returns it when it fits the API key's
  deduplication limit, and rejects every other policy with the error the guide names;
  no addition, multiplication, subtraction or division on the way panics or wraps.
\<close>

theorem horizon_ms_characterised:
  "horizon_ms p lim =
    (if valid_policy p \<and> lim \<noteq> 0 \<and> horizon_spec p < 2 ^ 32
     then if horizon_spec p \<le> unat lim then Ok (of_nat (horizon_spec p))
          else Err RequestPolicyExceedsApiKey
     else Err InvalidRequestPolicy)"
  by (rule horizon_ms_eq)

text \<open>
  \<open>Schedule::units\<close> is the schedule of the guide: constant, linear with a cap or
  exponential with a cap, computed in 32 bits without overflow for every round number;
  a structurally invalid schedule is rejected in every round.
\<close>

lemma units_characterised:
  "units s r = (if valid_schedule s then Ok (of_nat (gap s (unat r))) else Err InvalidRequestPolicy)"
proof (cases "valid_schedule s")
  case True
  then obtain u where "units s r = Ok u" "unat u = gap s (unat r)"
    using units_valid by blast
  then show ?thesis using True by (metis of_nat_unat ucast_id)
next
  case False
  then show ?thesis by (simp add: units_invalid)
qed

section \<open>Built policies\<close>

lemma policy_build_ok_iff:
  "policy_build b = Ok p \<longleftrightarrow>
     \<not> dur_is_zero (b_unit b) \<and> whole_millis (b_unit b) \<and> dur_as_millis (b_unit b) \<le> 2 ^ 64 - 1 \<and>
     p = \<lparr>unit_ms = of_nat (dur_as_millis (b_unit b)), replay_count = b_replay_count b,
          replay_gap = b_replay_gap b, final_receive_units = b_final_receive_units b,
          completion_delivery = b_completion_delivery b\<rparr> \<and>
     valid_policy p \<and> horizon_spec p < 2 ^ 32"
  unfolding policy_build_def Let_def
  by (auto simp: outcome_simps horizon_ms_eq not_less)

lemma horizon_of_valid:
  assumes "valid_policy p" "horizon_spec p < 2 ^ 32"
  shows "horizon p = Ok (dur_from_millis (of_nat (horizon_spec p)))"
proof -
  have "horizon_ms p 4294967295 = Ok (of_nat (horizon_spec p))"
    using assms by (simp add: horizon_ms_eq)
  moreover have "(ucast (of_nat (horizon_spec p) :: u32) :: u64) = of_nat (horizon_spec p)"
    using assms by (simp add: word_unat_eq_iff unat_of_nat)
  ultimately show ?thesis by (simp add: horizon_def)
qed

text \<open>
  A policy that the builder returns has a horizon: \<open>RequestPolicy::horizon\<close> never
  hits its \<open>expect\<close>, and the duration it returns is exactly \<open>horizon_spec\<close> milliseconds.
\<close>

lemma built_policy_horizon:
  assumes "policy_build b = Ok p"
  shows "\<exists>d. horizon p = Ok d \<and> dur_as_millis d = horizon_spec p"
proof -
  have "valid_policy p" "horizon_spec p < 2 ^ 32"
    using assms by (auto simp: policy_build_ok_iff)
  then show ?thesis by (simp add: horizon_of_valid unat_of_nat)
qed

end
