(* ===== verification/Response.thy ===== *)
theory Response
  imports Packet
begin

text \<open>
  Parsing of rate responses in \<open>src/client.rs\<close>: the tenant header, the authentication
  TLV, the response PDU with its guard and resource blocks, and the two helpers that
  peek at a packet for its server and request identifiers.
\<close>

section \<open>Parsing responses\<close>

datatype pdu_data = Borrowed bytes | Owned bytes

primrec as_slice :: "pdu_data \<Rightarrow> bytes" where
  "as_slice (Borrowed data) = data"
| "as_slice (Owned data) = data"

definition parse_tenant_header :: "bytes \<Rightarrow> (tenant_header \<times> nat, core_error) res" where
  "parse_tenant_header data =
    (let pos = 0 in
     if length data < pos + 4 then Err (CoreProtocol (Text ''Buffer too small for Tenant TLV header''))
     else and_then (u16_at pos data) (\<lambda>tenant_tlv_type.
     if tenant_tlv_type \<noteq> TLV_TENANT
     then Err (CoreProtocol (Fmt ''Expected Tenant TLV type {:#x}, got {:#x}''
       [NumArg (unat TLV_TENANT), NumArg (unat tenant_tlv_type)]))
     else and_then (u16_at (pos + 2) data) (\<lambda>size.
     let tenant_tlv_size = unat size in
     if tenant_tlv_size < TENANT_TLV_LEN then Err (CoreProtocol (Text ''Tenant TLV too small''))
     else if length data < pos + tenant_tlv_size
     then Err (CoreProtocol (Text ''Buffer too small for Tenant TLV body''))
     else and_then (slice pos (pos + tenant_tlv_size) data) (\<lambda>tlv.
     and_then (map_err (\<lambda>e. CoreProtocol (Text e)) (read_tenant tlv)) (\<lambda>header.
     Ok (header, pos + tenant_tlv_size))))))"

definition expected_auth_type :: "auth_method \<Rightarrow> u16" where
  "expected_auth_type m =
    (case m of AuthNone \<Rightarrow> TLV_AUTH_NONE | Cookie _ \<Rightarrow> TLV_AUTH_COOKIE | AesGcm _ \<Rightarrow> TLV_AUTH_AES)"

definition is_cookie :: "auth_method \<Rightarrow> bool" where
  "is_cookie m = (case m of Cookie _ \<Rightarrow> True | _ \<Rightarrow> False)"

definition parse_auth_tlv ::
  "cipher \<Rightarrow> bytes \<Rightarrow> nat \<Rightarrow> auth_method \<Rightarrow> bytes option \<Rightarrow> bytes option
   \<Rightarrow> (pdu_data, core_error) res"
where
  "parse_auth_tlv open data pos auth_method cookie_cache aes_cache =
    (if length data < pos + 4 then Err (CoreProtocol (Text ''Buffer too small for Auth TLV header''))
     else and_then (u16_at pos data) (\<lambda>auth_tlv_type.
     and_then (u16_at (pos + 2) data) (\<lambda>size.
     let auth_tlv_size = unat size in
     if auth_tlv_size < 4 then Err (CoreProtocol (Text ''Invalid Auth TLV size''))
     else if length data < pos + auth_tlv_size
     then Err (CoreProtocol (Text ''Buffer too small for Auth TLV body''))
     else if auth_tlv_type \<noteq> expected_auth_type auth_method
     then Err (CoreAuth (Fmt ''Auth type mismatch: expected {:#x}, got {:#x}''
       [NumArg (unat (expected_auth_type auth_method)), NumArg (unat auth_tlv_type)]))
     else
       let pdu_start = pos + auth_tlv_size in
       if length data < pdu_start then Err (CoreProtocol (Text ''Buffer too small for PDU''))
       else if auth_tlv_type = TLV_AUTH_NONE then
         (if auth_tlv_size \<noteq> 4
          then Err (CoreProtocol (Fmt ''Invalid size for AUTH_NONE TLV: {}'' [NumArg auth_tlv_size]))
          else and_then (slice_from pdu_start data) (\<lambda>rest. Ok (Borrowed rest)))
       else if auth_tlv_type = TLV_AUTH_COOKIE then
         (if auth_tlv_size \<noteq> 36
          then Err (CoreProtocol (Fmt ''Invalid size for AUTH_COOKIE TLV: {}'' [NumArg auth_tlv_size]))
          else and_then (slice (pos + 4) (pos + auth_tlv_size) data) (\<lambda>auth_tlv_body.
            and_then
              (if is_cookie auth_method
               then and_then (ok_or (CoreAuth (Text ''Missing cookie hash cache'')) cookie_cache) (\<lambda>expected.
                 if auth_tlv_body \<noteq> expected then Err (CoreAuth (Text ''Cookie auth mismatch'')) else Ok ())
               else Ok ()) (\<lambda>_.
            and_then (slice_from pdu_start data) (\<lambda>rest. Ok (Borrowed rest)))))
       else if auth_tlv_type = TLV_AUTH_AES then
         (if auth_tlv_size \<noteq> 32
          then Err (CoreProtocol (Fmt ''Invalid size for AUTH_AES TLV: {}'' [NumArg auth_tlv_size]))
          else and_then (slice (pos + 4) (pos + auth_tlv_size) data) (\<lambda>auth_tlv_body.
            and_then (slice 0 12 auth_tlv_body) (\<lambda>nonce.
            and_then (slice 12 28 auth_tlv_body) (\<lambda>auth_tag.
            and_then (ok_or (CoreAuth (Text ''Missing AES key cache'')) aes_cache) (\<lambda>key.
            and_then (slice_from pdu_start data) (\<lambda>encrypted_pdu.
            and_then (slice 0 (pos + 4 + 12) data) (\<lambda>aad.
            and_then (map_err (\<lambda>_. CoreProtocol (Text ''AES decryption failed''))
              (decrypt_pdu open encrypted_pdu key nonce auth_tag aad)) (\<lambda>pdu.
            Ok (Owned pdu)))))))))
       else Err (CoreProtocol (Fmt ''Unknown Auth TLV type: {:#x}'' [NumArg (unat auth_tlv_type)])))))"

text \<open>The two block loops; \<open>n\<close> is the number of iterations left.\<close>

fun parse_guards ::
  "nat \<Rightarrow> bytes \<Rightarrow> nat \<Rightarrow> guard_result list \<Rightarrow> (nat \<times> guard_result list, core_error) res"
where
  "parse_guards 0 pdu_body pos results = Ok (pos, results)"
| "parse_guards (Suc n) pdu_body pos results =
    (if length pdu_body < pos + guard_len
     then Err (CoreProtocol (Text ''Buffer too small for GuardBlock''))
     else and_then (slice_from pos pdu_body) (\<lambda>rest.
     and_then (map_err (\<lambda>e. CoreProtocol (Text e)) (read_guard rest)) (\<lambda>block.
     parse_guards n pdu_body (pos + guard_len) (results @
       [\<lparr>gr_latency_tracker_id = gb_latency_tracker_id block,
         gr_threshold_ms = gb_latency_threshold block,
         gr_current_latency_ms = gb_current_latency block,
         gr_passed = (gb_current_latency block < gb_latency_threshold block)\<rparr>]))))"

fun parse_resources ::
  "nat \<Rightarrow> bytes \<Rightarrow> nat \<Rightarrow> resource_result list \<Rightarrow> (nat \<times> resource_result list, core_error) res"
where
  "parse_resources 0 pdu_body pos results = Ok (pos, results)"
| "parse_resources (Suc n) pdu_body pos results =
    (if length pdu_body < pos + resource_len
     then Err (CoreProtocol (Text ''Buffer too small for ResourceBlock''))
     else and_then (slice_from pos pdu_body) (\<lambda>rest.
     and_then (map_err (\<lambda>e. CoreProtocol (Text e)) (read_resource rest)) (\<lambda>block.
     parse_resources n pdu_body (pos + resource_len) (results @
       [\<lparr>rs_bucket_id = rb_bucket_id block, rs_tokens_deficit = rb_tokens_requested block,
         rs_actual_rate = rb_rate_limit block\<rparr>]))))"

definition parse_rate_response_pdu ::
  "bytes \<Rightarrow> u64 \<Rightarrow> bool \<Rightarrow> (rate_limit_result, core_error) res"
where
  "parse_rate_response_pdu pdu_data server_id steering_feedback =
    (if length pdu_data < PDU_HEADER_LEN
     then Err (CoreProtocol (Text ''Buffer too small for PDU header''))
     else and_then (u16_at 0 pdu_data) (\<lambda>pdu_type.
     if pdu_type \<noteq> PDU_RATE_RESPONSE
     then Err (CoreProtocol (Fmt ''Unexpected PDU type: {:#x}'' [NumArg (unat pdu_type)]))
     else and_then (u16_at 2 pdu_data) (\<lambda>size.
     let pdu_size = unat size in
     if pdu_size < PDU_HEADER_LEN then Err (CoreProtocol (Text ''Invalid PDU size''))
     else if length pdu_data < pdu_size then Err (CoreProtocol (Text ''Incomplete PDU data''))
     else and_then (slice PDU_HEADER_LEN pdu_size pdu_data) (\<lambda>pdu_body.
     if length pdu_body < 4 then Err (CoreProtocol (Text ''Buffer too small for counts''))
     else and_then (u16_at 0 pdu_body) (\<lambda>guard_count.
     and_then (u16_at 2 pdu_body) (\<lambda>resource_count.
     and_then (parse_guards (unat guard_count) pdu_body 4 []) (\<lambda>(pos, guard_results).
     and_then (parse_resources (unat resource_count) pdu_body pos []) (\<lambda>(pos, resource_results).
     let success = list_all gr_passed guard_results \<and>
           list_all (\<lambda>r. rs_tokens_deficit r = 0) resource_results
     in Ok \<lparr>rl_success = success, rl_guard_results = guard_results,
            rl_resource_results = resource_results, rl_server_id = server_id,
            rl_steering_feedback = steering_feedback\<rparr>))))))))"

definition parse_rate_response_with_auth ::
  "cipher \<Rightarrow> bytes \<Rightarrow> auth_method \<Rightarrow> bytes option \<Rightarrow> bytes option
   \<Rightarrow> (rate_limit_result, core_error) res"
where
  "parse_rate_response_with_auth open data auth_method cookie_cache aes_cache =
    and_then (parse_tenant_header data) (\<lambda>(tenant_header, pos).
    let server_id = th_key_id tenant_header;
        steering_feedback = (th_steering_feedback tenant_header \<noteq> 0)
    in and_then (parse_auth_tlv open data pos auth_method cookie_cache aes_cache) (\<lambda>pdu_data.
       parse_rate_response_pdu (as_slice pdu_data) server_id steering_feedback))"

definition peek_server_id :: "bytes \<Rightarrow> (u64 option, core_error) res" where
  "peek_server_id data =
    (if length data < 12 then Ok None
     else and_then (u16_at 0 data) (\<lambda>tlv_type.
     and_then (u16_at 2 data) (\<lambda>size.
     let tlv_size = unat size in
     if tlv_type \<noteq> TLV_TENANT \<or> tlv_size < 40 \<or> length data < tlv_size then Ok None
     else and_then (slice 4 12 data) (\<lambda>bs. Ok (Some (from_le bs))))))"

definition peek_request_id :: "bytes \<Rightarrow> (bytes option, core_error) res" where
  "peek_request_id data =
    (if length data < 28 then Ok None
     else and_then (u16_at 0 data) (\<lambda>tlv_type.
     and_then (u16_at 2 data) (\<lambda>size.
     let tlv_size = unat size in
     if tlv_type \<noteq> TLV_TENANT \<or> tlv_size < 40 \<or> length data < tlv_size then Ok None
     else and_then (slice 12 28 data) (\<lambda>bs. Ok (Some bs)))))"

section \<open>The block loops\<close>

text \<open>
  Both loops of the parser have one shape: check that a whole block is left, read it,
  push the result made of it, and move on by the size of a block.
\<close>

locale block_loop = wire_codec +
  fixes loop :: "nat \<Rightarrow> bytes \<Rightarrow> nat \<Rightarrow> 'r list \<Rightarrow> (nat \<times> 'r list, core_error) res"
    and result :: "'b \<Rightarrow> 'r"
    and too_short :: core_error
  assumes loop_0: "loop 0 body pos acc = Ok (pos, acc)"
    and loop_Suc: "loop (Suc n) body pos acc =
      (if length body < pos + size_of then Err too_short
       else and_then (slice_from pos body) (\<lambda>rest.
         and_then (map_err (\<lambda>e. CoreProtocol (Text e)) (get rest)) (\<lambda>block.
         loop n body (pos + size_of) (acc @ [result block]))))"
begin

lemma loop_never_panics: "loop n body pos acc \<noteq> Panic"
  by (induction n arbitrary: pos acc)
    (auto simp: loop_0 loop_Suc outcome_simps read_never_panics)

lemma loop_reads:
  "list_all wf bs \<Longrightarrow> length pre = pos \<Longrightarrow>
   loop (length bs) (pre @ concat (map wire bs) @ rest) pos acc =
     Ok (pos + size_of * length bs, acc @ map result bs)"
proof (induction bs arbitrary: pre pos acc)
  case Nil
  then show ?case by (simp add: loop_0)
next
  case (Cons b bs)
  then show ?case
    using Cons.IH [of "pre @ wire b" "pos + size_of" "acc @ [result b]"]
    by (simp add: loop_Suc wire_length read_wire slice_from_def)
qed

lemma loop_OkD:
  "loop n body pos acc = Ok (pos', out) \<Longrightarrow> pos \<le> length body \<Longrightarrow>
   \<exists>bs. list_all wf bs \<and> length bs = n \<and> out = acc @ map result bs \<and>
     pos' = pos + size_of * n \<and> pos' \<le> length body \<and>
     take (size_of * n) (drop pos body) = concat (map wire bs)"
proof (induction n arbitrary: pos acc)
  case 0
  then show ?case by (simp add: loop_0)
next
  case (Suc n)
  then have len: "pos + size_of \<le> length body" by (auto simp: loop_Suc split: if_splits)
  then obtain b where b: "get (drop pos body) = Ok b"
      "loop n body (pos + size_of) (acc @ [result b]) = Ok (pos', out)"
    using Suc.prems(1) by (auto simp: loop_Suc outcome_simps slice_from_def)
  from Suc.IH [OF b(2) len] obtain bs where bs: "list_all wf bs" "length bs = n"
      "out = acc @ map result (b # bs)" "pos' = pos + size_of * Suc n" "pos' \<le> length body"
      "take (size_of * n) (drop (pos + size_of) body) = concat (map wire bs)"
    by auto
  have "wf b" "wire b = take size_of (drop pos body)"
    using read_OkD [OF b(1)] by auto
  then show ?case
    using bs by (intro exI [of _ "b # bs"]) (simp add: take_add add.commute)
qed

end

definition guard_result_of :: "guard_block \<Rightarrow> guard_result" where
  "guard_result_of b =
    \<lparr>gr_latency_tracker_id = gb_latency_tracker_id b, gr_threshold_ms = gb_latency_threshold b,
     gr_current_latency_ms = gb_current_latency b,
     gr_passed = (gb_current_latency b < gb_latency_threshold b)\<rparr>"

definition resource_result_of :: "resource_block \<Rightarrow> resource_result" where
  "resource_result_of b =
    \<lparr>rs_bucket_id = rb_bucket_id b, rs_tokens_deficit = rb_tokens_requested b,
     rs_actual_rate = rb_rate_limit b\<rparr>"

interpretation guard_loop: block_loop wf_guard guard_wire 36 write_guard read_guard
  "''Buffer too small for GuardBlock''" parse_guards guard_result_of
  "CoreProtocol (Text ''Buffer too small for GuardBlock'')"
  by unfold_locales (simp_all add: guard_result_of_def guard_len_def)

interpretation resource_loop: block_loop wf_resource resource_wire 28 write_resource read_resource
  "''Buffer too small for ResourceBlock''" parse_resources resource_result_of
  "CoreProtocol (Text ''Buffer too small for ResourceBlock'')"
  by unfold_locales (simp_all add: resource_result_of_def resource_len_def)

section \<open>The response PDU\<close>

definition response_pdu ::
  "guard_block list \<Rightarrow> resource_block list \<Rightarrow> bytes \<Rightarrow> bytes \<Rightarrow> bytes \<Rightarrow> bytes"
where
  "response_pdu gs rs reserved params rest =
    to_le 2 PDU_RATE_RESPONSE @
    to_le 2 (of_nat (12 + 36 * length gs + 28 * length rs + length params) :: u16) @ reserved @
    to_le 2 (of_nat (length gs) :: u16) @ to_le 2 (of_nat (length rs) :: u16) @
    concat (map guard_wire gs) @ concat (map resource_wire rs) @ params @ rest"

definition response_shape :: "guard_block list \<Rightarrow> resource_block list \<Rightarrow> bytes \<Rightarrow> bytes \<Rightarrow> bool" where
  "response_shape gs rs reserved params \<longleftrightarrow> list_all wf_guard gs \<and> list_all wf_resource rs \<and>
    length reserved = 4 \<and> 12 + 36 * length gs + 28 * length rs + length params < 2 ^ 16"

definition response_result :: "guard_block list \<Rightarrow> resource_block list \<Rightarrow> u64 \<Rightarrow> bool \<Rightarrow> rate_limit_result" where
  "response_result gs rs server_id steering =
    \<lparr>rl_success = (list_all (\<lambda>g. gb_current_latency g < gb_latency_threshold g) gs \<and>
       list_all (\<lambda>r. rb_tokens_requested r = 0) rs),
     rl_guard_results = map guard_result_of gs, rl_resource_results = map resource_result_of rs,
     rl_server_id = server_id, rl_steering_feedback = steering\<rparr>"

lemma unat_of_nat_16: "n < 2 ^ 16 \<Longrightarrow> unat (of_nat n :: u16) = n"
  by (simp add: unat_of_nat)

lemma parse_response_pdu_complete:
  assumes "response_shape gs rs reserved params"
  shows "parse_rate_response_pdu (response_pdu gs rs reserved params rest) sid st =
    Ok (response_result gs rs sid st)"
proof -
  let ?size = "12 + 36 * length gs + 28 * length rs + length params"
  let ?counts = "to_le 2 (of_nat (length gs) :: u16) @ to_le 2 (of_nat (length rs) :: u16)"
  let ?G = "concat (map guard_wire gs)" and ?R = "concat (map resource_wire rs)"
  let ?body = "?counts @ ?G @ ?R @ params"
  note wf = assms [unfolded response_shape_def]
  have len: "length ?G = 36 * length gs" "length ?R = 28 * length rs"
    using wf guard_codec.length_wire_concat resource_codec.length_wire_concat by blast+
  let ?pdu = "response_pdu gs rs reserved params rest"
  have n: "unat (of_nat (length gs) :: u16) = length gs" "unat (of_nat (length rs) :: u16) = length rs"
      "unat (of_nat ?size :: u16) = ?size"
    using wf by (intro unat_of_nat_16; simp)+
  have hdr: "u16_at 0 ?pdu = (Ok PDU_RATE_RESPONSE :: (u16, core_error) res)"
      "u16_at 2 ?pdu = (Ok (of_nat ?size) :: (u16, core_error) res)"
      "length ?pdu = ?size + length rest"
    using wf len u16_at_append [of "[]" 0] u16_at_append [of "to_le 2 PDU_RATE_RESPONSE" 2]
    by (simp_all add: response_pdu_def)
  have body: "slice 8 ?size ?pdu = (Ok ?body :: (bytes, core_error) res)"
    using wf len by (simp add: slice_def response_pdu_def)
  have cnt: "u16_at 0 ?body = (Ok (of_nat (length gs)) :: (u16, core_error) res)"
      "u16_at 2 ?body = (Ok (of_nat (length rs)) :: (u16, core_error) res)"
    using u16_at_append [of "[]" 0] u16_at_append [of "to_le 2 (of_nat (length gs) :: u16)" 2]
    by simp_all
  have g: "parse_guards (length gs) ?body 4 [] = Ok (4 + 36 * length gs, map guard_result_of gs)"
    using guard_loop.loop_reads [of gs ?counts 4 "?R @ params" "[]"] wf by simp
  have r: "parse_resources (length rs) ?body (4 + 36 * length gs) [] =
      Ok (4 + 36 * length gs + 28 * length rs, map resource_result_of rs)"
    using resource_loop.loop_reads [of rs "?counts @ ?G" "4 + 36 * length gs" params "[]"] wf len by simp
  have "length ?body \<ge> 4" by simp
  with hdr body cnt g r n show ?thesis
    by (simp only: parse_rate_response_pdu_def PDU_HEADER_LEN_def)
      (simp add: Let_def response_result_def guard_result_of_def resource_result_of_def list.pred_map comp_def)
qed

lemma of_nat_unat_16: "of_nat (unat x) = (x :: u16)"
  by simp

lemma parse_response_pdu_sound:
  assumes "parse_rate_response_pdu pdu sid st = Ok r"
  shows "\<exists>gs rs reserved params rest. response_shape gs rs reserved params \<and>
    pdu = response_pdu gs rs reserved params rest \<and> r = response_result gs rs sid st"
proof -
  obtain sz gc rc p1 p2 go ro where e: "8 \<le> length pdu" "u16_at 0 pdu = (Ok PDU_RATE_RESPONSE :: (u16, core_error) res)"
      "u16_at 2 pdu = (Ok sz :: (u16, core_error) res)" "8 \<le> unat sz" "unat sz \<le> length pdu"
      "12 \<le> unat sz"
      "u16_at 0 (take (unat sz - 8) (drop 8 pdu)) = (Ok gc :: (u16, core_error) res)"
      "u16_at 2 (take (unat sz - 8) (drop 8 pdu)) = (Ok rc :: (u16, core_error) res)"
      "parse_guards (unat gc) (take (unat sz - 8) (drop 8 pdu)) 4 [] = Ok (p1, go)"
      "parse_resources (unat rc) (take (unat sz - 8) (drop 8 pdu)) p1 [] = Ok (p2, ro)"
      "r = \<lparr>rl_success = (list_all gr_passed go \<and> list_all (\<lambda>r. rs_tokens_deficit r = 0) ro),
         rl_guard_results = go, rl_resource_results = ro, rl_server_id = sid, rl_steering_feedback = st\<rparr>"
    using assms
    by (auto simp: parse_rate_response_pdu_def PDU_HEADER_LEN_def Let_def outcome_simps not_less
        split: if_splits)
  define body where "body = take (unat sz - 8) (drop 8 pdu)"
  have lb: "length body = unat sz - 8" using e(5) by (simp add: body_def)
  have l4: "4 \<le> length body" using lb e(6) by simp
  note e' = e(7-10) [folded body_def]
  obtain gs where gs: "list_all wf_guard gs" "length gs = unat gc" "go = map guard_result_of gs"
      "p1 = 4 + 36 * unat gc" "p1 \<le> length body" "take (36 * unat gc) (drop 4 body) = concat (map guard_wire gs)"
    using guard_loop.loop_OkD [OF e'(3)] l4 by auto
  obtain rs where rs: "list_all wf_resource rs" "length rs = unat rc" "ro = map resource_result_of rs"
      "p2 = p1 + 28 * unat rc" "p2 \<le> length body" "take (28 * unat rc) (drop p1 body) = concat (map resource_wire rs)"
    using resource_loop.loop_OkD [OF e'(4)] gs(5) by auto
  have cnt: "take 2 body = to_le 2 gc" "take 2 (drop 2 body) = to_le 2 rc"
    using u16_at_bytes [OF e'(1)] u16_at_bytes [OF e'(2)] lb e(6) by simp_all
  have body: "body = to_le 2 gc @ to_le 2 rc @ concat (map guard_wire gs) @ concat (map resource_wire rs) @ drop p2 body"
  proof -
    have "body = take 2 body @ take 2 (drop 2 body) @ take (36 * unat gc) (drop 4 body) @
        take (28 * unat rc) (drop p1 body) @ drop p2 body"
      by (simp add: take_split_append gs(4) rs(4) ac_simps)
    then show ?thesis by (simp only: cnt gs(6) rs(6))
  qed
  have pdu: "pdu = to_le 2 PDU_RATE_RESPONSE @ to_le 2 sz @ take 4 (drop 4 pdu) @ body @ drop (unat sz) pdu"
  proof -
    have "pdu = take 2 pdu @ take 2 (drop 2 pdu) @ take 4 (drop 4 pdu) @ body @ drop (unat sz) pdu"
      using e(4) by (simp add: take_split_append body_def)
    moreover have "take 2 pdu = to_le 2 PDU_RATE_RESPONSE" "take 2 (drop 2 pdu) = to_le 2 sz"
      using u16_at_bytes [OF e(2)] u16_at_bytes [OF e(3)] e(1) by simp_all
    ultimately show ?thesis by simp
  qed
  have size: "12 + 36 * length gs + 28 * length rs + length (drop p2 body) = unat sz"
    using gs(2,4) rs(2,4,5) lb e(6) by simp
  have "response_shape gs rs (take 4 (drop 4 pdu)) (drop p2 body)"
    unfolding response_shape_def size using gs(1) rs(1) e(1) unsigned_less [of sz] by simp
  moreover have "pdu = response_pdu gs rs (take 4 (drop 4 pdu)) (drop p2 body) (drop (unat sz) pdu)"
  proof -
    have "body @ X = to_le 2 gc @ to_le 2 rc @ concat (map guard_wire gs) @
        concat (map resource_wire rs) @ drop p2 body @ X" for X
      using arg_cong [OF body, of "\<lambda>b. b @ X"] by simp
    from pdu [unfolded this [of "drop (unat sz) pdu"]] show ?thesis
      unfolding response_pdu_def size unfolding gs(2) rs(2) of_nat_unat_16 append_assoc .
  qed
  moreover have "r = response_result gs rs sid st"
    using e(11) gs(3) rs(3)
    by (simp add: response_result_def list.pred_map comp_def guard_result_of_def resource_result_of_def)
  ultimately show ?thesis by blast
qed

lemma parse_response_pdu_never_panics: "parse_rate_response_pdu pdu sid st \<noteq> Panic"
  by (auto simp: parse_rate_response_pdu_def PDU_HEADER_LEN_def Let_def outcome_simps u16_at_eq
      guard_loop.loop_never_panics resource_loop.loop_never_panics)

text \<open>
  C13: the PDU parser accepts exactly the well-formed rate responses: a response type, a
  size that covers the header and both counted block lists, those blocks, and any
  parameters after them.  The result lists one entry per block in order, and it is a
  success exactly when every guard is below its threshold and no resource has a deficit.
\<close>

theorem parse_response_pdu_grammar:
  "parse_rate_response_pdu pdu sid st = Ok r \<longleftrightarrow>
    (\<exists>gs rs reserved params rest. response_shape gs rs reserved params \<and>
      pdu = response_pdu gs rs reserved params rest \<and> r = response_result gs rs sid st)"
  using parse_response_pdu_complete parse_response_pdu_sound by blast

section \<open>The tenant header\<close>

text \<open>Offsets stay written as sums.\<close>

declare add_2_eq_Suc [simp del] add_2_eq_Suc' [simp del]

lemma u16_at_shift: "u16_at (length pre + i) (pre @ data) = u16_at i data"
  by (simp add: u16_at_def at_index_def nth_append)

lemma u16_at_tenant:
  "u16_at 0 (tenant_wire h @ rest) = Ok (th_tlv_type h)"
  "u16_at 2 (tenant_wire h @ rest) = Ok (th_tlv_size h)"
  using u16_at_append [of "[]" 0 "th_tlv_type h"] u16_at_append [of "to_le 2 (th_tlv_type h)" 2]
  by (simp_all add: tenant_wire_def)

definition tenant_shape :: "tenant_header \<Rightarrow> bytes \<Rightarrow> bool" where
  "tenant_shape h ext \<longleftrightarrow> wf_tenant h \<and> th_tlv_type h = TLV_TENANT \<and>
    unat (th_tlv_size h) = 40 + length ext"

lemma parse_tenant_complete:
  assumes "tenant_shape h ext"
  shows "parse_tenant_header (tenant_wire h @ ext @ rest) = Ok (h, 40 + length ext)"
proof -
  have len: "length (tenant_wire h) = 40"
    using assms tenant_codec.wire_length by (simp add: tenant_shape_def)
  have "read_tenant (tenant_wire h @ ext) = Ok h"
    using assms tenant_codec.read_wire by (simp add: tenant_shape_def)
  then show ?thesis
    using assms len
    by (simp add: parse_tenant_header_def tenant_shape_def u16_at_tenant Let_def TENANT_TLV_LEN_def
        slice_def)
qed

lemma parse_tenant_sound:
  assumes "parse_tenant_header data = Ok (h, pos)"
  shows "\<exists>ext rest. tenant_shape h ext \<and> data = tenant_wire h @ ext @ rest \<and> pos = 40 + length ext"
proof -
  obtain sz where e: "4 \<le> length data" "u16_at 0 data = (Ok TLV_TENANT :: (u16, core_error) res)"
      "u16_at 2 data = (Ok sz :: (u16, core_error) res)" "40 \<le> unat sz" "unat sz \<le> length data"
      "pos = unat sz" "read_tenant (take (unat sz) data) = Ok h"
    using assms
    by (auto simp: parse_tenant_header_def Let_def outcome_simps TENANT_TLV_LEN_def not_less
        slice_def split: if_splits)
  have h: "wf_tenant h" "tenant_wire h = take 40 data"
    using tenant_codec.read_OkD [OF e(7)] e(4,5) by auto
  have data: "data = tenant_wire h @ take (unat sz - 40) (drop 40 data) @ drop (unat sz) data"
    unfolding h(2) using e(4) by (simp add: take_split_append)
  have "u16_at 0 data = (Ok (th_tlv_type h) :: (u16, core_error) res)"
      "u16_at 2 data = (Ok (th_tlv_size h) :: (u16, core_error) res)"
    using data u16_at_tenant by metis+
  then have "th_tlv_type h = TLV_TENANT" "th_tlv_size h = sz"
    using e(2,3) by simp_all
  then have "tenant_shape h (take (unat sz - 40) (drop 40 data))"
    using h(1) e(4,5) by (simp add: tenant_shape_def)
  then show ?thesis using data e(4,5,6) by (intro exI conjI) (assumption+, simp)
qed

lemma parse_tenant_never_panics: "parse_tenant_header data \<noteq> Panic"
  by (auto simp: parse_tenant_header_def Let_def outcome_simps TENANT_TLV_LEN_def u16_at_eq
      tenant_codec.read_never_panics)

lemma peek_eq_parse:
  "peek_request_id data =
     Ok (case parse_tenant_header data of Ok (h, pos) \<Rightarrow> Some (th_unique_id h) | _ \<Rightarrow> None) \<and>
   peek_server_id data =
     Ok (case parse_tenant_header data of Ok (h, pos) \<Rightarrow> Some (th_key_id h) | _ \<Rightarrow> None)"
proof (cases "\<exists>h pos. parse_tenant_header data = Ok (h, pos)")
  case True
  then obtain h pos ext rest where p: "parse_tenant_header data = Ok (h, pos)" "tenant_shape h ext"
      "data = tenant_wire h @ ext @ rest"
    using parse_tenant_sound by blast
  have len: "length (tenant_wire h) = 40"
    using p(2) tenant_codec.wire_length by (simp add: tenant_shape_def)
  have f: "take 8 (drop 4 data) = to_le 8 (th_key_id h)" "take 16 (drop 12 data) = th_unique_id h"
    using p(2) by (simp_all add: p(3) tenant_shape_def wf_tenant_def tenant_wire_def)
  show ?thesis
    using p(1,2) len f
    by (simp add: peek_request_id_def peek_server_id_def p(3) u16_at_tenant tenant_shape_def Let_def
        slice_def)
next
  case False
  then have n: "(case parse_tenant_header data of Ok (h, pos) \<Rightarrow> Some (f h) | _ \<Rightarrow> None) = None"
    for f :: "tenant_header \<Rightarrow> 'a"
    by (auto split: res.splits)
  have "length data < 12 \<or> from_le (take 2 data) \<noteq> TLV_TENANT \<or>
      unat (from_le (take 2 (drop 2 data)) :: u16) < 40 \<or>
      length data < unat (from_le (take 2 (drop 2 data)) :: u16)"
  proof (rule ccontr)
    assume c: "\<not> ?thesis"
    then have "parse_tenant_header data \<noteq> Err e" for e
      using tenant_codec.read_long
      by (auto simp: parse_tenant_header_def Let_def outcome_simps TENANT_TLV_LEN_def u16_at_eq
          tenant_codec.read_never_panics not_less read_tenant_def)
    then show False using False parse_tenant_never_panics [of data]
      by (cases "parse_tenant_header data") auto
  qed
  then show ?thesis unfolding n
    by (auto simp: peek_request_id_def peek_server_id_def u16_at_eq Let_def)
qed

text \<open>
  The router's peek at a packet and the full parser agree on every byte string:
  a request identifier is found exactly when the tenant header parses, and both peeks
  then return the identifiers of that header.
\<close>

lemma peek_agrees_with_parse:
  "peek_request_id data =
     Ok (case parse_tenant_header data of Ok (h, pos) \<Rightarrow> Some (th_unique_id h) | _ \<Rightarrow> None) \<and>
   peek_server_id data =
     Ok (case parse_tenant_header data of Ok (h, pos) \<Rightarrow> Some (th_key_id h) | _ \<Rightarrow> None)"
  by (rule peek_eq_parse)

section \<open>Authentication\<close>

text \<open>
  What a peer that shares the credential puts between the tenant header and the PDU;
  \<open>prefix\<close> is everything before it, which the cipher authenticates as well.
\<close>

definition auth_frame :: "cipher \<Rightarrow> auth_method \<Rightarrow> bytes \<Rightarrow> bytes \<Rightarrow> bytes \<Rightarrow> bool" where
  "auth_frame open m prefix frame pdu \<longleftrightarrow>
    (case m of
       AuthNone \<Rightarrow> frame = to_le 2 TLV_AUTH_NONE @ to_le 2 (4 :: u16) @ pdu
     | Cookie c \<Rightarrow> length c = 32 \<and> frame = to_le 2 TLV_AUTH_COOKIE @ to_le 2 (36 :: u16) @ c @ pdu
     | AesGcm key \<Rightarrow> (\<exists>nonce tag ciphertext. length nonce = 12 \<and> length tag = 16 \<and>
         frame = to_le 2 TLV_AUTH_AES @ to_le 2 (32 :: u16) @ nonce @ tag @ ciphertext \<and>
         open key nonce (prefix @ to_le 2 TLV_AUTH_AES @ to_le 2 (32 :: u16) @ nonce)
           (ciphertext @ tag) = Some pdu))"

definition parse_auth :: "cipher \<Rightarrow> auth_method \<Rightarrow> bytes \<Rightarrow> nat \<Rightarrow> (pdu_data, core_error) res" where
  "parse_auth open m data pos = parse_auth_tlv open data pos m (cookie_hash_cache m) (aes_key_cache m)"

lemmas auth_type_simps = expected_auth_type_def TLV_AUTH_NONE_def TLV_AUTH_COOKIE_def TLV_AUTH_AES_def

lemma u16_at_auth:
  "u16_at (length pre) (pre @ to_le 2 x @ rest) = Ok x"
  "u16_at (length pre + 2) (pre @ to_le 2 x @ to_le 2 y @ rest) = Ok y"
  using u16_at_append [of pre "length pre" x rest] u16_at_append [of "pre @ to_le 2 x" "length pre + 2" y rest]
  by simp_all

lemma parse_auth_complete:
  assumes "auth_frame open m prefix frame pdu"
  shows "\<exists>d. parse_auth open m (prefix @ frame) (length prefix) = Ok d \<and> as_slice d = pdu"
proof (cases m)
  case AuthNone
  then show ?thesis using assms
    by (simp add: auth_frame_def parse_auth_def parse_auth_tlv_def u16_at_auth expected_auth_type_def
        Let_def slice_from_def)
next
  case (Cookie c)
  then show ?thesis using assms
    by (simp add: auth_frame_def parse_auth_def parse_auth_tlv_def u16_at_auth auth_type_simps
        Let_def slice_from_def slice_def is_cookie_def)
next
  case (AesGcm key)
  then show ?thesis using assms
    by (auto simp: auth_frame_def parse_auth_def parse_auth_tlv_def u16_at_auth auth_type_simps
        Let_def slice_from_def slice_def decrypt_pdu_def)
qed

lemma parse_auth_sound:
  assumes "parse_auth open m (prefix @ frame) (length prefix) = Ok d"
  shows "auth_frame open m prefix frame (as_slice d)"
proof -
  have shift: "u16_at (length prefix) (prefix @ frame) = (u16_at 0 frame :: (u16, core_error) res)"
      "u16_at (length prefix + 2) (prefix @ frame) = (u16_at 2 frame :: (u16, core_error) res)"
    using u16_at_shift [of prefix 0 frame] u16_at_shift [of prefix 2 frame] by simp_all
  obtain sz where e: "4 \<le> length frame" "u16_at 0 frame = (Ok (expected_auth_type m) :: (u16, core_error) res)"
      "u16_at 2 frame = (Ok sz :: (u16, core_error) res)" "unat sz \<le> length frame"
    using assms
    by (auto simp: parse_auth_def parse_auth_tlv_def Let_def outcome_simps shift not_less split: if_splits)
  have frame: "frame = to_le 2 (expected_auth_type m) @ to_le 2 sz @ drop 4 frame"
  proof -
    have "frame = take 2 frame @ take 2 (drop 2 frame) @ drop 4 frame"
      by (simp add: take_split_append)
    then show ?thesis using u16_at_bytes [OF e(2)] u16_at_bytes [OF e(3)] e(1) by simp
  qed
  note run = assms [unfolded parse_auth_def parse_auth_tlv_def shift e(2,3) and_then.simps Let_def]
  show ?thesis
  proof (cases m)
    case AuthNone
    then have "unat sz = 4" "as_slice d = drop 4 frame"
      using run e(1) by (auto simp: auth_type_simps slice_from_def split: if_splits)
    moreover from this have "sz = 4" by (simp add: word_unat_eq_iff)
    ultimately show ?thesis using frame AuthNone
      by (simp add: auth_frame_def expected_auth_type_def)
  next
    case (Cookie c)
    then have "unat sz = 36" "take 32 (drop 4 frame) = c" "as_slice d = drop 36 frame"
      using run e(4) by (auto simp: auth_type_simps slice_from_def slice_def is_cookie_def split: if_splits)
    moreover from this have "drop 4 frame = c @ as_slice d" "sz = 36" "length c = 32"
      using append_take_drop_id [of 32 "drop 4 frame"] e(4) by (auto simp: word_unat_eq_iff)
    ultimately show ?thesis using frame Cookie
      by (simp add: auth_frame_def expected_auth_type_def)
  next
    case (AesGcm key)
    let ?nonce = "take 12 (drop 4 frame)" and ?tag = "take 16 (drop 16 frame)"
    have sz: "unat sz = 32"
      using run AesGcm by (auto simp: auth_type_simps split: if_splits)
    have "open key ?nonce (prefix @ take 16 frame) (drop 32 frame @ ?tag) = Some (as_slice d)"
      using run AesGcm e(4) sz
      by (auto simp: auth_type_simps slice_from_def slice_def decrypt_pdu_def outcome_simps take_drop
          split: if_splits)
    moreover have "frame = to_le 2 TLV_AUTH_AES @ to_le 2 (32 :: u16) @ ?nonce @ ?tag @ drop 32 frame"
      and "take 16 frame = to_le 2 TLV_AUTH_AES @ to_le 2 (32 :: u16) @ ?nonce"
    proof -
      have "sz = 32" using sz by (simp add: word_unat_eq_iff)
      have "take 4 frame = take 4 (to_le 2 (expected_auth_type m) @ to_le 2 sz @ drop 4 frame)"
        using frame by (rule arg_cong)
      also have "\<dots> = to_le 2 TLV_AUTH_AES @ to_le 2 (32 :: u16)"
        using \<open>sz = 32\<close> AesGcm by (simp add: expected_auth_type_def)
      finally have hd: "take 4 frame = to_le 2 TLV_AUTH_AES @ to_le 2 (32 :: u16)" .
      have "frame = take 4 frame @ ?nonce @ ?tag @ drop 32 frame" "take 16 frame = take 4 frame @ ?nonce"
        by (simp_all add: take_split_append take_split)
      then show "frame = to_le 2 TLV_AUTH_AES @ to_le 2 (32 :: u16) @ ?nonce @ ?tag @ drop 32 frame"
        "take 16 frame = to_le 2 TLV_AUTH_AES @ to_le 2 (32 :: u16) @ ?nonce"
        unfolding hd by simp_all
    qed
    moreover have "length ?nonce = 12" "length ?tag = 16" using e(4) sz by simp_all
    ultimately show ?thesis unfolding auth_frame_def AesGcm auth_method.case by metis
  qed
qed

lemma parse_auth_never_panics:
  "parse_auth_tlv open data pos m cookie aes \<noteq> Panic"
  by (auto simp: parse_auth_tlv_def Let_def outcome_simps u16_at_eq decrypt_pdu_def slice_def
      slice_from_def not_less split: if_splits)

lemma parse_rate_response_total:
  "parse_rate_response_with_auth open data m cookie aes \<noteq> Panic"
  by (auto simp: parse_rate_response_with_auth_def and_then_eq_Panic parse_tenant_never_panics
      parse_auth_never_panics parse_response_pdu_never_panics Let_def)

text \<open>
  C22: parsing a response never panics: for every byte string, every credential, any
  state of the caches and any behaviour of the cipher it returns a result or an error.
\<close>

theorem parse_rate_response_never_panics:
  "parse_rate_response_with_auth open data m cookie aes \<noteq> Panic"
  by (rule parse_rate_response_total)

lemma parse_rate_response_iff:
  "parse_rate_response_with_auth open data m (cookie_hash_cache m) (aes_key_cache m) = Ok r \<longleftrightarrow>
    (\<exists>h ext frame pdu. tenant_shape h ext \<and> data = tenant_wire h @ ext @ frame \<and>
      auth_frame open m (tenant_wire h @ ext) frame pdu \<and>
      parse_rate_response_pdu pdu (th_key_id h) (th_steering_feedback h \<noteq> 0) = Ok r)"
  (is "?accept \<longleftrightarrow> ?shape")
proof
  assume ?accept
  then obtain h pos d where p: "parse_tenant_header data = Ok (h, pos)"
      "parse_auth open m data pos = Ok d"
      "parse_rate_response_pdu (as_slice d) (th_key_id h) (th_steering_feedback h \<noteq> 0) = Ok r"
    by (auto simp: parse_rate_response_with_auth_def outcome_simps Let_def parse_auth_def)
  obtain ext frame where t: "tenant_shape h ext" "data = tenant_wire h @ ext @ frame" "pos = 40 + length ext"
    using parse_tenant_sound [OF p(1)] by blast
  have "length (tenant_wire h @ ext) = pos"
    using t tenant_codec.wire_length by (simp add: tenant_shape_def)
  then have "auth_frame open m (tenant_wire h @ ext) frame (as_slice d)"
    using parse_auth_sound [of "open" m "tenant_wire h @ ext" frame d] p(2) t(2) by simp
  then show ?shape using t p(3) by blast
next
  assume ?shape
  then obtain h ext frame pdu where t: "tenant_shape h ext" "data = tenant_wire h @ ext @ frame"
      "auth_frame open m (tenant_wire h @ ext) frame pdu"
      "parse_rate_response_pdu pdu (th_key_id h) (th_steering_feedback h \<noteq> 0) = Ok r"
    by blast
  have len: "length (tenant_wire h @ ext) = 40 + length ext"
    using t(1) tenant_codec.wire_length by (simp add: tenant_shape_def)
  obtain d where "parse_auth open m data (40 + length ext) = Ok d" "as_slice d = pdu"
    using parse_auth_complete [OF t(3)] len t(2) by auto
  then show ?accept
    using parse_tenant_complete [OF t(1)] t(2,4)
    by (simp add: parse_rate_response_with_auth_def parse_auth_def Let_def)
qed

text \<open>Without authentication a well-formed response is accepted as it stands.\<close>

lemma parse_plain_response:
  assumes "tenant_shape h []" "response_shape gs rs reserved params"
  shows "parse_rate_response_with_auth open (tenant_wire h @ to_le 2 TLV_AUTH_NONE @ to_le 2 (4 :: u16) @
      response_pdu gs rs reserved params rest) AuthNone None None =
    Ok (response_result gs rs (th_key_id h) (th_steering_feedback h \<noteq> 0))"
proof -
  let ?data = "tenant_wire h @ to_le 2 TLV_AUTH_NONE @ to_le 2 (4 :: u16) @ response_pdu gs rs reserved params rest"
  have "parse_rate_response_with_auth open ?data AuthNone (cookie_hash_cache AuthNone) (aes_key_cache AuthNone) =
      Ok (response_result gs rs (th_key_id h) (th_steering_feedback h \<noteq> 0))"
    unfolding parse_rate_response_iff
    by (rule exI [of _ h], rule exI [of _ "[]"], rule exI, rule exI [of _ "response_pdu gs rs reserved params rest"])
      (use assms in \<open>simp add: auth_frame_def parse_response_pdu_complete\<close>)
  then show ?thesis by (simp add: cookie_hash_cache_def aes_key_cache_def)
qed

text \<open>
  C12: a client holding a credential accepts exactly the packets whose tenant header is
  well formed, whose authentication frame a peer with that credential would make (the
  very cookie, or a ciphertext that opens under the key with the header and nonce as
  associated data), and whose authenticated PDU is a rate response; the server
  identifier and the steering flag are those of the header.
\<close>

theorem parse_rate_response_accepts:
  "parse_rate_response_with_auth open data m (cookie_hash_cache m) (aes_key_cache m) = Ok r \<longleftrightarrow>
    (\<exists>h ext frame pdu. tenant_shape h ext \<and> data = tenant_wire h @ ext @ frame \<and>
      auth_frame open m (tenant_wire h @ ext) frame pdu \<and>
      parse_rate_response_pdu pdu (th_key_id h) (th_steering_feedback h \<noteq> 0) = Ok r)"
  by (rule parse_rate_response_iff)

section \<open>Frames of requests\<close>

text \<open>
  The documented behaviour of AES-256-GCM as the crate exposes it: the ciphertext is the
  message's length plus the 16-byte tag, and it opens under the same key, nonce and
  associated data.
\<close>

definition aead :: "cipher \<Rightarrow> cipher \<Rightarrow> bool" where
  "aead seal open \<longleftrightarrow> (\<forall>key nonce aad msg c. seal key nonce aad msg = Some c \<longrightarrow>
     length c = length msg + 16 \<and> open key nonce aad c = Some msg)"

definition credential_shape :: "auth_method \<Rightarrow> bool" where
  "credential_shape m \<longleftrightarrow> (case m of AuthNone \<Rightarrow> True | Cookie c \<Rightarrow> length c = 32 | AesGcm k \<Rightarrow> length k = 32)"

lemma encrypt_pdu_OkD:
  assumes "aead seal open" "encrypt_pdu seal nonce pdu key aad = Ok (c, n, t)"
  shows "n = nonce \<and> length t = 16 \<and> length c = length pdu \<and> open key nonce (aad @ nonce) (c @ t) = Some pdu"
proof -
  obtain ct where ct: "seal key nonce (aad @ nonce) pdu = Some ct"
      "length ct = length pdu + 16" "open key nonce (aad @ nonce) ct = Some pdu"
    using assms by (auto simp: encrypt_pdu_def aead_def split: option.splits)
  moreover have "c = take (length pdu) ct" "t = drop (length pdu) ct" "n = nonce"
    using assms(2) ct by (simp_all add: encrypt_pdu_def sub_n_def slice_from_def slice_def)
  ultimately show ?thesis by simp
qed

lemma append_auth_tlv_out:
  assumes "aead seal open" "length nonce = 12" "credential_shape m"
    and "append_auth_tlv seal nonce m (cookie_hash_cache m) (aes_key_cache m) packet pdu = Ok out"
  shows "\<exists>frame. out = packet @ frame \<and> length frame = auth_header_size m + length pdu \<and>
    auth_frame open m packet frame pdu \<and>
    (\<exists>d. parse_auth_tlv open out (length packet) m (cookie_hash_cache m) (aes_key_cache m) = Ok d \<and>
      as_slice d = pdu)"
proof -
  have "\<exists>frame. out = packet @ frame \<and> length frame = auth_header_size m + length pdu \<and>
    auth_frame open m packet frame pdu"
  proof (cases m)
    case AuthNone
    then show ?thesis using assms(4) by (auto simp: append_auth_tlv_def auth_frame_def)
  next
    case (Cookie c)
    then show ?thesis using assms(3,4)
      by (auto simp: append_auth_tlv_def auth_frame_def credential_shape_def Let_def)
  next
    case (AesGcm key)
    let ?packet = "packet @ to_le 2 TLV_AUTH_AES @ to_le 2 (32 :: u16)"
    obtain c n t where e: "encrypt_pdu seal nonce pdu key ?packet = (Ok (c, n, t) :: (_, core_error) res)"
        "out = ?packet @ n @ t @ c"
      using assms(4) AesGcm by (auto simp: append_auth_tlv_def Let_def outcome_simps)
    show ?thesis
      using encrypt_pdu_OkD [OF assms(1) e(1)] e(2) AesGcm assms(2)
      by (auto simp: auth_frame_def)
  qed
  then show ?thesis using parse_auth_complete by (fastforce simp: parse_auth_def)
qed

text \<open>
  C21: the authentication frame of a request is one that the parser accepts for the
  same credential and that yields the very PDU; the header accounts for exactly the
  bytes \<open>auth_header_size\<close> announces, which the size check relies on.
\<close>

theorem append_auth_tlv_frame:
  assumes "aead seal open" "length nonce = 12" "credential_shape m"
    and "append_auth_tlv seal nonce m (cookie_hash_cache m) (aes_key_cache m) packet pdu = Ok out"
  shows "\<exists>frame. out = packet @ frame \<and> length frame = auth_header_size m + length pdu \<and>
    auth_frame open m packet frame pdu \<and>
    (\<exists>d. parse_auth_tlv open out (length packet) m (cookie_hash_cache m) (aes_key_cache m) = Ok d \<and>
      as_slice d = pdu)"
  by (rule append_auth_tlv_out [OF assms])

text \<open>A cipher to run the statement on: the identity with a checksum for a tag.\<close>

definition toy_seal :: cipher where
  "toy_seal key nonce aad msg = Some (msg @ replicate 16 (sum_list (key @ nonce @ aad @ msg)))"

definition toy_open :: cipher where
  "toy_open key nonce aad c =
    (let msg = take (length c - 16) c in
     if toy_seal key nonce aad msg = Some c then Some msg else None)"

lemma toy_aead: "aead toy_seal toy_open"
  by (auto simp: aead_def toy_seal_def toy_open_def Let_def)

theorem append_auth_tlv_frame_witness:
  "\<exists>out d. append_auth_tlv toy_seal (replicate 12 1) (AesGcm (replicate 32 2)) None (Some (replicate 32 2)) [9] [3, 4] = Ok out \<and>
    length out = 35 \<and>
    parse_auth_tlv toy_open out 1 (AesGcm (replicate 32 2)) None (Some (replicate 32 2)) = Ok d \<and> as_slice d = [3, 4]"
proof -
  let ?m = "AesGcm (replicate 32 2)"
  obtain out where o: "append_auth_tlv toy_seal (replicate 12 1) ?m None (Some (replicate 32 2)) [9] [3, 4] = Ok out"
    by (simp add: append_auth_tlv_def encrypt_pdu_def toy_seal_def sub_n_def slice_from_def slice_def Let_def)
  show ?thesis
    using append_auth_tlv_frame [OF toy_aead, of "replicate 12 1" ?m "[9]" "[3, 4]" out] o
    by (auto simp: credential_shape_def)
qed

end
