(* ===== verification/HaPolicy.thy ===== *)
theory HaPolicy
  imports Sockets RequestPolicy Response
begin

text \<open>
  The high-availability exchange of \<open>src/client.rs\<close>: one request packet is sent to every
  server, replayed on a schedule, and the answer of the oldest server is preferred.  The
  network and the clock are arguments that thread a state of their own.
\<close>

section \<open>Server age\<close>

datatype ordering = Less | Equal | Greater

definition SERVER_ID_EPOCH_S_2025 :: u64 where "SERVER_ID_EPOCH_S_2025 = 1735689600"

text \<open>The sum stays below \<open>2 ^ 42\<close>, so the addition does not overflow.\<close>

definition server_start_s_from_id :: "u64 \<Rightarrow> u64" where
  "server_start_s_from_id server_id = SERVER_ID_EPOCH_S_2025 + drop_bit 23 server_id"

definition compare_u64 :: "u64 \<Rightarrow> u64 \<Rightarrow> ordering" where
  "compare_u64 a b = (if a < b then Less else if a = b then Equal else Greater)"

text \<open>Pairs compare by the first component, then by the second.\<close>

definition compare_server_age :: "u64 \<Rightarrow> u64 \<Rightarrow> ordering" where
  "compare_server_age left right =
    (case compare_u64 (server_start_s_from_id left) (server_start_s_from_id right) of
       Equal \<Rightarrow> compare_u64 left right
     | unequal \<Rightarrow> unequal)"

text \<open>\<open>Iterator::min_by\<close>: the first of the minimal elements.\<close>

fun min_by :: "('a \<Rightarrow> 'a \<Rightarrow> ordering) \<Rightarrow> 'a list \<Rightarrow> 'a option" where
  "min_by cmp [] = None"
| "min_by cmp (x # xs) = Some (foldl (\<lambda>a b. if cmp a b = Greater then b else a) x xs)"

definition oldest_server_id :: "resolved_targets \<Rightarrow> u64 option" where
  "oldest_server_id resolved = min_by compare_server_age (allowed_server_ids resolved)"

section \<open>State\<close>

record response_packet =
  rp_data :: bytes
  rp_addr :: socket_addr

text \<open>The counts are unbounded: \<open>2 ^ 64\<close> events are out of reach.\<close>

record server_stats =
  last_seen :: nat
  valid_responses :: nat
  server_send_failures :: nat

definition server_stats_new :: "nat \<Rightarrow> server_stats" where
  "server_stats_new now = \<lparr>last_seen = now, valid_responses = 0, server_send_failures = 0\<rparr>"

text \<open>
  What a request consults and does not change.  \<open>clock\<close> reads the monotonic clock in
  nanoseconds, \<open>receive\<close> waits at most so long for a packet from the response router (or
  for its end), \<open>transmit\<close> is the kernel's \<open>send_to\<close>.
\<close>

record 'e exchange =
  clock :: "'e \<Rightarrow> nat \<times> 'e"
  receive :: "nat \<Rightarrow> 'e \<Rightarrow> response_packet option \<times> 'e"
  transmit :: "udp_socket \<Rightarrow> bytes \<Rightarrow> socket_addr \<Rightarrow> 'e \<Rightarrow> (nat, io_error) res \<times> 'e"
  ex_cipher :: cipher
  ex_auth_method :: auth_method
  ex_cookie_hash :: "bytes option"
  ex_aes_key :: "bytes option"
  ex_sockets :: family_sockets
  ex_packet :: bytes
  ex_resolved :: resolved_targets

text \<open>
  What it changes: the servers and addresses that have answered, the statistics shared by
  all requests, and the results of its sends, which the traffic counters are told.
\<close>

record progress =
  seen_server_ids :: "u64 set"
  seen_addrs :: "socket_addr set"
  stats :: "u64 \<rightharpoonup> server_stats"
  send_results :: "(socket_addr \<times> (nat, io_error) res) list"

definition update_stats :: "u64 \<Rightarrow> nat \<Rightarrow> (server_stats \<Rightarrow> server_stats) \<Rightarrow> progress \<Rightarrow> progress" where
  "update_stats i now f p =
    (let entry = (case stats p i of Some st \<Rightarrow> st | None \<Rightarrow> server_stats_new now)
     in p\<lparr>stats := (stats p)(i \<mapsto> f entry)\<rparr>)"

section \<open>Sending\<close>

definition send_to :: "'e exchange \<Rightarrow> bytes \<Rightarrow> socket_addr \<Rightarrow> 'e \<Rightarrow> (nat, io_error) res \<times> 'e" where
  "send_to x buf target e =
    (case send_socket (ex_sockets x) target of
       Some socket \<Rightarrow> transmit x socket buf target e
     | None \<Rightarrow> (Err no_family_socket, e))"

definition send_datagram ::
  "'e exchange \<Rightarrow> bytes \<Rightarrow> socket_addr \<Rightarrow> progress \<Rightarrow> 'e \<Rightarrow> (nat, io_error) res \<times> progress \<times> 'e"
where
  "send_datagram x packet target p e =
    (let (result, e) = send_to x packet target e
     in (result, p\<lparr>send_results := send_results p @ [(target, result)]\<rparr>, e))"

definition record_send_failures :: "'e exchange \<Rightarrow> u64 list \<Rightarrow> progress \<Rightarrow> 'e \<Rightarrow> progress \<times> 'e" where
  "record_send_failures x server_ids p e =
    (if server_ids = [] then (p, e)
     else let (now, e) = clock x e
          in (foldl (\<lambda>p i. update_stats i now (\<lambda>st. st\<lparr>server_send_failures := server_send_failures st + 1\<rparr>) p)
                p server_ids, e))"

record send_counts =
  attempted :: nat
  delivered :: nat
  last_error :: "io_error option"
  failed_server_ids :: "u64 list"

definition no_sends :: send_counts where
  "no_sends = \<lparr>attempted = 0, delivered = 0, last_error = None, failed_server_ids = []\<rparr>"

definition responded :: "resolved_targets \<Rightarrow> progress \<Rightarrow> socket_addr \<Rightarrow> bool" where
  "responded resolved p target =
    (case target_server_ids resolved target of
       None \<Rightarrow> target \<in> seen_addrs p
     | Some i \<Rightarrow> i \<in> seen_server_ids p)"

fun send_loop ::
  "'e exchange \<Rightarrow> socket_addr list \<Rightarrow> send_counts \<Rightarrow> progress \<Rightarrow> 'e \<Rightarrow> send_counts \<times> progress \<times> 'e"
where
  "send_loop x [] c p e = (c, p, e)"
| "send_loop x (target # rest) c p e =
    (if responded (ex_resolved x) p target then send_loop x rest c p e
     else let c = c\<lparr>attempted := attempted c + 1\<rparr>;
              (result, p, e) = send_datagram x (ex_packet x) target p e
          in case result of
               Err error \<Rightarrow>
                 send_loop x rest
                   (c\<lparr>failed_server_ids := failed_server_ids c @
                        (case target_server_ids (ex_resolved x) target of Some i \<Rightarrow> [i] | None \<Rightarrow> []),
                      last_error := Some error\<rparr>) p e
             | _ \<Rightarrow> send_loop x rest (c\<lparr>delivered := delivered c + 1\<rparr>) p e)"

definition send_to_missing :: "'e exchange \<Rightarrow> progress \<Rightarrow> 'e \<Rightarrow> (unit, core_error) res \<times> progress \<times> 'e" where
  "send_to_missing x p e =
    (let (c, p, e) = send_loop x (targets (ex_resolved x)) no_sends p e
     in if delivered c = 0
        then (case last_error c of Some error \<Rightarrow> (Err (CoreIo error), p, e) | None \<Rightarrow> (Ok (), p, e))
        else if delivered c < attempted c
        then let (p, e) = record_send_failures x (failed_server_ids c) p e in (Ok (), p, e)
        else (Ok (), p, e))"

section \<open>Accepting a response\<close>

definition parse_rate_response :: "'e exchange \<Rightarrow> bytes \<Rightarrow> (rate_limit_result, core_error) res" where
  [simp]: "parse_rate_response x data =
    parse_rate_response_with_auth (ex_cipher x) data (ex_auth_method x) (ex_cookie_hash x) (ex_aes_key x)"

text \<open>
  A packet whose header or body does not parse is dropped.  Neither function panics
  (\<open>peek_eq_parse\<close> and \<open>parse_rate_response_total\<close> of \<open>Response\<close>), so the last
  arms of the two cases stand for no identifier and for an error alone.
\<close>

definition accept_policy_response ::
  "'e exchange \<Rightarrow> response_packet \<Rightarrow> progress \<Rightarrow> 'e \<Rightarrow> rate_limit_result option \<times> progress \<times> 'e"
where
  "accept_policy_response x packet p e =
    (let allowed = allowed_server_ids (ex_resolved x) in
     case peek_server_id (rp_data packet) of
       Ok (Some server_id) \<Rightarrow>
         if allowed \<noteq> [] \<and> server_id \<notin> set allowed then (None, p, e)
         else (case parse_rate_response x (rp_data packet) of
            Ok result \<Rightarrow>
              let p = p\<lparr>seen_server_ids := insert (rl_server_id result) (seen_server_ids p),
                        seen_addrs := insert (rp_addr packet) (seen_addrs p)\<rparr>;
                  (now, e) = clock x e
              in (Some result,
                  update_stats (rl_server_id result) now
                    (\<lambda>st. st\<lparr>last_seen := now, valid_responses := valid_responses st + 1\<rparr>) p, e)
          | _ \<Rightarrow> (None, p, e))
     | _ \<Rightarrow> (None, p, e))"

section \<open>Receive windows\<close>

definition older :: "rate_limit_result \<Rightarrow> rate_limit_result option \<Rightarrow> bool" where
  "older result best =
    (case best of None \<Rightarrow> True
     | Some current \<Rightarrow> compare_server_age (rl_server_id result) (rl_server_id current) = Less)"

text \<open>
  The loop over one round's window; the first component tells whether it returned from
  the request.  A clock that stands still while packets arrive makes it run forever: the
  value is then \<open>None\<close>.
\<close>

partial_function (option) round_window ::
  "'e exchange \<Rightarrow> u64 option \<Rightarrow> u32 \<Rightarrow> nat \<Rightarrow> rate_limit_result option \<Rightarrow> progress \<Rightarrow> 'e
   \<Rightarrow> (bool \<times> rate_limit_result option \<times> progress \<times> 'e) option"
where
  "round_window x oldest round deadline best p e =
    (let (now, e) = clock x e in
     if \<not> now < deadline then Some (False, best, p, e)
     else let (now, e) = clock x e;
              (received, e) = receive x (deadline - now) e
          in case received of
               None \<Rightarrow> Some (False, best, p, e)
             | Some packet \<Rightarrow>
                 let (accepted, p, e) = accept_policy_response x packet p e
                 in case accepted of
                      None \<Rightarrow> round_window x oldest round deadline best p e
                    | Some result \<Rightarrow>
                        let best = (if older result best then Some result else best)
                        in if oldest = Some (rl_server_id result) \<or> 0 < round then Some (True, best, p, e)
                           else round_window x oldest round deadline best p e)"

text \<open>The last window: the first valid response wins.\<close>

partial_function (option) final_window ::
  "'e exchange \<Rightarrow> nat \<Rightarrow> progress \<Rightarrow> 'e \<Rightarrow> (rate_limit_result option \<times> progress \<times> 'e) option"
where
  "final_window x deadline p e =
    (let (now, e) = clock x e in
     if \<not> now < deadline then Some (None, p, e)
     else let (now, e) = clock x e;
              (received, e) = receive x (deadline - now) e
          in case received of
               None \<Rightarrow> Some (None, p, e)
             | Some packet \<Rightarrow>
                 let (accepted, p, e) = accept_policy_response x packet p e
                 in case accepted of
                      None \<Rightarrow> final_window x deadline p e
                    | Some result \<Rightarrow> Some (Some result, p, e))"

text \<open>\<open>Duration::from_millis(unit_ms.saturating_mul(units as u64))\<close>, in nanoseconds.\<close>

definition window_ns :: "request_policy \<Rightarrow> u32 \<Rightarrow> nat" where
  "window_ns policy n = 1000000 * unat (saturating_mul (unit_ms policy) (ucast n :: u64))"

type_synonym 'e outcome = "((rate_limit_result option, core_error) res \<times> progress \<times> 'e) option"

primrec run_rounds ::
  "'e exchange \<Rightarrow> request_policy \<Rightarrow> u64 option \<Rightarrow> u32 list \<Rightarrow> rate_limit_result option
   \<Rightarrow> progress \<Rightarrow> 'e \<Rightarrow> 'e outcome"
where
  "run_rounds x policy oldest [] best p e = Some (Ok None, p, e)"
| "run_rounds x policy oldest (round # rounds) best p e =
    (let (sent, p, e) = send_to_missing x p e in
     case and_then sent (\<lambda>_. map_err (\<lambda>m. CoreConfig (display_configuration_error m))
            (units (replay_gap policy) round)) of
       Err error \<Rightarrow> Some (Err error, p, e)
     | Panic \<Rightarrow> Some (Panic, p, e)
     | Ok n \<Rightarrow>
         let (now, e) = clock x e
         in case round_window x oldest round (now + window_ns policy n) best p e of
              None \<Rightarrow> None
            | Some (returned, best, p, e) \<Rightarrow>
                if returned \<or> best \<noteq> None then Some (Ok best, p, e)
                else run_rounds x policy oldest rounds best p e)"

text \<open>The asynchronous block whose value is \<open>outcome\<close>.\<close>

definition policy_outcome :: "'e exchange \<Rightarrow> request_policy \<Rightarrow> progress \<Rightarrow> 'e \<Rightarrow> 'e outcome" where
  "policy_outcome x policy p e =
    (case run_rounds x policy (oldest_server_id (ex_resolved x)) (rounds_upto (replay_count policy)) None p e of
       Some (Ok None, p, e) \<Rightarrow>
         if 0 < final_receive_units policy
         then let (now, e) = clock x e
              in (case final_window x (now + window_ns policy (final_receive_units policy)) p e of
                    None \<Rightarrow> None
                  | Some (selected, p, e) \<Rightarrow> Some (Ok selected, p, e))
         else Some (Ok None, p, e)
     | other \<Rightarrow> other)"

text \<open>
  The exchange of a request from \<open>started_at\<close> up to the release of its activity guard,
  with the completion delivery to the servers that have not answered.
\<close>

definition exchange_request ::
  "'e exchange \<Rightarrow> request_policy \<Rightarrow> u32 \<Rightarrow> progress \<Rightarrow> 'e
   \<Rightarrow> ((rate_limit_result, core_error) res \<times> progress \<times> 'e) option"
where
  "exchange_request x policy dedup_ttl_ms p e =
    (let (started_at, e) = clock x e
     in case policy_outcome x policy p e of
          None \<Rightarrow> None
        | Some (Err error, p, e) \<Rightarrow> Some (Err error, p, e)
        | Some (Panic, p, e) \<Rightarrow> Some (Panic, p, e)
        | Some (Ok None, p, e) \<Rightarrow> Some (Err CoreTimeout, p, e)
        | Some (Ok (Some result), p, e) \<Rightarrow>
            if \<not> completion_delivery policy then Some (Ok result, p, e)
            else let (now, e) = clock x e
                 in if now - started_at < 1000000 * unat dedup_ttl_ms
                    then let (_, p, e) = send_to_missing x p e in Some (Ok result, p, e)
                    else Some (Ok result, p, e))"

section \<open>Age is the order of identifiers\<close>

text \<open>A comparison that agrees with a linear order selects the least element.\<close>

locale age_order =
  fixes cmp :: "'a::linorder \<Rightarrow> 'a \<Rightarrow> ordering"
  assumes cmp_Less: "cmp a b = Less \<longleftrightarrow> a < b"
    and cmp_Greater: "cmp a b = Greater \<longleftrightarrow> b < a"
begin

lemma foldl_min: "foldl (\<lambda>a b. if cmp a b = Greater then b else a) x xs = Min (insert x (set xs))"
proof (induction xs arbitrary: x)
  case (Cons y ys)
  have "(if cmp x y = Greater then y else x) = min x y" by (auto simp: cmp_Greater min_def)
  then show ?case using Cons.IH [of "min x y"]
    by (cases "ys = []") (auto simp: min.assoc insert_commute Min_insert)
qed simp

lemma min_by_Min: "min_by cmp xs = (if xs = [] then None else Some (Min (set xs)))"
  by (cases xs) (simp_all add: foldl_min)

end

lemma unat_server_start: "unat (server_start_s_from_id i) = 1735689600 + unat i div 2 ^ 23"
proof -
  have "unat i < 2 ^ 64" using unsigned_less [of i, where 'a = nat] by simp
  then have "unat i div 2 ^ 23 < 2 ^ 41" by (simp add: div_less_iff_less_mult)
  then have "(1735689600 + unat i div 2 ^ 23) mod 2 ^ 64 = 1735689600 + unat i div 2 ^ 23"
    by (intro mod_less) simp
  then show ?thesis
    by (simp add: server_start_s_from_id_def SERVER_ID_EPOCH_S_2025_def unat_word_ariths
        unat_drop_bit_eq drop_bit_eq_div)
qed

lemma compare_server_age_id: "compare_server_age a b = compare_u64 a b"
proof -
  have "unat a div 2 ^ 23 \<le> unat b div 2 ^ 23" if "a < b"
    using that by (intro div_le_mono) (simp add: word_less_nat_alt)
  moreover have "unat b div 2 ^ 23 \<le> unat a div 2 ^ 23" if "b < a"
    using that by (intro div_le_mono) (simp add: word_less_nat_alt)
  ultimately show ?thesis
    by (auto simp: compare_server_age_def compare_u64_def word_less_nat_alt word_unat_eq_iff unat_server_start
        split: if_splits)
qed

interpretation age: age_order compare_server_age
  by unfold_locales (auto simp: compare_server_age_id compare_u64_def)

lemma oldest_server_Min:
  "oldest_server_id r = (if allowed_server_ids r = [] then None else Some (Min (set (allowed_server_ids r))))"
  by (simp add: oldest_server_id_def age.min_by_Min)

section \<open>Accepted answers\<close>

text \<open>The answer a packet carries for this request, whatever the state.\<close>

definition answer_of :: "'e exchange \<Rightarrow> response_packet \<Rightarrow> rate_limit_result option" where
  "answer_of x packet =
    (case parse_rate_response_with_auth (ex_cipher x) (rp_data packet) (ex_auth_method x)
            (ex_cookie_hash x) (ex_aes_key x) of
       Ok result \<Rightarrow>
         if allowed_server_ids (ex_resolved x) = [] \<or>
           rl_server_id result \<in> set (allowed_server_ids (ex_resolved x))
         then Some result else None
     | _ \<Rightarrow> None)"

definition note_answer :: "response_packet \<Rightarrow> rate_limit_result \<Rightarrow> nat \<Rightarrow> progress \<Rightarrow> progress" where
  "note_answer packet result now p =
    update_stats (rl_server_id result) now
      (\<lambda>st. st\<lparr>last_seen := now, valid_responses := valid_responses st + 1\<rparr>)
      (p\<lparr>seen_server_ids := insert (rl_server_id result) (seen_server_ids p),
         seen_addrs := insert (rp_addr packet) (seen_addrs p)\<rparr>)"

lemma update_stats_seen [simp]:
  "seen_server_ids (update_stats i now f p) = seen_server_ids p"
  "seen_addrs (update_stats i now f p) = seen_addrs p"
  "send_results (update_stats i now f p) = send_results p"
  by (simp_all add: update_stats_def Let_def)

lemma note_answer_simps [simp]:
  "seen_server_ids (note_answer packet result now p) = insert (rl_server_id result) (seen_server_ids p)"
  "seen_addrs (note_answer packet result now p) = insert (rp_addr packet) (seen_addrs p)"
  "send_results (note_answer packet result now p) = send_results p"
  by (simp_all add: note_answer_def)

lemma response_pdu_server_id: "parse_rate_response_pdu d i s = Ok r \<Longrightarrow> rl_server_id r = i"
  by (auto simp: parse_rate_response_pdu_def outcome_simps Let_def split: if_splits)

lemma parse_peek:
  "parse_rate_response_with_auth open data m cookie aes = Ok r \<Longrightarrow> peek_server_id data = Ok (Some (rl_server_id r))"
  using peek_eq_parse [of data]
  by (auto simp: parse_rate_response_with_auth_def outcome_simps Let_def dest: response_pdu_server_id)

lemma accept_eq:
  "accept_policy_response x packet p e =
    (case answer_of x packet of None \<Rightarrow> (None, p, e)
     | Some r \<Rightarrow> (case clock x e of (now, e') \<Rightarrow> (Some r, note_answer packet r now p, e')))"
proof (cases "parse_rate_response_with_auth (ex_cipher x) (rp_data packet) (ex_auth_method x)
            (ex_cookie_hash x) (ex_aes_key x)")
  case (Ok r)
  then show ?thesis using parse_peek [OF Ok]
    by (auto simp: accept_policy_response_def answer_of_def note_answer_def Let_def split: prod.splits)
next
  case (Err e)
  then show ?thesis
    by (auto simp: accept_policy_response_def answer_of_def Let_def split: res.splits option.splits)
next
  case Panic
  then show ?thesis
    by (auto simp: accept_policy_response_def answer_of_def Let_def split: res.splits option.splits)
qed

lemma answer_allowed:
  "answer_of x packet = Some r \<Longrightarrow> allowed_server_ids (ex_resolved x) \<noteq> [] \<Longrightarrow>
    rl_server_id r \<in> set (allowed_server_ids (ex_resolved x))"
  by (auto simp: answer_of_def split: res.splits if_splits)

section \<open>Selection\<close>

text \<open>A result that was received, and the choice kept among the servers that answered.\<close>

definition received_answer :: "'e exchange \<Rightarrow> rate_limit_result \<Rightarrow> bool" where
  "received_answer x r \<longleftrightarrow>
    (\<exists>packet t e e'. receive x t e = (Some packet, e') \<and> answer_of x packet = Some r)"

definition selection :: "'e exchange \<Rightarrow> rate_limit_result option \<Rightarrow> progress \<Rightarrow> bool" where
  "selection x best p \<longleftrightarrow> finite (seen_server_ids p) \<and>
    (allowed_server_ids (ex_resolved x) = [] \<or> seen_server_ids p \<subseteq> set (allowed_server_ids (ex_resolved x))) \<and>
    (case best of
       None \<Rightarrow> seen_server_ids p = {} \<and> seen_addrs p = {}
     | Some r \<Rightarrow> seen_server_ids p \<noteq> {} \<and> rl_server_id r = Min (seen_server_ids p) \<and> received_answer x r)"

lemma older_less: "older r best \<longleftrightarrow> (case best of None \<Rightarrow> True | Some b \<Rightarrow> rl_server_id r < rl_server_id b)"
  by (auto simp: older_def age.cmp_Less split: option.splits)

lemma min_word: "min a m = (if a < m then a else m)" for a m :: u64
  by (auto simp: min_def)

lemma selection_note:
  assumes "selection x best p" "receive x t e = (Some packet, e')" "answer_of x packet = Some r"
  shows "selection x (if older r best then Some r else best) (note_answer packet r now p)"
proof -
  have r: "received_answer x r" using assms(2,3) unfolding received_answer_def by blast
  show ?thesis
  proof (cases best)
    case None
    then show ?thesis using assms r answer_allowed [OF assms(3)] by (auto simp: selection_def older_less)
  next
    case (Some b)
    let ?S = "seen_server_ids p"
    from Some have S: "finite ?S" "?S \<noteq> {}" "rl_server_id b = Min ?S" "received_answer x b"
      using assms(1) by (simp_all add: selection_def)
    then have m: "Min (insert (rl_server_id r) ?S) = (if rl_server_id r < Min ?S then rl_server_id r else Min ?S)"
      using Min_insert [OF S(1,2)] min_word [of "rl_server_id r"] by simp
    show ?thesis
    proof (cases "rl_server_id r < Min ?S")
      case True
      then show ?thesis using assms(1) r answer_allowed [OF assms(3)] Some S m
        by (auto simp: selection_def older_less simp del: Min_less_iff Min_insert)
    next
      case False
      then show ?thesis using assms(1) r answer_allowed [OF assms(3)] Some S m
        by (auto simp: selection_def older_less simp del: Min_less_iff Min_insert)
    qed
  qed
qed

lemmas round_window_induct = round_window.raw_induct
  [where xa = "((((((x, oldest), round), deadline), best), p), e)" for x oldest round deadline best p e,
    unfolded prod.case, rotated, consumes 1, case_names window]

lemmas final_window_induct = final_window.raw_induct
  [where xa = "(((x, deadline), p), e)" for x deadline p e, unfolded prod.case, rotated, consumes 1, case_names window]

lemma round_window_selection:
  assumes "round_window x oldest round deadline best p e = Some (returned, best', p', e')"
    and "selection x best p"
  shows "selection x best' p' \<and> (returned \<longrightarrow> best' \<noteq> None \<and>
    (oldest \<noteq> None \<and> the oldest \<in> seen_server_ids p' \<or> 0 < round)) \<and> send_results p' = send_results p"
proof -
  have "round_window x oldest round deadline best p e = Some out \<Longrightarrow>
    selection x best p \<longrightarrow> (case out of (returned, best', p', e') \<Rightarrow>
      selection x best' p' \<and> (returned \<longrightarrow> best' \<noteq> None \<and>
        (oldest \<noteq> None \<and> the oldest \<in> seen_server_ids p' \<or> 0 < round)) \<and> send_results p' = send_results p)"
    for out
  proof (induction x oldest round deadline best p e out rule: round_window_induct)
    case (window f x oldest round deadline best p e out)
    show ?case
    proof (intro impI)
      assume sel: "selection x best p"
      obtain now e1 where c1: "clock x e = (now, e1)" by force
      obtain now2 e2 where c2: "clock x e1 = (now2, e2)" by force
      obtain received e3 where rc: "receive x (deadline - now2) e2 = (received, e3)" by force
      note body = window(2) [unfolded c1 c2 rc Let_def accept_eq prod.case]
      show "case out of (returned, best', p', e') \<Rightarrow>
        selection x best' p' \<and> (returned \<longrightarrow> best' \<noteq> None \<and>
          (oldest \<noteq> None \<and> the oldest \<in> seen_server_ids p' \<or> 0 < round)) \<and> send_results p' = send_results p"
      proof (cases "now < deadline \<and> received \<noteq> None")
        case False
        then show ?thesis using body sel by (auto split: if_splits)
      next
        case True
        then obtain packet where pk: "received = Some packet" by blast
        show ?thesis
        proof (cases "answer_of x packet")
          case None
          then have "f x oldest round deadline best p e3 = Some out" using body True pk by simp
          from window(1) [OF this] show ?thesis using sel by simp
        next
          case (Some r)
          obtain now3 e4 where c3: "clock x e3 = (now3, e4)" by force
          let ?best = "if older r best then Some r else best"
          let ?p = "note_answer packet r now3 p"
          have sel': "selection x ?best ?p" using selection_note [OF sel] rc pk Some by blast
          show ?thesis
          proof (cases "oldest = Some (rl_server_id r) \<or> 0 < round")
            case ret: True
            then have "out = (True, ?best, ?p, e4)" using body True pk Some c3 by simp
            then show ?thesis using sel' ret by (auto simp: older_less split: option.splits)
          next
            case cont: False
            then have "f x oldest round deadline ?best ?p e4 = Some out" using body True pk Some c3 by simp
            from window(1) [OF this] show ?thesis using sel' by simp
          qed
        qed
      qed
    qed
  qed
  from this [OF assms(1)] assms(2) show ?thesis by simp
qed

lemma final_window_selection:
  assumes "final_window x deadline p e = Some (best', p', e')" and "selection x None p"
  shows "selection x best' p' \<and> send_results p' = send_results p"
proof -
  have "final_window x deadline p e = Some out \<Longrightarrow>
    selection x None p \<longrightarrow> (case out of (best', p', e') \<Rightarrow> selection x best' p' \<and> send_results p' = send_results p)"
    for out
  proof (induction x deadline p e out rule: final_window_induct)
    case (window f x deadline p e out)
    obtain now e1 where c1: "clock x e = (now, e1)" by force
    obtain now2 e2 where c2: "clock x e1 = (now2, e2)" by force
    obtain received e3 where rc: "receive x (deadline - now2) e2 = (received, e3)" by force
    note body = window(2) [unfolded c1 c2 rc Let_def accept_eq prod.case]
    show ?case
    proof (intro impI)
      assume sel: "selection x None p"
      show "case out of (best', p', e') \<Rightarrow> selection x best' p' \<and> send_results p' = send_results p"
      proof (cases "now < deadline \<and> received \<noteq> None")
        case False
        then show ?thesis using body sel by (auto split: if_splits)
      next
        case True
        then obtain packet where pk: "received = Some packet" by blast
        show ?thesis
        proof (cases "answer_of x packet")
          case None
          then have "f x deadline p e3 = Some out" using body True pk by simp
          from window(1) [OF this] show ?thesis using sel by simp
        next
          case (Some r)
          obtain now3 e4 where c3: "clock x e3 = (now3, e4)" by force
          have "out = (Some r, note_answer packet r now3 p, e4)" using body True pk Some c3 by simp
          then show ?thesis using selection_note [OF sel, where now = now3] rc pk Some
            by (simp add: older_less)
        qed
      qed
    qed
  qed
  from this [OF assms(1)] assms(2) show ?thesis by simp
qed

section \<open>Sends\<close>

definition missing_targets :: "'e exchange \<Rightarrow> progress \<Rightarrow> socket_addr list" where
  "missing_targets x p = filter (\<lambda>t. \<not> responded (ex_resolved x) p t) (targets (ex_resolved x))"

definition failure :: "(nat, io_error) res \<Rightarrow> io_error option" where
  "failure r = (case r of Err e \<Rightarrow> Some e | _ \<Rightarrow> None)"

definition failures :: "(nat, io_error) res list \<Rightarrow> io_error list" where
  "failures rs = List.map_filter failure rs"

definition failed_ids :: "'e exchange \<Rightarrow> (socket_addr \<times> (nat, io_error) res) list \<Rightarrow> u64 list" where
  "failed_ids x sent =
    List.map_filter (\<lambda>(t, r). if failure r = None then None else target_server_ids (ex_resolved x) t) sent"

lemma failure_simps [simp]:
  "failure (Ok n) = None" "failure (Err e) = Some e" "failure Panic = None"
  by (simp_all add: failure_def)

lemma responded_results [simp]: "responded r (p\<lparr>send_results := l\<rparr>) = responded r p"
  by (rule ext) (simp add: responded_def split: option.splits)

lemma send_loop_spec:
  "send_loop x ts c p e = (c', p', e') \<Longrightarrow>
    \<exists>rs. length rs = length (filter (\<lambda>t. \<not> responded (ex_resolved x) p t) ts) \<and>
      p' = p\<lparr>send_results := send_results p @ zip (filter (\<lambda>t. \<not> responded (ex_resolved x) p t) ts) rs\<rparr> \<and>
      attempted c' = attempted c + length rs \<and>
      delivered c' + length (failures rs) = delivered c + length rs \<and>
      last_error c' = (if failures rs = [] then last_error c else Some (last (failures rs))) \<and>
      failed_server_ids c' = failed_server_ids c @
        failed_ids x (zip (filter (\<lambda>t. \<not> responded (ex_resolved x) p t) ts) rs)"
proof (induction ts arbitrary: c p e)
  case Nil
  then show ?case by (simp add: failures_def failed_ids_def List.map_filter_simps)
next
  case (Cons t ts)
  show ?case
  proof (cases "responded (ex_resolved x) p t")
    case True
    then show ?thesis using Cons.IH [of c p e] Cons.prems by simp
  next
    case False
    obtain r e1 where s: "send_to x (ex_packet x) t e = (r, e1)" by force
    let ?p = "p\<lparr>send_results := send_results p @ [(t, r)]\<rparr>"
    define c1 where "c1 = (case r of
        Err error \<Rightarrow> c\<lparr>attempted := attempted c + 1,
            failed_server_ids := failed_server_ids c @
                (case target_server_ids (ex_resolved x) t of Some i \<Rightarrow> [i] | None \<Rightarrow> []),
            last_error := Some error\<rparr>
      | _ \<Rightarrow> c\<lparr>attempted := attempted c + 1, delivered := delivered c + 1\<rparr>)"
    have "send_loop x ts c1 ?p e1 = (c', p', e')"
      using Cons.prems False s by (cases r) (simp_all add: send_datagram_def c1_def Let_def)
    from Cons.IH [OF this] obtain rs where rs:
      "length rs = length (filter (\<lambda>t. \<not> responded (ex_resolved x) p t) ts)"
      "p' = p\<lparr>send_results := (send_results p @ [(t, r)]) @ zip (filter (\<lambda>t. \<not> responded (ex_resolved x) p t) ts) rs\<rparr>"
      "attempted c' = attempted c1 + length rs"
      "delivered c' + length (failures rs) = delivered c1 + length rs"
      "last_error c' = (if failures rs = [] then last_error c1 else Some (last (failures rs)))"
      "failed_server_ids c' = failed_server_ids c1 @
        failed_ids x (zip (filter (\<lambda>t. \<not> responded (ex_resolved x) p t) ts) rs)"
      by auto
    have "failures (r # rs) = (case failure r of Some e \<Rightarrow> e # failures rs | None \<Rightarrow> failures rs)"
      by (simp add: failures_def List.map_filter_simps split: option.splits)
    then show ?thesis using False rs
      by (intro exI [of _ "r # rs"], cases r)
        (auto simp: c1_def failed_ids_def List.map_filter_simps split: option.splits)
  qed
qed

definition count_failures :: "u64 list \<Rightarrow> nat \<Rightarrow> (u64 \<rightharpoonup> server_stats) \<Rightarrow> u64 \<rightharpoonup> server_stats" where
  "count_failures ids now m = (\<lambda>i. if i \<in> set ids
     then (let st = (case m i of Some st \<Rightarrow> st | None \<Rightarrow> server_stats_new now)
           in Some (st\<lparr>server_send_failures := server_send_failures st + count_list ids i\<rparr>))
     else m i)"

lemma record_failures_fold:
  "foldl (\<lambda>p i. update_stats i now (\<lambda>st. st\<lparr>server_send_failures := server_send_failures st + 1\<rparr>) p) p ids =
    p\<lparr>stats := count_failures ids now (stats p)\<rparr>"
proof (induction ids arbitrary: p)
  case (Cons a ids)
  show ?case
    unfolding foldl_Cons Cons.IH
    by (simp add: update_stats_def count_failures_def Let_def) (rule arg_cong [where f = "\<lambda>s. p\<lparr>stats := s\<rparr>"],
        auto simp: fun_eq_iff count_notin Let_def split: option.splits)
qed (simp add: count_failures_def)

lemma record_send_failures_eq:
  "record_send_failures x ids p e =
    (if ids = [] then (p, e)
     else case clock x e of (now, e') \<Rightarrow> (p\<lparr>stats := count_failures ids now (stats p)\<rparr>, e'))"
  unfolding record_send_failures_def record_failures_fold by (simp add: Let_def)

lemma send_to_missing_cases:
  "\<exists>rs r p' e'. send_to_missing x p e = (r, p', e') \<and> length rs = length (missing_targets x p) \<and>
    send_results p' = send_results p @ zip (missing_targets x p) rs \<and>
    seen_server_ids p' = seen_server_ids p \<and> seen_addrs p' = seen_addrs p \<and>
    r = (if rs \<noteq> [] \<and> length (failures rs) = length rs then Err (CoreIo (last (failures rs))) else Ok ()) \<and>
    (let ids = failed_ids x (zip (missing_targets x p) rs) in
     if length (failures rs) = length rs \<or> ids = [] then stats p' = stats p
     else \<exists>now. stats p' = count_failures ids now (stats p))"
proof -
  obtain c p1 e1 where l: "send_loop x (targets (ex_resolved x)) no_sends p e = (c, p1, e1)" by (metis prod_cases3)
  from send_loop_spec [OF l] obtain rs where rs:
      "length rs = length (missing_targets x p)"
      "p1 = p\<lparr>send_results := send_results p @ zip (missing_targets x p) rs\<rparr>"
      "attempted c = length rs" "delivered c + length (failures rs) = length rs"
      "last_error c = (if failures rs = [] then None else Some (last (failures rs)))"
      "failed_server_ids c = failed_ids x (zip (missing_targets x p) rs)"
    unfolding missing_targets_def [symmetric] no_sends_def by auto
  have no_fail: "failures rs = [] \<Longrightarrow> failed_ids x (zip ts rs) = []" for ts
  proof (induction ts rs rule: list_induct2')
    case (4 t ts r rs)
    then show ?case by (auto simp: failures_def failed_ids_def List.map_filter_simps split: option.splits)
  qed (simp_all add: failed_ids_def List.map_filter_simps)
  have some_fail: "failures rs \<noteq> [] \<Longrightarrow> delivered c < length rs"
    using rs(4) by (cases "failures rs") simp_all
  obtain now e2 where ck: "clock x e1 = (now, e2)" by force
  show ?thesis
    by (rule exI [of _ rs])
      (use rs no_fail some_fail in \<open>auto simp: send_to_missing_def l Let_def ck record_send_failures_eq\<close>)
qed

text \<open>
  C28: a round of sends reaches every target whose server has not answered, once and in
  order, whatever fails on the way.  It is an error, the last one, exactly when something
  was tried and nothing went out; after a partial delivery each failure is counted
  against its server, and nothing else about the request changes.
\<close>

theorem send_to_missing_spec:
  "\<exists>rs r p' e'. send_to_missing x p e = (r, p', e') \<and> length rs = length (missing_targets x p) \<and>
    send_results p' = send_results p @ zip (missing_targets x p) rs \<and>
    seen_server_ids p' = seen_server_ids p \<and> seen_addrs p' = seen_addrs p \<and>
    r = (if rs \<noteq> [] \<and> length (failures rs) = length rs then Err (CoreIo (last (failures rs))) else Ok ()) \<and>
    (let ids = failed_ids x (zip (missing_targets x p) rs) in
     if length (failures rs) = length rs \<or> ids = [] then stats p' = stats p
     else \<exists>now. stats p' = count_failures ids now (stats p))"
  by (rule send_to_missing_cases)

lemma units_not_panic: "units s r \<noteq> Panic"
  using units_valid [of s r] units_invalid [of s r] by (cases "valid_schedule s") auto

lemma nobody_responded:
  "seen_server_ids p = {} \<Longrightarrow> seen_addrs p = {} \<Longrightarrow> missing_targets x p = targets (ex_resolved x)"
  by (simp add: missing_targets_def responded_def filter_id_conv split: option.splits)

lemma selection_cong:
  "seen_server_ids p' = seen_server_ids p \<Longrightarrow> seen_addrs p' = seen_addrs p \<Longrightarrow> selection x best p' = selection x best p"
  by (simp add: selection_def split: option.splits)

definition sent_targets :: "progress \<Rightarrow> socket_addr list" where
  "sent_targets p = map fst (send_results p)"

lemma run_rounds_selection:
  assumes "run_rounds x policy oldest rounds None p e = Some (out, p', e')" "selection x None p"
  shows "case out of
      Ok best \<Rightarrow> selection x best p' \<and>
        (best = None \<longrightarrow> sent_targets p' = sent_targets p @ concat (replicate (length rounds) (targets (ex_resolved x))))
    | Err err \<Rightarrow> selection x None p' \<and> err \<noteq> CoreTimeout
    | Panic \<Rightarrow> False"
  using assms
proof (induction rounds arbitrary: p e)
  case Nil
  then show ?case by auto
next
  case (Cons round rounds)
  obtain rs r p1 e1 where s: "send_to_missing x p e = (r, p1, e1)" "length rs = length (missing_targets x p)"
      "send_results p1 = send_results p @ zip (missing_targets x p) rs"
      "seen_server_ids p1 = seen_server_ids p" "seen_addrs p1 = seen_addrs p"
      "r = (if rs \<noteq> [] \<and> length (failures rs) = length rs then Err (CoreIo (last (failures rs))) else Ok ())"
    using send_to_missing_cases [of x p e] by (elim exE conjE)
  have sel1: "selection x None p1" using Cons.prems(2) selection_cong [OF s(4,5), of x None] by simp
  have "missing_targets x p = targets (ex_resolved x)"
    using Cons.prems(2) by (intro nobody_responded) (simp_all add: selection_def)
  then have sent1: "sent_targets p1 = sent_targets p @ targets (ex_resolved x)"
    using s(2,3) by (simp add: sent_targets_def)
  show ?case
  proof (cases "and_then r (\<lambda>_. map_err (\<lambda>m. CoreConfig (display_configuration_error m)) (units (replay_gap policy) round))")
    case (Err err)
    then have "out = Err err" "p' = p1" using Cons.prems(1) s(1) by simp_all
    moreover have "err \<noteq> CoreTimeout" using Err s(6) by (auto simp: outcome_simps split: if_splits)
    ultimately show ?thesis using sel1 by simp
  next
    case Panic
    then show ?thesis using s(6) units_not_panic by (auto simp: outcome_simps split: if_splits)
  next
    case (Ok n)
    obtain now e2 where c: "clock x e1 = (now, e2)" by force
    obtain returned best p2 e3 where w: "round_window x oldest round (now + window_ns policy n) None p1 e2 =
        Some (returned, best, p2, e3)"
      using Cons.prems(1) s(1) Ok c by (auto simp: Let_def split: option.splits)
    note win = round_window_selection [OF w sel1]
    show ?thesis
    proof (cases best)
      case None
      then have "run_rounds x policy oldest rounds None p2 e3 = Some (out, p', e')"
        using Cons.prems(1) s(1) Ok c w win by simp
      moreover have "sent_targets p2 = sent_targets p @ targets (ex_resolved x)"
        using sent1 win by (simp add: sent_targets_def)
      ultimately show ?thesis using Cons.IH [of p2 e3] win None by (auto split: res.splits)
    next
      case (Some b)
      then have "out = Ok best" "p' = p2" using Cons.prems(1) s(1) Ok c w by simp_all
      then show ?thesis using win Some by simp
    qed
  qed
qed

lemma policy_outcome_selection:
  assumes "policy_outcome x policy p e = Some (out, p', e')" "selection x None p"
  shows "case out of
      Ok best \<Rightarrow> selection x best p' \<and> (best = None \<longrightarrow> sent_targets p' = sent_targets p @
        concat (replicate (Suc (unat (replay_count policy))) (targets (ex_resolved x))))
    | Err err \<Rightarrow> selection x None p' \<and> err \<noteq> CoreTimeout
    | Panic \<Rightarrow> False"
proof -
  obtain out1 p1 e1 where r: "run_rounds x policy (oldest_server_id (ex_resolved x)) (rounds_upto (replay_count policy)) None p e =
      Some (out1, p1, e1)"
    using assms(1) by (auto simp: policy_outcome_def split: option.splits)
  have len: "length (rounds_upto (replay_count policy)) = Suc (unat (replay_count policy))"
    by (simp add: rounds_upto_def)
  note rounds = run_rounds_selection [OF r assms(2), unfolded len]
  show ?thesis
  proof (cases "out1 = Ok None \<and> 0 < final_receive_units policy")
    case False
    then have "out = out1" "p' = p1" using assms(1) r
      by (auto simp: policy_outcome_def split: res.splits option.splits)
    then show ?thesis using rounds by (simp only:)
  next
    case True
    obtain now e2 where c: "clock x e1 = (now, e2)" by force
    have sel: "selection x None p1" using rounds True by simp
    from True assms(1) r c obtain selected where
      w: "final_window x (now + window_ns policy (final_receive_units policy)) p1 e2 = Some (selected, p', e')"
        and out: "out = Ok selected"
      by (auto simp: policy_outcome_def Let_def split: option.splits)
    show ?thesis using final_window_selection [OF w sel] rounds True out
      by (auto simp: sent_targets_def)
  qed
qed

text \<open>The selection of the whole exchange.\<close>

lemma exchange_request_selection:
  assumes "exchange_request x policy ttl p e = Some (out, p', e')"
    and "seen_server_ids p = {}" "seen_addrs p = {}"
  shows "case out of
      Ok r \<Rightarrow> received_answer x r \<and> rl_server_id r = Min (seen_server_ids p') \<and> finite (seen_server_ids p') \<and>
        seen_server_ids p' \<noteq> {} \<and> (allowed_server_ids (ex_resolved x) = [] \<or>
          seen_server_ids p' \<subseteq> set (allowed_server_ids (ex_resolved x)))
    | Err err \<Rightarrow> seen_server_ids p' = {} \<and> (err = CoreTimeout \<longrightarrow> sent_targets p' = sent_targets p @
        concat (replicate (Suc (unat (replay_count policy))) (targets (ex_resolved x))))
    | Panic \<Rightarrow> False"
proof -
  have sel: "selection x None p" using assms(2,3) by (simp add: selection_def)
  obtain t0 e0 where c0: "clock x e = (t0, e0)" by force
  obtain out1 p1 e1 where o: "policy_outcome x policy p e0 = Some (out1, p1, e1)"
    using assms(1) c0 by (auto simp: exchange_request_def split: option.splits)
  note po = policy_outcome_selection [OF o sel]
  obtain now e2 where c: "clock x e1 = (now, e2)" by force
  obtain rs r p2 e3 where s: "send_to_missing x p1 e2 = (r, p2, e3)"
      "seen_server_ids p2 = seen_server_ids p1" "seen_addrs p2 = seen_addrs p1"
    using send_to_missing_cases [of x p1 e2] by (elim exE conjE)
  show ?thesis
  proof (cases out1)
    case (Err err)
    then show ?thesis using assms(1) c0 o po by (auto simp: exchange_request_def selection_def)
  next
    case Panic
    then show ?thesis using po by simp
  next
    case (Ok best)
    show ?thesis
    proof (cases best)
      case None
      then show ?thesis using assms(1) c0 o po Ok by (auto simp: exchange_request_def selection_def)
    next
      case (Some b)
      then have "out = Ok b \<and> (p' = p1 \<or> p' = p2)"
        using assms(1) c0 o Ok c s(1) by (auto simp: exchange_request_def Let_def split: if_splits)
      then show ?thesis using po Ok Some s(2) by (auto simp: selection_def)
    qed
  qed
qed

section \<open>Time\<close>

text \<open>
  A network that keeps time: \<open>time\<close> is what the clock shows, waiting for a packet ends at
  the timeout at the latest and only a packet ends it earlier, sending takes no time, and
  only so many packets are \<open>waiting\<close> to be received.
\<close>

definition punctual :: "'e exchange \<Rightarrow> ('e \<Rightarrow> nat) \<Rightarrow> ('e \<Rightarrow> nat) \<Rightarrow> bool" where
  "punctual x time waiting \<longleftrightarrow>
    (\<forall>e. clock x e = (time e, e)) \<and>
    (\<forall>t e. case receive x t e of (r, e') \<Rightarrow> time e' \<le> time e + t \<and>
      (case r of None \<Rightarrow> time e' = time e + t \<and> waiting e' \<le> waiting e | Some packet \<Rightarrow> waiting e' < waiting e)) \<and>
    (\<forall>s b a e. case transmit x s b a e of (r, e') \<Rightarrow> time e' = time e \<and> waiting e' \<le> waiting e)"

lemma punctual_clock: "punctual x time waiting \<Longrightarrow> clock x e = (time e, e)"
  by (simp add: punctual_def)

lemma punctual_receive:
  "punctual x time waiting \<Longrightarrow> receive x t e = (r, e') \<Longrightarrow> time e' \<le> time e + t \<and>
    (case r of None \<Rightarrow> time e' = time e + t \<and> waiting e' \<le> waiting e | Some packet \<Rightarrow> waiting e' < waiting e)"
  unfolding punctual_def by (metis (mono_tags, lifting) case_prod_conv)

lemma punctual_transmit:
  "punctual x time waiting \<Longrightarrow> transmit x s b a e = (r, e') \<Longrightarrow> time e' = time e \<and> waiting e' \<le> waiting e"
  unfolding punctual_def by (metis (mono_tags, lifting) case_prod_conv)

lemma send_loop_time:
  "punctual x time waiting \<Longrightarrow> send_loop x ts c p e = (c', p', e') \<Longrightarrow> time e' = time e \<and> waiting e' \<le> waiting e"
proof (induction ts arbitrary: c p e)
  case (Cons t ts)
  obtain r e1 where s: "send_to x (ex_packet x) t e = (r, e1)" by force
  have "time e1 = time e \<and> waiting e1 \<le> waiting e"
    using s punctual_transmit [OF Cons.prems(1)] by (auto simp: send_to_def split: option.splits)
  then show ?case using Cons s
    by (cases "responded (ex_resolved x) p t"; cases r) (fastforce simp: send_datagram_def Let_def)+
qed simp

lemma send_to_missing_time:
  assumes "punctual x time waiting" "send_to_missing x p e = (r, p', e')"
  shows "time e' = time e \<and> waiting e' \<le> waiting e"
proof -
  obtain c p1 e1 where l: "send_loop x (targets (ex_resolved x)) no_sends p e = (c, p1, e1)" by (metis prod_cases3)
  have "e' = e1" using assms l
    by (auto simp: send_to_missing_def record_send_failures_eq punctual_clock split: option.splits if_splits)
  then show ?thesis using send_loop_time [OF assms(1) l] by simp
qed

lemma round_window_total:
  assumes "punctual x time waiting" "time e \<le> deadline"
  shows "\<exists>returned best' p' e'. round_window x oldest round deadline best p e = Some (returned, best', p', e') \<and>
    time e' \<le> deadline \<and> (returned \<or> time e' = deadline) \<and> (returned \<longrightarrow> best' \<noteq> None)"
  using assms(2)
proof (induction "waiting e" arbitrary: best p e rule: less_induct)
  case less
  obtain received e1 where rc: "receive x (deadline - time e) e = (received, e1)" by force
  note pr = punctual_receive [OF assms(1) rc]
  show ?case
  proof (cases "time e < deadline \<and> received \<noteq> None")
    case False
    then show ?thesis using rc pr less.prems
      by (subst round_window.simps) (auto simp: punctual_clock [OF assms(1)])
  next
    case True
    then obtain packet where pk: "received = Some packet" by blast
    have e1: "waiting e1 < waiting e" "time e1 \<le> deadline" using pr pk less.prems by simp_all
    show ?thesis
    proof (cases "answer_of x packet")
      case None
      then show ?thesis using True rc pk less.hyps [OF e1, of best p]
        by (subst round_window.simps) (simp add: punctual_clock [OF assms(1)] accept_eq)
    next
      case (Some r)
      let ?best = "if older r best then Some r else best"
      let ?p = "note_answer packet r (time e1) p"
      show ?thesis
      proof (cases "oldest = Some (rl_server_id r) \<or> 0 < round")
        case ret: True
        have "?best \<noteq> None" by (simp add: older_less split: option.splits)
        then show ?thesis using True rc pk Some ret e1(2)
          by (subst round_window.simps, intro exI [of _ True]) (simp add: punctual_clock [OF assms(1)] accept_eq Let_def)
      next
        case cont: False
        show ?thesis using True rc pk Some cont less.hyps [OF e1, of ?best ?p]
          by (subst round_window.simps) (simp add: punctual_clock [OF assms(1)] accept_eq Let_def)
      qed
    qed
  qed
qed

lemma final_window_total:
  assumes "punctual x time waiting" "time e \<le> deadline"
  shows "\<exists>best p' e'. final_window x deadline p e = Some (best, p', e') \<and>
    time e' \<le> deadline \<and> (best \<noteq> None \<or> time e' = deadline)"
  using assms(2)
proof (induction "waiting e" arbitrary: p e rule: less_induct)
  case less
  obtain received e1 where rc: "receive x (deadline - time e) e = (received, e1)" by force
  note pr = punctual_receive [OF assms(1) rc]
  show ?case
  proof (cases "time e < deadline \<and> received \<noteq> None")
    case False
    then show ?thesis using rc pr less.prems
      by (subst final_window.simps) (auto simp: punctual_clock [OF assms(1)])
  next
    case True
    then obtain packet where pk: "received = Some packet" by blast
    have e1: "waiting e1 < waiting e" "time e1 \<le> deadline" using pr pk less.prems by simp_all
    show ?thesis
    proof (cases "answer_of x packet")
      case None
      then show ?thesis using True rc pk less.hyps [OF e1, of p]
        by (subst final_window.simps) (simp add: punctual_clock [OF assms(1)] accept_eq)
    next
      case (Some r)
      then show ?thesis using True rc pk e1(2)
        by (subst final_window.simps) (simp add: punctual_clock [OF assms(1)] accept_eq Let_def)
    qed
  qed
qed

text \<open>No window saturates under a policy whose horizon fits 64 bits.\<close>

lemma window_ns_exact:
  assumes "unat (unit_ms policy) * unat n < 2 ^ 64"
  shows "window_ns policy n = 1000000 * (unat (unit_ms policy) * unat n)"
  using assms by (simp add: window_ns_def unat_saturating_mul)

lemma run_rounds_total:
  assumes "punctual x time waiting" "valid_schedule (replay_gap policy)"
    and "\<forall>round \<in> set rounds. unat (unit_ms policy) * gap (replay_gap policy) (unat round) < 2 ^ 64"
  shows "\<exists>out p' e'. run_rounds x policy oldest rounds None p e = Some (out, p', e') \<and>
    (let limit = time e + (\<Sum>round\<leftarrow>rounds. 1000000 * (unat (unit_ms policy) * gap (replay_gap policy) (unat round)))
     in time e' \<le> limit \<and> (out = Ok None \<longrightarrow> time e' = limit)) \<and> out \<noteq> Err CoreTimeout"
  using assms(3)
proof (induction rounds arbitrary: p e)
  case (Cons round rounds)
  obtain rs r p1 e1 where s: "send_to_missing x p e = (r, p1, e1)"
      "r = (if rs \<noteq> [] \<and> length (failures rs) = length rs then Err (CoreIo (last (failures rs))) else Ok ())"
    using send_to_missing_cases [of x p e] by (elim exE conjE)
  have t1: "time e1 = time e" using send_to_missing_time [OF assms(1) s(1)] by simp
  obtain n where n: "units (replay_gap policy) round = Ok n" "unat n = gap (replay_gap policy) (unat round)"
    using units_valid [OF assms(2)] by blast
  show ?case
  proof (cases r)
    case (Ok u)
    let ?w = "1000000 * (unat (unit_ms policy) * gap (replay_gap policy) (unat round))"
    have ns: "window_ns policy n = ?w" using window_ns_exact [of policy n] Cons.prems n(2) by simp
    obtain returned best p2 e2 where w: "round_window x oldest round (time e1 + ?w) None p1 e1 = Some (returned, best, p2, e2)"
        "time e2 \<le> time e1 + ?w" "returned \<or> time e2 = time e1 + ?w" "returned \<longrightarrow> best \<noteq> None"
      using round_window_total [OF assms(1), of e1 "time e1 + ?w"] by (metis le_add1)
    show ?thesis
    proof (cases best)
      case None
      then have "time e2 = time e + ?w" using w(3,4) t1 by simp
      moreover obtain out p3 e3 where "run_rounds x policy oldest rounds None p2 e2 = Some (out, p3, e3)"
          "let limit = time e2 + (\<Sum>round\<leftarrow>rounds. 1000000 * (unat (unit_ms policy) * gap (replay_gap policy) (unat round)))
           in time e3 \<le> limit \<and> (out = Ok None \<longrightarrow> time e3 = limit)" "out \<noteq> Err CoreTimeout"
        using Cons.IH [of p2 e2] Cons.prems by auto
      ultimately show ?thesis using s(1) n Ok w None ns
        by (simp add: punctual_clock [OF assms(1)] Let_def add.assoc)
    next
      case (Some b)
      then show ?thesis using s(1) n Ok w ns t1
        by (simp add: punctual_clock [OF assms(1)] Let_def)
    qed
  next
    case (Err error)
    then have "error \<noteq> CoreTimeout" using s(2) by (auto split: if_splits)
    then show ?thesis using s(1) t1 Err by (simp add: Let_def)
  next
    case Panic
    then show ?thesis using s(2) by (simp split: if_splits)
  qed
qed simp

lemma gap_below_horizon:
  assumes "horizon_spec policy < 2 ^ 64" "k \<le> unat (replay_count policy)"
  shows "unat (unit_ms policy) * gap (replay_gap policy) k < 2 ^ 64"
proof -
  have "gap (replay_gap policy) k \<le> (\<Sum>k\<le>unat (replay_count policy). gap (replay_gap policy) k)"
    using assms(2) by (intro member_le_sum) simp_all
  also have "\<dots> \<le> horizon_units policy" by (simp add: horizon_units_def)
  finally have "unat (unit_ms policy) * gap (replay_gap policy) k \<le> horizon_spec policy"
    by (simp add: horizon_spec_def mult_le_mono2)
  then show ?thesis using assms(1) by simp
qed

lemma final_below_horizon:
  "horizon_spec policy < 2 ^ 64 \<Longrightarrow> unat (unit_ms policy) * unat (final_receive_units policy) < 2 ^ 64"
  unfolding horizon_spec_def horizon_units_def by (rule le_less_trans [OF mult_le_mono2]) simp_all

lemma rounds_upto_bound: "r \<in> set (rounds_upto n) \<Longrightarrow> unat r \<le> unat n"
proof -
  assume "r \<in> set (rounds_upto n)"
  then obtain k where k: "k < Suc (unat n)" "r = of_nat k"
    unfolding rounds_upto_def set_map set_upt by (elim imageE) simp
  have "unat r \<le> k" unfolding k(2) unat_of_nat by (rule mod_less_eq_dividend)
  then show ?thesis using k(1) by simp
qed

lemma exchange_total:
  assumes net: "punctual x time waiting" and policy: "valid_policy policy" "horizon_spec policy < 2 ^ 32"
  shows "\<exists>out p' e'. exchange_request x policy ttl p e = Some (out, p', e') \<and>
    time e' \<le> time e + 1000000 * horizon_spec policy \<and>
    (out = Err CoreTimeout \<longrightarrow> time e' = time e + 1000000 * horizon_spec policy)"
proof -
  let ?U = "unat (unit_ms policy)"
  let ?oldest = "oldest_server_id (ex_resolved x)"
  have h64: "horizon_spec policy < 2 ^ 64" using policy(2) by simp
  have in_rounds: "\<forall>round \<in> set (rounds_upto (replay_count policy)).
      ?U * gap (replay_gap policy) (unat round) < 2 ^ 64"
  proof
    fix round assume "round \<in> set (rounds_upto (replay_count policy))"
    then have "unat round \<le> unat (replay_count policy)" by (rule rounds_upto_bound)
    then show "?U * gap (replay_gap policy) (unat round) < 2 ^ 64" by (rule gap_below_horizon [OF h64])
  qed
  let ?S = "1000000 * (?U * (\<Sum>k\<le>unat (replay_count policy). gap (replay_gap policy) k))"
  have sum: "(\<Sum>round\<leftarrow>rounds_upto (replay_count policy). 1000000 * (?U * gap (replay_gap policy) (unat round))) = ?S"
    using sum_list_rounds_upto [where f = "\<lambda>k. 1000000 * (?U * gap (replay_gap policy) k)"]
    by (simp add: sum_distrib_left)
  obtain out1 p1 e1 where r: "run_rounds x policy ?oldest (rounds_upto (replay_count policy)) None p e = Some (out1, p1, e1)"
      "time e1 \<le> time e + ?S" "out1 = Ok None \<longrightarrow> time e1 = time e + ?S" "out1 \<noteq> Err CoreTimeout"
    using run_rounds_total [OF net _ in_rounds, of ?oldest p e] policy(1) unfolding sum valid_policy_def Let_def by blast
  let ?F = "1000000 * (?U * unat (final_receive_units policy))"
  have total: "1000000 * horizon_spec policy = ?S + ?F"
    by (simp add: horizon_spec_def horizon_units_def distrib_left)
  have ns: "window_ns policy (final_receive_units policy) = ?F"
    by (rule window_ns_exact [OF final_below_horizon [OF h64]])
  obtain out2 p2 e2 where po: "policy_outcome x policy p e = Some (out2, p2, e2)"
      "time e2 \<le> time e + (?S + ?F)" "out2 = Ok None \<longrightarrow> time e2 = time e + (?S + ?F)" "out2 \<noteq> Err CoreTimeout"
  proof (cases "out1 = Ok None \<and> 0 < final_receive_units policy")
    case True
    obtain best p2 e2 where "final_window x (time e1 + ?F) p1 e1 = Some (best, p2, e2)"
        "time e2 \<le> time e1 + ?F" "best \<noteq> None \<or> time e2 = time e1 + ?F"
      using final_window_total [OF net, of e1 "time e1 + ?F" p1] by auto
    moreover from this have "policy_outcome x policy p e = Some (Ok best, p2, e2)"
      using r True by (simp add: policy_outcome_def punctual_clock [OF net] ns Let_def)
    ultimately show thesis using r True by (intro that [of "Ok best" p2 e2]) (auto simp only: add.assoc res.inject)
  next
    case False
    then have "policy_outcome x policy p e = Some (out1, p1, e1)"
      using r(1) by (auto simp: policy_outcome_def split: res.splits option.splits)
    moreover have "out1 = Ok None \<longrightarrow> ?F = 0" using False by (auto simp: word_less_nat_alt)
    ultimately show thesis using that [of out1 p1 e1] r by simp
  qed
  obtain r3 p3 e3 where s: "send_to_missing x p2 e2 = (r3, p3, e3)" by (metis prod_cases3)
  have "time e3 = time e2" using send_to_missing_time [OF net s] by simp
  then show ?thesis unfolding total using po s
    by (cases out2; cases "\<exists>b. out2 = Ok (Some b)")
      (auto simp: exchange_request_def punctual_clock [OF net] Let_def split: option.splits)
qed


section \<open>Properties of a request\<close>

text \<open>
  C9: what a request returns was received, authenticated and parsed, and comes from the
  oldest of the servers that answered it, one of those the server list allows.  When it
  returns an error nobody has answered; in particular it times out only after every
  target has been sent the packet in each of the \<open>replay_count + 1\<close> rounds.
\<close>

theorem selected_answer:
  assumes "exchange_request x policy ttl p e = Some (out, p', e')"
    and "seen_server_ids p = {}" "seen_addrs p = {}"
  shows "case out of
      Ok r \<Rightarrow> received_answer x r \<and> rl_server_id r = Min (seen_server_ids p') \<and> finite (seen_server_ids p') \<and>
        seen_server_ids p' \<noteq> {} \<and> (allowed_server_ids (ex_resolved x) = [] \<or>
          seen_server_ids p' \<subseteq> set (allowed_server_ids (ex_resolved x)))
    | Err err \<Rightarrow> seen_server_ids p' = {} \<and> (err = CoreTimeout \<longrightarrow> sent_targets p' = sent_targets p @
        concat (replicate (Suc (unat (replay_count policy))) (targets (ex_resolved x))))
    | Panic \<Rightarrow> False"
  by (rule exchange_request_selection [OF assms])

text \<open>
  The age of a server is the order of its identifier: the start time in its upper 41
  bits never overflows the epoch, and the preferred server of a request is the least
  allowed identifier.
\<close>

lemma oldest_server_spec:
  "compare_server_age a b = compare_u64 a b \<and>
    unat (server_start_s_from_id a) = 1735689600 + unat a div 2 ^ 23 \<and>
    oldest_server_id r = (if allowed_server_ids r = [] then None else Some (Min (set (allowed_server_ids r))))"
  by (simp add: compare_server_age_id unat_server_start oldest_server_Min)

text \<open>A network with two servers, of which the younger answers first.\<close>

definition sample_header :: "u64 \<Rightarrow> tenant_header" where
  "sample_header server_id = \<lparr>th_tlv_type = TLV_TENANT, th_tlv_size = 40, th_key_id = server_id,
     th_unique_id = replicate 16 9, th_time_stamp = 0, th_steering_feedback = 1, th_tenant_mgmt_flag = 0,
     th_padding = [0, 0]\<rparr>"

definition sample_response :: "u64 \<Rightarrow> bytes" where
  "sample_response server_id = tenant_wire (sample_header server_id) @
    (to_le 2 TLV_AUTH_NONE @ to_le 2 (4 :: u16) @ response_pdu [] [] [0, 0, 0, 0] [] [])"

definition sample_answer :: "u64 \<Rightarrow> rate_limit_result" where
  "sample_answer server_id = \<lparr>rl_success = True, rl_guard_results = [], rl_resource_results = [],
     rl_server_id = server_id, rl_steering_feedback = True\<rparr>"

definition sample_targets :: resolved_targets where
  "sample_targets = \<lparr>targets = [SocketV4 1 100, SocketV4 2 100],
     target_server_ids = [SocketV4 1 100 \<mapsto> 3, SocketV4 2 100 \<mapsto> 7], allowed_server_ids = [3, 7]\<rparr>"

definition sample_exchange :: "(nat \<times> response_packet list) exchange" where
  "sample_exchange = \<lparr>clock = (\<lambda>e. (fst e, e)),
     receive = (\<lambda>t e. case snd e of [] \<Rightarrow> (None, (fst e + t, [])) | k # ks \<Rightarrow> (Some k, (fst e, ks))),
     transmit = (\<lambda>s b a e. (Ok (length b), e)),
     ex_cipher = (\<lambda>_ _ _ _. None), ex_auth_method = AuthNone, ex_cookie_hash = None, ex_aes_key = None,
     ex_sockets = \<lparr>fs_v4 = Some \<lparr>sock_ipv6 = False, sock_port = 5000\<rparr>, fs_v6 = None, fs_v6_first = False\<rparr>,
     ex_packet = replicate 64 0, ex_resolved = sample_targets\<rparr>"

definition fresh_progress :: progress where
  "fresh_progress = \<lparr>seen_server_ids = {}, seen_addrs = {}, stats = Map.empty, send_results = []\<rparr>"

lemma sample_parse:
  "parse_rate_response_with_auth open (sample_response i) AuthNone None None = Ok (sample_answer i)"
  using parse_plain_response [of "sample_header i" "[]" "[]" "[0, 0, 0, 0]" "[]" "open" "[]"]
  by (simp add: sample_response_def sample_answer_def tenant_shape_def wf_tenant_def sample_header_def
      response_shape_def response_result_def)

lemma sample_answers:
  "answer_of sample_exchange \<lparr>rp_data = sample_response 3, rp_addr = a\<rparr> = Some (sample_answer 3)"
  "answer_of sample_exchange \<lparr>rp_data = sample_response 7, rp_addr = a\<rparr> = Some (sample_answer 7)"
  by (simp_all add: answer_of_def sample_exchange_def sample_parse sample_targets_def)
    (simp_all add: sample_answer_def)

lemma sample_sends:
  "send_to_missing sample_exchange p e =
    (Ok (), p\<lparr>send_results := send_results p @ map (\<lambda>t. (t, Ok 64)) (missing_targets sample_exchange p)\<rparr>, e)"
proof -
  have "send_to sample_exchange (replicate 64 0) (SocketV4 a b) e = (Ok 64, e)" for a b e
    by (simp add: send_to_def send_socket_def sample_exchange_def)
  then show ?thesis
    by (simp add: send_to_missing_def send_datagram_def no_sends_def missing_targets_def Let_def
        sample_exchange_def sample_targets_def)
qed

lemma sample_clock: "clock sample_exchange e = (fst e, e)"
  by (simp add: sample_exchange_def)

lemma sample_receive:
  "receive sample_exchange t e = (case snd e of [] \<Rightarrow> (None, (fst e + t, [])) | k # ks \<Rightarrow> (Some k, (fst e, ks)))"
  by (simp add: sample_exchange_def)

lemma sample_oldest: "oldest_server_id (ex_resolved sample_exchange) = Some 3"
  by (simp add: oldest_server_Min sample_exchange_def sample_targets_def)

text \<open>Server 7 answers, then the older server 3.\<close>

definition sample_arrivals :: "response_packet list" where
  "sample_arrivals = [\<lparr>rp_data = sample_response 7, rp_addr = SocketV4 2 100\<rparr>,
     \<lparr>rp_data = sample_response 3, rp_addr = SocketV4 1 100\<rparr>]"

lemma sample_window:
  assumes "t < d"
  shows "\<exists>p'. round_window sample_exchange (Some 3) 0 d None p (t, sample_arrivals) =
      Some (True, Some (sample_answer 3), p', (t, [])) \<and>
    seen_server_ids p' = insert 3 (insert 7 (seen_server_ids p))"
proof -
  have ids: "rl_server_id (sample_answer i) = i" for i by (simp add: sample_answer_def)
  have "older (sample_answer 3) (Some (sample_answer 7))" "older r None" for r by (simp_all add: older_less ids)
  then show ?thesis using assms
    by (subst round_window.simps, subst round_window.simps)
      (simp add: sample_clock sample_receive sample_arrivals_def accept_eq sample_answers ids Let_def)
qed

theorem selected_answer_witness:
  "\<exists>p' e'. exchange_request sample_exchange default_policy 40 fresh_progress (0, sample_arrivals) =
      Some (Ok (sample_answer 3), p', e') \<and> seen_server_ids p' = {3, 7} \<and>
    rl_server_id (sample_answer 3) = Min {3, 7} \<and> received_answer sample_exchange (sample_answer 3)"
proof -
  have fresh: "seen_server_ids fresh_progress = {}" "seen_addrs fresh_progress = {}"
    by (simp_all add: fresh_progress_def)
  have policy: "window_ns default_policy 1 = 20000000" "units (replay_gap default_policy) 0 = Ok 1"
      "completion_delivery default_policy" "rounds_upto (replay_count default_policy) = [0, 1]"
    by (simp_all add: window_ns_def default_policy_def unat_saturating_mul units_def fixed_def rounds_upto_def upt_rec)
  obtain p1 where w: "round_window sample_exchange (Some 3) 0 20000000 None
        (fresh_progress\<lparr>send_results := send_results fresh_progress @
           map (\<lambda>t. (t, Ok 64)) (missing_targets sample_exchange fresh_progress)\<rparr>) (0, sample_arrivals) =
      Some (True, Some (sample_answer 3), p1, (0, []))" "seen_server_ids p1 = {3, 7}"
    using sample_window [of 0 20000000] fresh by fastforce
  then have po: "policy_outcome sample_exchange default_policy fresh_progress (0, sample_arrivals) =
      Some (Ok (Some (sample_answer 3)), p1, (0, []))"
    by (simp add: policy_outcome_def policy sample_sends sample_clock sample_oldest Let_def)
  then have run: "exchange_request sample_exchange default_policy 40 fresh_progress (0, sample_arrivals) =
      Some (Ok (sample_answer 3), p1\<lparr>send_results := send_results p1 @
           map (\<lambda>t. (t, Ok 64)) (missing_targets sample_exchange p1)\<rparr>, (0, []))"
    by (simp add: exchange_request_def sample_clock sample_sends policy(3) Let_def)
  show ?thesis using selected_answer [OF run fresh] run w(2)
    by (intro exI [of _ "p1\<lparr>send_results := send_results p1 @
           map (\<lambda>t. (t, Ok 64)) (missing_targets sample_exchange p1)\<rparr>"] exI [of _ "(0, [])"]) simp
qed

lemma sample_punctual: "punctual sample_exchange fst (\<lambda>e. length (snd e))"
  by (auto simp: punctual_def sample_exchange_def split: list.splits)


end
