(* ===== verification/Router.thy ===== *)
theory Router
  imports HaPolicy
begin

text \<open>
  The response router of \<open>src/client.rs\<close> and the registry of requests in flight: every
  datagram that names a registered request goes to that request's channel.
\<close>

section \<open>The registry\<close>

text \<open>
  Channels are numbered; a channel is the queue of packets its request has not read yet.
  \<open>received_datagrams\<close> is what the traffic counters are told.
\<close>

record router =
  inflight :: "bytes \<rightharpoonup> nat"
  channels :: "nat \<Rightarrow> response_packet list"
  received_datagrams :: "(nat \<times> socket_addr) list"

definition empty_router :: router where
  "empty_router = \<lparr>inflight = Map.empty, channels = (\<lambda>_. []), received_datagrams = []\<rparr>"

text \<open>\<open>mpsc::unbounded_channel\<close> and the insertion; the destructor of the registration.\<close>

definition register_request :: "bytes \<Rightarrow> nat \<Rightarrow> router \<Rightarrow> router" where
  "register_request request_id channel s =
    s\<lparr>inflight := (inflight s)(request_id \<mapsto> channel), channels := (channels s)(channel := [])\<rparr>"

definition drop_registration :: "bytes \<Rightarrow> router \<Rightarrow> router" where
  "drop_registration request_id s = s\<lparr>inflight := (inflight s)(request_id := None)\<rparr>"

text \<open>A request takes the next packet of its channel.\<close>

definition take_packet :: "nat \<Rightarrow> router \<Rightarrow> response_packet option \<times> router" where
  "take_packet channel s =
    (case channels s channel of
       [] \<Rightarrow> (None, s)
     | packet # rest \<Rightarrow> (Some packet, s\<lparr>channels := (channels s)(channel := rest)\<rparr>))"

section \<open>The router\<close>

text \<open>
  One turn of the loop: a receive error and a change of the socket epoch continue with
  the next turn; a datagram is cut to the buffer by the kernel and routed by the request
  identifier of its header.
\<close>

datatype recv_event = RecvError io_error | EpochChanged | Datagram bytes socket_addr

definition BUFFER_LEN :: "bool \<Rightarrow> nat" where
  "BUFFER_LEN traffic_stats = (if traffic_stats then 65536 else 2048)"

definition route :: "bool \<Rightarrow> recv_event \<Rightarrow> router \<Rightarrow> (unit, core_error) res \<times> router" where
  "route traffic_stats ev s =
    (case ev of
       RecvError error \<Rightarrow> (Ok (), s)
     | EpochChanged \<Rightarrow> (Ok (), s)
     | Datagram datagram addr \<Rightarrow>
         let data = take (BUFFER_LEN traffic_stats) datagram;
             s = (if traffic_stats
                  then s\<lparr>received_datagrams := received_datagrams s @ [(length data, addr)]\<rparr> else s)
         in case peek_request_id data of
              Ok (Some request_id) \<Rightarrow>
                (case inflight s request_id of
                   Some channel \<Rightarrow>
                     (Ok (), s\<lparr>channels := (channels s)(channel := channels s channel @
                        [\<lparr>rp_data = data, rp_addr = addr\<rparr>])\<rparr>)
                 | None \<Rightarrow> (Ok (), s))
            | Ok None \<Rightarrow> (Ok (), s)
            | Err error \<Rightarrow> (Err error, s)
            | Panic \<Rightarrow> (Panic, s))"

text \<open>What happens to the registry and the router, in the order in which the lock serialises it.\<close>

datatype router_event = Registered bytes nat | Taken bytes | Dropped bytes | Received recv_event

fun router_step :: "bool \<Rightarrow> router_event \<Rightarrow> router \<Rightarrow> router" where
  "router_step ts (Registered request_id channel) s = register_request request_id channel s"
| "router_step ts (Taken request_id) s =
    (case inflight s request_id of None \<Rightarrow> s | Some channel \<Rightarrow> snd (take_packet channel s))"
| "router_step ts (Dropped request_id) s = drop_registration request_id s"
| "router_step ts (Received ev) s = snd (route ts ev s)"

section \<open>What a request sees\<close>

text \<open>
  The specification: every request in flight has an inbox of its own, and a datagram
  goes to the inbox of the request it names, and to no other.
\<close>

type_synonym inboxes = "bytes \<rightharpoonup> response_packet list"

definition names_request :: "bytes \<Rightarrow> bytes \<Rightarrow> bool" where
  "names_request data request_id \<longleftrightarrow>
    (\<exists>h pos. parse_tenant_header data = Ok (h, pos) \<and> th_unique_id h = request_id)"

fun inbox_step :: "bool \<Rightarrow> router_event \<Rightarrow> inboxes \<Rightarrow> inboxes" where
  "inbox_step ts (Registered request_id channel) m = m(request_id \<mapsto> [])"
| "inbox_step ts (Taken request_id) m = m(request_id := map_option tl (m request_id))"
| "inbox_step ts (Dropped request_id) m = m(request_id := None)"
| "inbox_step ts (Received ev) m =
    (case ev of
       Datagram datagram addr \<Rightarrow>
         (let data = take (BUFFER_LEN ts) datagram in
          (\<lambda>request_id. if names_request data request_id
             then map_option (\<lambda>inbox. inbox @ [\<lparr>rp_data = data, rp_addr = addr\<rparr>]) (m request_id)
             else m request_id))
     | _ \<Rightarrow> m)"

definition inboxes_of :: "router \<Rightarrow> inboxes" where
  "inboxes_of s = (\<lambda>request_id. map_option (channels s) (inflight s request_id))"

text \<open>Channels in use are distinct, and a new one is not in use.\<close>

definition channels_distinct :: "router \<Rightarrow> bool" where
  "channels_distinct s \<longleftrightarrow> (\<forall>i j c. inflight s i = Some c \<longrightarrow> inflight s j = Some c \<longrightarrow> i = j)"

primrec fresh_channels :: "bool \<Rightarrow> router_event list \<Rightarrow> router \<Rightarrow> bool" where
  "fresh_channels ts [] s = True"
| "fresh_channels ts (ev # evs) s =
    ((case ev of Registered request_id channel \<Rightarrow> channel \<notin> ran (inflight s) | _ \<Rightarrow> True) \<and>
     fresh_channels ts evs (router_step ts ev s))"

lemma route_eq:
  "route ts (Datagram datagram addr) s =
    (let data = take (BUFFER_LEN ts) datagram;
         s = (if ts then s\<lparr>received_datagrams := received_datagrams s @ [(length data, addr)]\<rparr> else s)
     in (Ok (), case parse_tenant_header data of
          Ok (h, pos) \<Rightarrow>
            (case inflight s (th_unique_id h) of
               Some channel \<Rightarrow> s\<lparr>channels := (channels s)(channel := channels s channel @
                 [\<lparr>rp_data = data, rp_addr = addr\<rparr>])\<rparr>
             | None \<Rightarrow> s)
        | _ \<Rightarrow> s))"
  using peek_eq_parse [of "take (BUFFER_LEN ts) datagram"]
  by (auto simp: route_def Let_def split: res.splits option.splits)

lemma route_total: "fst (route ts ev s) = Ok ()"
  by (cases ev) (simp_all add: route_def [of _ "RecvError _"] route_def [of _ EpochChanged] route_eq Let_def)

lemma inflight_updates [simp]:
  "inboxes_of (s\<lparr>received_datagrams := l\<rparr>) = inboxes_of s"
  "channels_distinct (s\<lparr>received_datagrams := l\<rparr>) = channels_distinct s"
  "channels_distinct (s\<lparr>channels := q\<rparr>) = channels_distinct s"
  by (simp_all add: inboxes_of_def channels_distinct_def)

lemma map_option_other: "v \<noteq> Some c \<Longrightarrow> map_option (f(c := q)) v = map_option f v"
  by (cases v) auto

lemma push_inbox:
  "channels_distinct s \<Longrightarrow> inflight s i = Some c \<Longrightarrow>
    inboxes_of (s\<lparr>channels := (channels s)(c := q)\<rparr>) = (inboxes_of s)(i \<mapsto> q)"
proof (rule ext)
  fix j assume "channels_distinct s" "inflight s i = Some c"
  then have "inflight s j \<noteq> Some c" if "j \<noteq> i" using that unfolding channels_distinct_def by blast
  then show "inboxes_of (s\<lparr>channels := (channels s)(c := q)\<rparr>) j = ((inboxes_of s)(i \<mapsto> q)) j"
    using \<open>inflight s i = Some c\<close> by (cases "j = i") (simp_all add: inboxes_of_def map_option_other)
qed

lemma router_step_distinct:
  "channels_distinct s \<Longrightarrow> (case ev of Registered i c \<Rightarrow> c \<notin> ran (inflight s) | _ \<Rightarrow> True) \<Longrightarrow>
    channels_distinct (router_step ts ev s)"
proof (cases ev)
  case (Received r)
  assume "channels_distinct s"
  then show ?thesis using Received
    by (cases r) (auto simp: route_eq route_def [of _ "RecvError _"] route_def [of _ EpochChanged] Let_def
        split: res.splits option.splits)
qed (auto simp: channels_distinct_def register_request_def drop_registration_def take_packet_def ran_def
    split: option.splits list.splits if_splits)

lemma inbox_taken:
  assumes "channels_distinct s"
  shows "inboxes_of (router_step ts (Taken i) s) = inbox_step ts (Taken i) (inboxes_of s)"
proof (cases "inflight s i")
  case None
  then show ?thesis by (auto simp: inboxes_of_def fun_eq_iff)
next
  case (Some c)
  then have "inboxes_of s i = Some (channels s c)" by (simp add: inboxes_of_def)
  then show ?thesis
    using Some push_inbox [OF assms Some] by (cases "channels s c") (simp_all add: take_packet_def fun_upd_idem)
qed

lemma inbox_datagram:
  assumes "channels_distinct s"
  shows "inboxes_of (snd (route ts (Datagram datagram addr) s)) =
    inbox_step ts (Received (Datagram datagram addr)) (inboxes_of s)"
proof -
  let ?data = "take (BUFFER_LEN ts) datagram"
  let ?s = "if ts then s\<lparr>received_datagrams := received_datagrams s @ [(length ?data, addr)]\<rparr> else s"
  have s: "inboxes_of ?s = inboxes_of s" "channels_distinct ?s" "inflight ?s = inflight s" "channels ?s = channels s"
    using assms by simp_all
  show ?thesis
  proof (cases "\<exists>h pos. parse_tenant_header ?data = Ok (h, pos)")
    case False
    then show ?thesis using s(1)
      by (auto simp: route_eq names_request_def fun_eq_iff Let_def split: res.splits)
  next
    case True
    then obtain h pos where p: "parse_tenant_header ?data = Ok (h, pos)" by blast
    then have n: "names_request ?data i \<longleftrightarrow> i = th_unique_id h" for i by (auto simp: names_request_def)
    have i: "inboxes_of s (th_unique_id h) = map_option (channels s) (inflight s (th_unique_id h))"
      by (simp add: inboxes_of_def)
    show ?thesis
      using push_inbox [OF s(2), of "th_unique_id h"] s p n i
      by (cases "inflight s (th_unique_id h)") (auto simp: route_eq fun_eq_iff Let_def)
  qed
qed

lemma router_step_refines:
  assumes "channels_distinct s" "case ev of Registered i c \<Rightarrow> c \<notin> ran (inflight s) | _ \<Rightarrow> True"
  shows "inboxes_of (router_step ts ev s) = inbox_step ts ev (inboxes_of s)"
proof (cases ev)
  case (Registered i c)
  then show ?thesis using assms
    by (auto simp: inboxes_of_def register_request_def ran_def map_option_other intro!: ext)
next
  case (Dropped i)
  then show ?thesis by (auto simp: inboxes_of_def drop_registration_def fun_eq_iff)
next
  case (Received r)
  then show ?thesis using inbox_datagram [OF assms(1)] by (cases r) (simp_all add: route_def)
next
  case (Taken i)
  then show ?thesis using inbox_taken [OF assms(1)] by simp
qed

lemma router_refines:
  "channels_distinct s \<Longrightarrow> fresh_channels ts evs s \<Longrightarrow>
    inboxes_of (fold (router_step ts) evs s) = fold (inbox_step ts) evs (inboxes_of s)"
  by (induction evs arbitrary: s) (simp_all add: router_step_refines router_step_distinct)

text \<open>
  C15: the shared registry and the single router give every request an inbox of its own:
  for any sequence of registrations on fresh channels, drops, receptions and routed
  datagrams, what the channel of a request holds is what a private inbox would hold that
  takes exactly the datagrams whose header names the request; and routing never fails.
\<close>

theorem router_refines_inboxes:
  assumes "fresh_channels ts evs empty_router"
  shows "inboxes_of (fold (router_step ts) evs empty_router) = fold (inbox_step ts) evs Map.empty \<and>
    fst (route ts ev s) = Ok ()"
proof -
  have "channels_distinct empty_router" "inboxes_of empty_router = Map.empty"
    by (auto simp: channels_distinct_def inboxes_of_def empty_router_def)
  then show ?thesis using router_refines [OF _ assms] route_total by metis
qed

text \<open>Two requests, and a response to the second one.\<close>

lemma sample_names: "names_request (sample_response 7) i \<longleftrightarrow> i = replicate 16 9"
proof -
  have "tenant_shape (sample_header 7) []"
    by (simp add: tenant_shape_def wf_tenant_def sample_header_def)
  from parse_tenant_complete [OF this] have "\<exists>pos. parse_tenant_header (sample_response 7) = Ok (sample_header 7, pos)"
    unfolding sample_response_def by auto
  then show ?thesis by (auto simp: names_request_def sample_header_def)
qed

theorem router_refines_inboxes_witness:
  "inboxes_of (fold (router_step True) [Registered (replicate 16 1) 0, Registered (replicate 16 9) 1,
      Received (Datagram (sample_response 7) (SocketV4 2 100))] empty_router) (replicate 16 9) =
    Some [\<lparr>rp_data = sample_response 7, rp_addr = SocketV4 2 100\<rparr>]"
proof -
  let ?evs = "[Registered (replicate 16 1) 0, Registered (replicate 16 9) 1,
      Received (Datagram (sample_response 7) (SocketV4 2 100))]"
  have fresh: "fresh_channels True ?evs empty_router"
    by (simp add: empty_router_def register_request_def)
  have "length (sample_response 7) = 56"
    by (simp add: sample_response_def sample_header_def tenant_wire_def response_pdu_def)
  then have "take (BUFFER_LEN True) (sample_response 7) = sample_response 7" by (simp add: BUFFER_LEN_def)
  then show ?thesis
    using router_refines_inboxes [OF fresh, of EpochChanged empty_router]
    by (simp add: sample_names Let_def)
qed

end
