(* ===== verification/Traffic.thy ===== *)
theory Traffic
  imports Dns "HOL-Library.Multiset"
begin

text \<open>
  The traffic counters of \<open>src/traffic.rs\<close>: the header estimate, what each datagram adds
  to which counter, the compare-and-swap loop of \<open>add\<close> as a step relation over any
  number of tasks, and the snapshot.
\<close>

section \<open>Counters\<close>

text \<open>The atomics of \<open>TrafficCounters\<close>, one constructor per field of its two directions.\<close>

datatype counter =
    SentDatagrams | SentPayloadBytes | SentIpBytes
  | ReceivedDatagrams | ReceivedPayloadBytes | ReceivedIpBytes
  | SendFailures

record traffic_counters =
  cells :: "counter \<Rightarrow> u64"
  incomplete :: bool

definition default_counters :: traffic_counters where
  "default_counters = \<lparr>cells = (\<lambda>c. 0), incomplete = False\<rparr>"

text \<open>\<open>Ipv6Addr::to_ipv4_mapped\<close> finds an IPv4 address exactly in \<open>::ffff:0:0/96\<close>.\<close>

definition is_ipv4_mapped :: "128 word \<Rightarrow> bool" where
  "is_ipv4_mapped a \<longleftrightarrow> drop_bit 32 a = 0xFFFF"

fun headers :: "socket_addr \<Rightarrow> u64" where
  "headers (SocketV4 a port) = 28"
| "headers (SocketV6 a port flow scope) = (if is_ipv4_mapped a then 28 else 48)"

text \<open>One call of \<open>add\<close>: the counter and the value.\<close>

type_synonym add_op = "counter \<times> u64"

definition record_ops ::
  "counter \<Rightarrow> counter \<Rightarrow> counter \<Rightarrow> nat \<Rightarrow> socket_addr \<Rightarrow> (add_op list, unit) res"
where
  "record_ops datagrams payload_bytes ip_bytes len peer =
    and_then (add_w (of_nat len) (headers peer)) (\<lambda>ip.
    Ok [(datagrams, 1), (payload_bytes, of_nat len), (ip_bytes, ip)])"

text \<open>\<open>sent\<close> with the result of the socket call: bytes accepted, or an error.\<close>

definition sent_ops :: "nat \<Rightarrow> socket_addr \<Rightarrow> (nat, io_error) res \<Rightarrow> (add_op list, unit) res" where
  "sent_ops len peer result =
    (if result = Ok len then record_ops SentDatagrams SentPayloadBytes SentIpBytes len peer
     else Ok [(SendFailures, 1)])"

definition received_ops :: "nat \<Rightarrow> socket_addr \<Rightarrow> (add_op list, unit) res" where
  "received_ops len peer = record_ops ReceivedDatagrams ReceivedPayloadBytes ReceivedIpBytes len peer"

record traffic_direction =
  td_datagrams :: u64
  td_payload_bytes :: u64
  td_ip_bytes :: u64

record traffic_stats =
  ts_sent :: traffic_direction
  ts_received :: traffic_direction
  ts_send_failures :: u64
  ts_incomplete :: bool

text \<open>The loads of one snapshot, each from the counters as they are when it runs.\<close>

definition snapshot :: "traffic_counters \<Rightarrow> traffic_stats" where
  "snapshot t =
    \<lparr>ts_sent = \<lparr>td_datagrams = cells t SentDatagrams, td_payload_bytes = cells t SentPayloadBytes,
       td_ip_bytes = cells t SentIpBytes\<rparr>,
     ts_received = \<lparr>td_datagrams = cells t ReceivedDatagrams,
       td_payload_bytes = cells t ReceivedPayloadBytes, td_ip_bytes = cells t ReceivedIpBytes\<rparr>,
     ts_send_failures = cells t SendFailures, ts_incomplete = incomplete t\<rparr>"

section \<open>Concurrent tasks\<close>

text \<open>
  A task is between two calls of \<open>add\<close>, inside the loop with the value it last saw, or
  past a successful exchange that saturated and about to store the flag.
\<close>

datatype add_phase = Ready | Looping counter u64 u64 | Flagging

record task =
  phase :: add_phase
  todo :: "add_op list"

text \<open>The counters, the tasks, and the exchanges that succeeded so far, latest first.\<close>

record traffic_system =
  shared :: traffic_counters
  tasks :: "task list"
  committed :: "add_op list"

text \<open>
  \<open>compare_exchange_weak\<close> may fail although the value is the expected one; a failure
  returns the actual value.
\<close>

inductive add_step :: "traffic_system \<Rightarrow> traffic_system \<Rightarrow> bool" where
  load: "\<lbrakk>i < length (tasks s); tasks s ! i = \<lparr>phase = Ready, todo = (c, v) # rest\<rparr>\<rbrakk> \<Longrightarrow>
    add_step s (s\<lparr>tasks := (tasks s)[i := \<lparr>phase = Looping c v (cells (shared s) c), todo = rest\<rparr>]\<rparr>)"
| exchange_ok: "\<lbrakk>i < length (tasks s); tasks s ! i = \<lparr>phase = Looping c v previous, todo = rest\<rparr>;
     cells (shared s) c = previous\<rbrakk> \<Longrightarrow>
    add_step s (s\<lparr>shared := (shared s)\<lparr>cells := (cells (shared s))(c := saturating_add previous v)\<rparr>,
      tasks := (tasks s)[i := \<lparr>phase = (if checked_add previous v = None then Flagging else Ready), todo = rest\<rparr>],
      committed := (c, v) # committed s\<rparr>)"
| exchange_failed: "\<lbrakk>i < length (tasks s); tasks s ! i = \<lparr>phase = Looping c v previous, todo = rest\<rparr>\<rbrakk> \<Longrightarrow>
    add_step s (s\<lparr>tasks := (tasks s)[i := \<lparr>phase = Looping c v (cells (shared s) c), todo = rest\<rparr>]\<rparr>)"
| store_flag: "\<lbrakk>i < length (tasks s); tasks s ! i = \<lparr>phase = Flagging, todo = rest\<rparr>\<rbrakk> \<Longrightarrow>
    add_step s (s\<lparr>shared := (shared s)\<lparr>incomplete := True\<rparr>,
      tasks := (tasks s)[i := \<lparr>phase = Ready, todo = rest\<rparr>]\<rparr>)"

definition start_tasks :: "add_op list list \<Rightarrow> traffic_system" where
  "start_tasks scripts =
    \<lparr>shared = default_counters, tasks = map (\<lambda>ops. \<lparr>phase = Ready, todo = ops\<rparr>) scripts, committed = []\<rparr>"

inductive add_reachable :: "add_op list list \<Rightarrow> traffic_system \<Rightarrow> bool" for scripts where
  start: "add_reachable scripts (start_tasks scripts)"
| step: "add_reachable scripts s \<Longrightarrow> add_step s t \<Longrightarrow> add_reachable scripts t"

definition all_done :: "traffic_system \<Rightarrow> bool" where
  "all_done s \<longleftrightarrow> list_all (\<lambda>t. phase t = Ready \<and> todo t = []) (tasks s)"

section \<open>No update is lost\<close>

definition added :: "counter \<Rightarrow> add_op list \<Rightarrow> nat" where
  "added c ops = sum_list (map (\<lambda>(d, v). if d = c then unat v else 0) ops)"

lemma added_simps [simp]:
  "added c [] = 0" "added c ((d, v) # ops) = (if d = c then unat v else 0) + added c ops"
  "added c (xs @ ys) = added c xs + added c ys"
  by (simp_all add: added_def)

lemma added_mset: "mset xs = mset ys \<Longrightarrow> added c xs = added c ys"
proof -
  assume "mset xs = mset ys"
  then have "mset (map (\<lambda>(d, v). if d = c then unat v else 0) xs) =
      mset (map (\<lambda>(d, v). if d = c then unat v else 0) ys)"
    by simp
  then show ?thesis unfolding added_def by (metis sum_mset_sum_list)
qed

definition pending :: "task \<Rightarrow> add_op list" where
  "pending t = (case phase t of Looping c v p \<Rightarrow> (c, v) # todo t | _ \<Rightarrow> todo t)"

definition overflowed :: "add_op list \<Rightarrow> bool" where
  "overflowed ops \<longleftrightarrow> (\<exists>c. 2 ^ 64 \<le> added c ops)"

definition traffic_inv :: "add_op list list \<Rightarrow> traffic_system \<Rightarrow> bool" where
  "traffic_inv scripts s \<longleftrightarrow>
    (\<forall>c. unat (cells (shared s) c) = min (added c (committed s)) (2 ^ 64 - 1)) \<and>
    (overflowed (committed s) \<longleftrightarrow> incomplete (shared s) \<or> (\<exists>t \<in> set (tasks s). phase t = Flagging)) \<and>
    mset (committed s) + sum_list (map (mset \<circ> pending) (tasks s)) = mset (concat scripts)"

lemma split_at:
  assumes "i < length ts"
  shows "\<exists>xs t ys. ts = xs @ t # ys \<and> ts ! i = t \<and> (\<forall>t'. ts[i := t'] = xs @ t' # ys)"
  using assms id_take_nth_drop [OF assms] upd_conv_take_nth_drop [OF assms] by blast

lemma traffic_inv_start: "traffic_inv scripts (start_tasks scripts)"
proof -
  have "sum_list (map (mset \<circ> pending) (map (\<lambda>ops. \<lparr>phase = Ready, todo = ops\<rparr>) scripts)) = mset (concat scripts)"
    by (induction scripts) (simp_all add: pending_def)
  then show ?thesis
    by (auto simp: traffic_inv_def start_tasks_def default_counters_def overflowed_def)
qed

lemma pending_sum:
  assumes "i < length ts" "mset (pending t') + x = mset (pending (ts ! i))"
  shows "x + sum_list (map (mset \<circ> pending) (ts[i := t'])) = sum_list (map (mset \<circ> pending) ts)"
proof -
  obtain xs t ys where ts: "ts = xs @ t # ys" "ts ! i = t" "ts[i := t'] = xs @ t' # ys"
    using split_at [OF assms(1)] by blast
  have "sum_list (map (mset \<circ> pending) ts) =
      sum_list (map (mset \<circ> pending) xs) + (mset (pending t) + sum_list (map (mset \<circ> pending) ys))"
    unfolding ts(1) by simp
  also have "mset (pending t) = mset (pending t') + x" using assms(2) ts(2) by simp
  finally show ?thesis unfolding ts(3) by (simp add: ac_simps comp_def)
qed

lemma flagging_update:
  assumes "i < length ts" "phase (ts ! i) \<noteq> Flagging"
  shows "(\<exists>t \<in> set (ts[i := t']). phase t = Flagging) \<longleftrightarrow>
    phase t' = Flagging \<or> (\<exists>t \<in> set ts. phase t = Flagging)"
proof -
  obtain xs t ys where ts: "ts = xs @ t # ys" "ts ! i = t" "ts[i := t'] = xs @ t' # ys"
    using split_at [OF assms(1)] by blast
  have "phase t \<noteq> Flagging" using assms(2) ts(2) by simp
  then show ?thesis unfolding ts(3) unfolding ts(1) by auto
qed

text \<open>A step that changes neither the counters nor what its task still has to add.\<close>

lemma traffic_inv_move:
  assumes "traffic_inv scripts s" "i < length (tasks s)"
    and "phase (tasks s ! i) \<noteq> Flagging" "phase t' \<noteq> Flagging" "pending t' = pending (tasks s ! i)"
  shows "traffic_inv scripts (s\<lparr>tasks := (tasks s)[i := t']\<rparr>)"
  using assms pending_sum [OF assms(2), of t' "{#}"] flagging_update [OF assms(2,3), of t']
  by (simp add: traffic_inv_def)

lemma overflowed_commit:
  assumes "unat previous = min (added c ops) (2 ^ 64 - 1)"
  shows "overflowed ((c, v) # ops) \<longleftrightarrow> checked_add previous v = None \<or> overflowed ops"
proof -
  have none: "checked_add previous v = None \<longleftrightarrow> 2 ^ 64 \<le> unat previous + unat v"
    by (simp add: checked_add_def not_less)
  have "2 ^ 64 \<le> added d ((c, v) # ops) \<longleftrightarrow> (d = c \<and> checked_add previous v = None) \<or> 2 ^ 64 \<le> added d ops"
    for d using assms unfolding none by auto
  then show ?thesis unfolding overflowed_def by blast
qed

text \<open>A successful exchange moves its addition from the task to the counters.\<close>

lemma traffic_inv_commit:
  assumes "traffic_inv scripts s" "i < length (tasks s)"
    and "tasks s ! i = \<lparr>phase = Looping c v previous, todo = rest\<rparr>" "cells (shared s) c = previous"
  shows "traffic_inv scripts
    (s\<lparr>shared := (shared s)\<lparr>cells := (cells (shared s))(c := saturating_add previous v)\<rparr>,
       tasks := (tasks s)[i := \<lparr>phase = (if checked_add previous v = None then Flagging else Ready), todo = rest\<rparr>],
       committed := (c, v) # committed s\<rparr>)"
proof -
  let ?t' = "\<lparr>phase = (if checked_add previous v = None then Flagging else Ready), todo = rest\<rparr>"
  note inv = assms(1) [unfolded traffic_inv_def]
  have cell: "unat previous = min (added c (committed s)) (2 ^ 64 - 1)" using inv assms(4) by blast
  let ?rest = "sum_list (map (mset \<circ> pending) ((tasks s)[i := ?t']))"
  have "{#(c, v)#} + ?rest = sum_list (map (mset \<circ> pending) (tasks s))"
    using assms(3) by (intro pending_sum [OF assms(2)]) (simp add: pending_def)
  then have "mset (committed s) + ({#(c, v)#} + ?rest) = mset (concat scripts)" using inv by metis
  then have sum: "mset ((c, v) # committed s) + ?rest = mset (concat scripts)"
    by (simp del: map_update)
  have flag: "overflowed ((c, v) # committed s) \<longleftrightarrow>
      incomplete (shared s) \<or> (\<exists>t \<in> set ((tasks s)[i := ?t']). phase t = Flagging)"
    using inv overflowed_commit [OF cell, of v] flagging_update [OF assms(2), of ?t'] assms(3) by auto
  have "unat (((cells (shared s))(c := saturating_add previous v)) d) =
      min (added d ((c, v) # committed s)) (2 ^ 64 - 1)" for d
    using inv cell by (auto simp: unat_saturating_add)
  then show ?thesis unfolding traffic_inv_def using flag sum by simp
qed

lemma traffic_inv_flag:
  assumes "traffic_inv scripts s" "i < length (tasks s)" "tasks s ! i = \<lparr>phase = Flagging, todo = rest\<rparr>"
  shows "traffic_inv scripts (s\<lparr>shared := (shared s)\<lparr>incomplete := True\<rparr>,
    tasks := (tasks s)[i := \<lparr>phase = Ready, todo = rest\<rparr>]\<rparr>)"
proof -
  have "\<exists>t \<in> set (tasks s). phase t = Flagging"
    using assms(2,3) nth_mem [OF assms(2)] by (intro bexI [of _ "tasks s ! i"]) simp_all
  then show ?thesis
    using assms pending_sum [OF assms(2), of "\<lparr>phase = Ready, todo = rest\<rparr>" "{#}"]
    by (simp add: traffic_inv_def pending_def)
qed

lemma traffic_inv_step: "add_step s t \<Longrightarrow> traffic_inv scripts s \<Longrightarrow> traffic_inv scripts t"
proof (induction rule: add_step.induct)
  case exchange_ok
  from traffic_inv_commit [OF this(4,1,2,3)] show ?case .
qed (simp_all add: traffic_inv_move traffic_inv_flag pending_def)

lemma traffic_inv_reachable: "add_reachable scripts s \<Longrightarrow> traffic_inv scripts s"
  by (induction rule: add_reachable.induct) (auto intro: traffic_inv_start traffic_inv_step)

lemma no_pending: "(\<And>t. t \<in> set ts \<Longrightarrow> pending t = []) \<Longrightarrow> sum_list (map (mset \<circ> pending) ts) = {#}"
  by (induction ts) simp_all

text \<open>
  Whatever the interleaving of the tasks and the failures of the exchanges, in
  every reachable state each counter holds the sum of the additions committed to it, up
  to saturation, and the flag is set once an addition saturated, except while the task
  that saturated is on its way to set it.
\<close>

lemma traffic_counters_exact:
  assumes "add_reachable scripts s"
  shows "unat (cells (shared s) c) = min (added c (committed s)) (2 ^ 64 - 1) \<and>
    (incomplete (shared s) \<longrightarrow> overflowed (committed s)) \<and>
    (overflowed (committed s) \<longrightarrow> incomplete (shared s) \<or> (\<exists>t \<in> set (tasks s). phase t = Flagging))"
  using traffic_inv_reachable [OF assms] by (simp add: traffic_inv_def)

lemma totals_when_done:
  assumes "add_reachable scripts s" "all_done s"
  shows "unat (cells (shared s) c) = min (added c (concat scripts)) (2 ^ 64 - 1)"
    and "incomplete (shared s) = overflowed (concat scripts)"
proof -
  note inv = traffic_inv_reachable [OF assms(1), unfolded traffic_inv_def]
  have "pending t = []" "phase t \<noteq> Flagging" if "t \<in> set (tasks s)" for t
    using assms(2) that by (auto simp: all_done_def list_all_iff pending_def)
  then have "sum_list (map (mset \<circ> pending) (tasks s)) = {#}" "\<not> (\<exists>t \<in> set (tasks s). phase t = Flagging)"
    using no_pending by blast+
  then have "mset (committed s) = mset (concat scripts)" using inv by simp
  then have "added c (committed s) = added c (concat scripts)" for c by (rule added_mset)
  then show "unat (cells (shared s) c) = min (added c (concat scripts)) (2 ^ 64 - 1)"
      "incomplete (shared s) = overflowed (concat scripts)"
    using inv \<open>\<not> _\<close> by (simp_all add: overflowed_def)
qed

section \<open>The loops can end\<close>

abbreviation add_run :: "traffic_system \<Rightarrow> traffic_system \<Rightarrow> bool" where
  "add_run \<equiv> add_step\<^sup>*\<^sup>*"

definition task_weight :: "task \<Rightarrow> nat" where
  "task_weight t = 3 * length (todo t) + (case phase t of Ready \<Rightarrow> 0 | Looping c v p \<Rightarrow> 2 | Flagging \<Rightarrow> 1)"

definition system_weight :: "traffic_system \<Rightarrow> nat" where
  "system_weight s = sum_list (map task_weight (tasks s))"

lemma weight_update:
  assumes "i < length ts" "task_weight t' < task_weight (ts ! i)"
  shows "sum_list (map task_weight (ts[i := t'])) < sum_list (map task_weight ts)"
proof -
  obtain xs t ys where "ts = xs @ t # ys" "ts ! i = t" "ts[i := t'] = xs @ t' # ys"
    using split_at [OF assms(1)] by blast
  then show ?thesis using assms(2) by simp
qed

text \<open>
  A task that is not done gets further by itself: an exchange that failed has seen the
  value that makes the next one succeed.
\<close>

lemma task_advances:
  assumes i: "i < length (tasks s)" and busy: "\<not> (phase (tasks s ! i) = Ready \<and> todo (tasks s ! i) = [])"
  shows "\<exists>t. add_run s t \<and> system_weight t < system_weight s"
proof (cases "phase (tasks s ! i)")
  case Ready
  then obtain c v rest where t: "tasks s ! i = \<lparr>phase = Ready, todo = (c, v) # rest\<rparr>"
    using busy by (cases "tasks s ! i"; cases "todo (tasks s ! i)") auto
  show ?thesis
    by (rule exI, rule conjI, rule r_into_rtranclp, rule add_step.load [OF i t])
      (simp add: system_weight_def weight_update [OF i] t task_weight_def del: map_update)
next
  case (Looping c v p)
  then obtain rest where t: "tasks s ! i = \<lparr>phase = Looping c v p, todo = rest\<rparr>"
    by (cases "tasks s ! i") auto
  let ?s = "s\<lparr>tasks := (tasks s)[i := \<lparr>phase = Looping c v (cells (shared s) c), todo = rest\<rparr>]\<rparr>"
  have "i < length (tasks ?s)" "tasks ?s ! i = \<lparr>phase = Looping c v (cells (shared s) c), todo = rest\<rparr>"
      "cells (shared ?s) c = cells (shared s) c"
    using i by simp_all
  note ok = add_step.exchange_ok [OF this]
  have run: "add_run s ?s" by (rule r_into_rtranclp, rule add_step.exchange_failed [OF i t])
  show ?thesis
    by (rule exI, rule conjI, rule rtranclp.rtrancl_into_rtrancl [where r = add_step, OF run ok])
      (simp add: system_weight_def weight_update [OF i] t task_weight_def del: map_update)
next
  case Flagging
  then obtain rest where t: "tasks s ! i = \<lparr>phase = Flagging, todo = rest\<rparr>"
    by (cases "tasks s ! i") auto
  show ?thesis
    by (rule exI, rule conjI, rule r_into_rtranclp, rule add_step.store_flag [OF i t])
      (simp add: system_weight_def weight_update [OF i] t task_weight_def del: map_update)
qed

interpretation counting: progress_system add_step "\<lambda>_. True" all_done system_weight
proof
  fix s :: traffic_system
  assume "\<not> all_done s"
  then obtain i where "i < length (tasks s)" "\<not> (phase (tasks s ! i) = Ready \<and> todo (tasks s ! i) = [])"
    by (auto simp: all_done_def list_all_length)
  then show "\<exists>t. add_run s t \<and> system_weight t < system_weight s" by (rule task_advances)
qed

lemma tasks_can_finish: "\<exists>t. add_run s t \<and> all_done t"
  by (rule counting.becomes_quiet) simp

lemma add_reachable_run: "add_run s t \<Longrightarrow> add_reachable scripts s \<Longrightarrow> add_reachable scripts t"
  by (induction rule: rtranclp_induct) (auto intro: add_reachable.step)

text \<open>A run of two tasks whose exchanges collide once.\<close>

definition sample_scripts :: "add_op list list" where
  "sample_scripts = [[(SentPayloadBytes, 5)], [(SentPayloadBytes, - 1)]]"

lemma sample_run:
  "\<exists>s. add_reachable sample_scripts s \<and> all_done s"
proof -
  let ?st = "\<lambda>v inc ts com. \<lparr>shared = \<lparr>cells = (\<lambda>c. 0)(SentPayloadBytes := v), incomplete = inc\<rparr>, tasks = ts, committed = com\<rparr>"
  let ?c = "SentPayloadBytes"
  have z: "(\<lambda>c. 0)(?c := 0) = (\<lambda>c. 0 :: u64)" by auto
  have 0: "add_reachable sample_scripts (?st 0 False [\<lparr>phase = Ready, todo = [(?c, 5)]\<rparr>, \<lparr>phase = Ready, todo = [(?c, - 1)]\<rparr>] [])"
    using add_reachable.start [of sample_scripts] by (simp add: start_tasks_def sample_scripts_def default_counters_def z)
  have 1: "add_reachable sample_scripts (?st 0 False [\<lparr>phase = Looping ?c 5 0, todo = []\<rparr>, \<lparr>phase = Ready, todo = [(?c, - 1)]\<rparr>] [])"
    using add_reachable.step [OF 0 add_step.load [of 0]] by simp
  have 2: "add_reachable sample_scripts (?st 0 False [\<lparr>phase = Looping ?c 5 0, todo = []\<rparr>, \<lparr>phase = Looping ?c (- 1) 0, todo = []\<rparr>] [])"
    using add_reachable.step [OF 1 add_step.load [of 1]] by simp
  have 3: "add_reachable sample_scripts (?st 5 False [\<lparr>phase = Ready, todo = []\<rparr>, \<lparr>phase = Looping ?c (- 1) 0, todo = []\<rparr>] [(?c, 5)])"
    using add_reachable.step [OF 2 add_step.exchange_ok [of 0]]
    by (simp add: saturating_add_def checked_add_def)
  have 4: "add_reachable sample_scripts (?st 5 False [\<lparr>phase = Ready, todo = []\<rparr>, \<lparr>phase = Looping ?c (- 1) 5, todo = []\<rparr>] [(?c, 5)])"
    using add_reachable.step [OF 3 add_step.exchange_failed [of 1]] by simp
  have 5: "add_reachable sample_scripts (?st (- 1) False [\<lparr>phase = Ready, todo = []\<rparr>, \<lparr>phase = Flagging, todo = []\<rparr>] [(?c, - 1), (?c, 5)])"
    using add_reachable.step [OF 4 add_step.exchange_ok [of 1]]
    by (simp add: saturating_add_def checked_add_def unat_minus_one_word)
  have "add_reachable sample_scripts (?st (- 1) True [\<lparr>phase = Ready, todo = []\<rparr>, \<lparr>phase = Ready, todo = []\<rparr>] [(?c, - 1), (?c, 5)])"
    using add_reachable.step [OF 5 add_step.store_flag [of 1]] by simp
  then show ?thesis by (intro exI conjI) (assumption, simp add: all_done_def)
qed

section \<open>What datagrams add\<close>

definition header_bytes :: "socket_addr \<Rightarrow> nat" where
  "header_bytes peer =
    (case peer of SocketV4 a port \<Rightarrow> 28
     | SocketV6 a port flow scope \<Rightarrow> if is_ipv4_mapped a then 28 else 48)"

text \<open>No length that fits in memory makes the header sum overflow.\<close>

lemma record_ops_fits:
  assumes "len < 2 ^ 63"
  shows "record_ops d p i len peer =
    Ok [(d, 1), (p, of_nat len), (i, of_nat (len + header_bytes peer))]"
proof -
  have "headers peer = of_nat (header_bytes peer)" "header_bytes peer \<le> 48"
    by (cases peer; simp add: header_bytes_def)+
  moreover have "unat (of_nat len :: u64) = len" using assms by (simp add: unat_of_nat)
  moreover from calculation have "unat (headers peer) = header_bytes peer" by (simp add: unat_of_nat)
  ultimately have "add_w (of_nat len) (headers peer) = (Ok (of_nat len + headers peer) :: (u64, unit) res)"
    using assms by (simp add: add_w_def)
  then show ?thesis by (simp add: record_ops_def \<open>headers peer = _\<close>)
qed

text \<open>What the counters are told: the sends of \<open>send_datagram\<close>, the receptions of the router.\<close>

datatype traffic_event = Sent nat socket_addr "(nat, io_error) res" | Received nat socket_addr

fun event_ops :: "traffic_event \<Rightarrow> (add_op list, unit) res" where
  "event_ops (Sent len peer result) = sent_ops len peer result"
| "event_ops (Received len peer) = received_ops len peer"

definition task_ops :: "traffic_event list \<Rightarrow> add_op list" where
  "task_ops log = concat (map (\<lambda>e. case event_ops e of Ok ops \<Rightarrow> ops | _ \<Rightarrow> []) log)"

fun event_len :: "traffic_event \<Rightarrow> nat" where
  "event_len (Sent len peer result) = len"
| "event_len (Received len peer) = len"

section \<open>Totals of datagrams\<close>

text \<open>
  The totals as documented: datagrams the socket took whole, datagrams received, their
  payload, their payload with headers, and the sends that failed or were partial.
\<close>

definition sent_whole :: "traffic_event list \<Rightarrow> (nat \<times> socket_addr) list" where
  "sent_whole log = List.map_filter (\<lambda>e. case e of
     Sent len peer result \<Rightarrow> if result = Ok len then Some (len, peer) else None | _ \<Rightarrow> None) log"

definition received_all :: "traffic_event list \<Rightarrow> (nat \<times> socket_addr) list" where
  "received_all log = List.map_filter (\<lambda>e. case e of Received len peer \<Rightarrow> Some (len, peer) | _ \<Rightarrow> None) log"

definition failed_sends :: "traffic_event list \<Rightarrow> nat" where
  "failed_sends log = length (filter (\<lambda>e. case e of Sent len peer result \<Rightarrow> result \<noteq> Ok len | _ \<Rightarrow> False) log)"

fun datagram_total :: "traffic_event list \<Rightarrow> counter \<Rightarrow> nat" where
  "datagram_total log SentDatagrams = length (sent_whole log)"
| "datagram_total log SentPayloadBytes = sum_list (map fst (sent_whole log))"
| "datagram_total log SentIpBytes = sum_list (map (\<lambda>(len, peer). len + header_bytes peer) (sent_whole log))"
| "datagram_total log ReceivedDatagrams = length (received_all log)"
| "datagram_total log ReceivedPayloadBytes = sum_list (map fst (received_all log))"
| "datagram_total log ReceivedIpBytes = sum_list (map (\<lambda>(len, peer). len + header_bytes peer) (received_all log))"
| "datagram_total log SendFailures = failed_sends log"

instantiation counter :: enum
begin

definition enum_counter :: "counter list" where
  "enum_counter = [SentDatagrams, SentPayloadBytes, SentIpBytes,
     ReceivedDatagrams, ReceivedPayloadBytes, ReceivedIpBytes, SendFailures]"

definition enum_all_counter :: "(counter \<Rightarrow> bool) \<Rightarrow> bool" where
  "enum_all_counter P = list_all P enum_class.enum"

definition enum_ex_counter :: "(counter \<Rightarrow> bool) \<Rightarrow> bool" where
  "enum_ex_counter P = list_ex P enum_class.enum"

lemma counter_in_enum: "c \<in> set (enum_class.enum :: counter list)"
  by (cases c) (simp_all add: enum_counter_def)

instance
proof
  show "(UNIV :: counter set) = set enum_class.enum" using counter_in_enum by blast
  show "distinct (enum_class.enum :: counter list)" by (simp add: enum_counter_def)
qed (use counter_in_enum in \<open>auto simp: enum_all_counter_def enum_ex_counter_def list_all_iff list_ex_iff\<close>)

end

definition clamp :: "nat \<Rightarrow> u64" where
  "clamp n = of_nat (min n (2 ^ 64 - 1))"

definition traffic_of :: "traffic_event list \<Rightarrow> traffic_stats" where
  "traffic_of log =
    \<lparr>ts_sent = \<lparr>td_datagrams = clamp (datagram_total log SentDatagrams),
       td_payload_bytes = clamp (datagram_total log SentPayloadBytes), td_ip_bytes = clamp (datagram_total log SentIpBytes)\<rparr>,
     ts_received = \<lparr>td_datagrams = clamp (datagram_total log ReceivedDatagrams),
       td_payload_bytes = clamp (datagram_total log ReceivedPayloadBytes),
       td_ip_bytes = clamp (datagram_total log ReceivedIpBytes)\<rparr>,
     ts_send_failures = clamp (datagram_total log SendFailures),
     ts_incomplete = (\<exists>c. 2 ^ 64 \<le> datagram_total log c)\<rparr>"

lemma clamp_unat: "unat w = min n (2 ^ 64 - 1) \<Longrightarrow> clamp n = w"
  unfolding clamp_def by (drule sym) simp

lemmas total_defs = sent_whole_def received_all_def failed_sends_def map_filter_simps

lemma total_Cons: "datagram_total (e # log) c = datagram_total [e] c + datagram_total log c"
  by (cases c; cases e) (simp_all add: total_defs)

lemma total_event:
  assumes "event_len e < 2 ^ 63"
  shows "datagram_total [e] c = added c (task_ops [e])"
proof -
  have "event_len e + header_bytes peer < 2 ^ 64" for peer
    using assms by (simp add: header_bytes_def split: socket_addr.split)
  then have fits: "unat (of_nat (event_len e + header_bytes peer) :: u64) = event_len e + header_bytes peer"
      "unat (of_nat (event_len e) :: u64) = event_len e" for peer
    using assms by (simp_all add: unat_of_nat del: of_nat_add)
  show ?thesis
    using assms fits
    by (cases e; cases c)
      (simp_all add: task_ops_def sent_ops_def received_ops_def record_ops_fits total_defs del: of_nat_add)
qed

lemma total_added:
  "list_all (\<lambda>e. event_len e < 2 ^ 63) log \<Longrightarrow> added c (task_ops log) = datagram_total log c"
proof (induction log)
  case Nil
  show ?case by (cases c) (simp_all add: task_ops_def total_defs)
next
  case (Cons e log)
  have "task_ops (e # log) = task_ops [e] @ task_ops log" by (simp add: task_ops_def)
  with Cons show ?case by (simp add: total_Cons [of e log] total_event)
qed

lemma task_ops_concat: "concat (map task_ops logs) = task_ops (concat logs)"
  by (induction logs) (simp_all add: task_ops_def)

lemma finished_snapshot:
  assumes "list_all (list_all (\<lambda>e. event_len e < 2 ^ 63)) logs"
    and "add_reachable (map task_ops logs) t" "all_done t"
  shows "snapshot (shared t) = traffic_of (concat logs)"
proof -
  have "list_all (\<lambda>e. event_len e < 2 ^ 63) (concat logs)" using assms(1) by (auto simp: list_all_iff)
  then have sums: "added c (concat (map task_ops logs)) = datagram_total (concat logs) c" for c
    by (simp add: task_ops_concat total_added)
  note totals = totals_when_done [OF assms(2,3), unfolded sums overflowed_def]
  show ?thesis
    by (simp add: snapshot_def traffic_of_def clamp_unat [OF totals(1)] totals(2) del: datagram_total.simps)
qed

text \<open>
  C26: the atomics refine plain totals: whatever the interleaving of the tasks that report
  datagrams and the failures of their exchanges, they can all finish, and once they have,
  the snapshot is the one of the datagrams themselves: those sent whole and those
  received, their bytes without and with headers (28 for IPv4, also mapped into IPv6, 48
  for IPv6), the failed sends, each up to saturation, which the flag tells.
\<close>

theorem traffic_refines_totals:
  assumes "list_all (list_all (\<lambda>e. event_len e < 2 ^ 63)) logs" "add_reachable (map task_ops logs) s"
  shows "(\<exists>t. add_run s t \<and> all_done t) \<and>
    (\<forall>t. add_run s t \<and> all_done t \<longrightarrow> snapshot (shared t) = traffic_of (concat logs))"
  using tasks_can_finish finished_snapshot [OF assms(1)] add_reachable_run [OF _ assms(2)] by blast

text \<open>One task sends two datagrams, the second in part; another one receives one.\<close>

definition sample_logs :: "traffic_event list list" where
  "sample_logs =
    [[Sent 100 (SocketV6 1 9 0 0) (Ok 100), Sent 100 (SocketV4 0 9) (Ok 99)],
     [Received 7 (SocketV6 0xFFFF7F000001 9 0 0)]]"

theorem traffic_refines_totals_witness:
  "\<exists>t. add_reachable (map task_ops sample_logs) t \<and> all_done t \<and> snapshot (shared t) =
    \<lparr>ts_sent = \<lparr>td_datagrams = 1, td_payload_bytes = 100, td_ip_bytes = 148\<rparr>,
     ts_received = \<lparr>td_datagrams = 1, td_payload_bytes = 7, td_ip_bytes = 35\<rparr>,
     ts_send_failures = 1, ts_incomplete = False\<rparr>"
proof -
  have s: "add_reachable (map task_ops sample_logs) (start_tasks (map task_ops sample_logs))"
    by (rule add_reachable.start)
  have "list_all (list_all (\<lambda>e. event_len e < 2 ^ 63)) sample_logs" by (simp add: sample_logs_def)
  note main = traffic_refines_totals [OF this s]
  moreover have "traffic_of (concat sample_logs) =
    \<lparr>ts_sent = \<lparr>td_datagrams = 1, td_payload_bytes = 100, td_ip_bytes = 148\<rparr>,
     ts_received = \<lparr>td_datagrams = 1, td_payload_bytes = 7, td_ip_bytes = 35\<rparr>,
     ts_send_failures = 1, ts_incomplete = False\<rparr>"
    by code_simp
  ultimately show ?thesis using s add_reachable_run by metis
qed

end
