(* ===== verification/CoreClient.thy ===== *)
theory CoreClient
  imports Steering Router Traffic
begin

text \<open>
  \<open>CoreClient\<close> of \<open>src/client.rs\<close>: construction, the check of a rate limit from
  validation to steering, and the latency report.  Discovery, packets, the exchange, the
  router and steering are the theories imported here.
\<close>

section \<open>Configuration and state\<close>

record core_config =
  cc_api_key :: api_key_config
  cc_dns_refresh_interval_s :: u64
  cc_ignore_steering_feedback :: bool
  cc_request_policy :: request_policy
  cc_dns_server :: "socket_addr option"

definition effective_request_policy :: "core_config \<Rightarrow> request_policy" where
  "effective_request_policy cfg = cc_request_policy cfg"

text \<open>
  The registry is kept as the set of registered identifiers (its channels are in
  \<open>Router\<close>); \<open>cl_sent\<close> lists what \<open>TrafficCounters::sent\<close> is told.
\<close>

record core_client =
  cl_config :: core_config
  cl_steering :: steering_state
  cl_inflight :: "bytes set"
  cl_discovery :: discovery
  cl_server_stats :: "u64 \<rightharpoonup> server_stats"
  cl_limits :: api_key_limits
  cl_cookie_hash_cache :: "bytes option"
  cl_aes_key_cache :: "bytes option"
  cl_sent :: "(nat \<times> socket_addr \<times> (nat, io_error) res) list"

text \<open>
  The world of a client, whose state the operations thread: the clocks (nanoseconds since
  the earliest instant the platform represents, and milliseconds since 1970), the random
  source, the resolver and the text of addresses, the network, the cryptographic
  primitives, the kernel, and whether the response router still runs.
\<close>

record 'e world =
  w_clock :: "'e \<Rightarrow> nat \<times> 'e"
  w_system_time_ms :: "'e \<Rightarrow> int \<times> 'e"
  w_new_uuid :: "'e \<Rightarrow> bytes \<times> 'e"
  w_nonce :: "'e \<Rightarrow> bytes \<times> 'e"
  w_resolver :: resolver_package
  w_srv_lookup :: "'e srv_lookup"
  w_lookup_ip :: "'e ip_lookup"
  w_ip_text :: "ip_addr \<Rightarrow> string"
  w_parse_ip :: "string \<Rightarrow> ip_addr option"
  w_receive :: "bytes \<Rightarrow> nat \<Rightarrow> 'e \<Rightarrow> response_packet option \<times> 'e"
  w_transmit :: "udp_socket \<Rightarrow> bytes \<Rightarrow> socket_addr \<Rightarrow> 'e \<Rightarrow> (nat, io_error) res \<times> 'e"
  w_hash :: "bytes \<Rightarrow> bytes"
  w_seal :: cipher
  w_open :: cipher
  w_os :: "'e os"
  w_router_alive :: bool

text \<open>The operator \<open>?\<close> in a body that threads a state.\<close>

definition and_then_st ::
  "('a, 'x) res \<times> 's \<Rightarrow> ('a \<Rightarrow> 's \<Rightarrow> ('b, 'x) res \<times> 's) \<Rightarrow> ('b, 'x) res \<times> 's"
where
  "and_then_st m f =
    (case m of
       (Ok y, s) \<Rightarrow> f y s
     | (Err error, s) \<Rightarrow> (Err error, s)
     | (Panic, s) \<Rightarrow> (Panic, s))"

definition config_error :: "('a, configuration_error) res \<Rightarrow> ('a, core_error) res" where
  "config_error r = map_err (\<lambda>m. CoreConfig (display_configuration_error m)) r"

section \<open>Construction\<close>

text \<open>The first refresh is made due at once, where the clock can represent that instant.\<close>

definition initial_last_dns_refresh :: "'e world \<Rightarrow> u64 \<Rightarrow> 'e \<Rightarrow> nat \<times> 'e" where
  "initial_last_dns_refresh w interval e =
    (let (now, e) = w_clock w e;
         back = 1000000000 * unat (saturating_add interval 1)
     in if back \<le> now then (now - back, e) else w_clock w e)"

definition core_client_new :: "'e world \<Rightarrow> core_config \<Rightarrow> 'e \<Rightarrow> (core_client, core_error) res \<times> 'e" where
  "core_client_new w cfg e =
    and_then_st (bind_sockets (w_os w) 0 e) (\<lambda>sockets e.
    and_then_st (build_resolver (w_resolver w) (cc_dns_server cfg), e) (\<lambda>_ e.
    let limits = ac_limits (cc_api_key cfg); auth = ac_auth_method (cc_api_key cfg) in
    and_then_st (config_error (horizon_ms (effective_request_policy cfg) (dedup_ttl_ms_max limits)), e) (\<lambda>_ e.
    let (instant, e) = initial_last_dns_refresh w (cc_dns_refresh_interval_s cfg) e
    in (Ok \<lparr>cl_config = cfg,
            cl_steering = \<lparr>sockets = sockets, socket_epoch = 0, steer_stats = default_steering_stats\<rparr>,
            cl_inflight = {}, cl_discovery = \<lparr>servers = [], last_dns_refresh = instant\<rparr>,
            cl_server_stats = Map.empty, cl_limits = limits, cl_cookie_hash_cache = cookie_hash_cache auth,
            cl_aes_key_cache = aes_key_cache auth, cl_sent = []\<rparr>, e))))"

section \<open>Discovery and packets\<close>

definition refresh_if_due :: "'e world \<Rightarrow> core_client \<times> 'e \<Rightarrow> (unit, core_error) res \<times> core_client \<times> 'e" where
  "refresh_if_due w s =
    (let (cl, e) = s; cfg = cl_config cl;
         (r, d, e) = maybe_periodic_dns_refresh (w_srv_lookup w) (w_lookup_ip w) (w_ip_text w) (w_clock w)
           (service_domain (cc_api_key cfg)) (cc_dns_refresh_interval_s cfg) e (cl_discovery cl)
     in (r, cl\<lparr>cl_discovery := d\<rparr>, e))"

definition targets_now :: "'e world \<Rightarrow> core_client \<times> 'e \<Rightarrow> (resolved_targets, core_error) res \<times> core_client \<times> 'e" where
  "targets_now w s =
    (let (cl, e) = s; (r, e) = current_targets (w_lookup_ip w) (w_parse_ip w) e (cl_discovery cl)
     in (r, cl, e))"

text \<open>\<open>now_millis\<close>: the \<open>unwrap\<close> panics before 1970.\<close>

definition now_millis :: "'e world \<Rightarrow> core_client \<times> 'e \<Rightarrow> (u64, core_error) res \<times> core_client \<times> 'e" where
  "now_millis w s =
    (let (cl, e) = s; (ms, e) = w_system_time_ms w e
     in (if ms < 0 then Panic else Ok (of_nat (nat ms)), cl, e))"

text \<open>The size check, the header and the authenticated PDU.\<close>

definition frame_packet ::
  "'e world \<Rightarrow> tenant_header \<Rightarrow> bytes \<Rightarrow> core_client \<times> 'e \<Rightarrow> (bytes, core_error) res \<times> core_client \<times> 'e"
where
  "frame_packet w header pdu s =
    (let (cl, e) = s; auth = ac_auth_method (cc_api_key (cl_config cl)) in
     if MAX_PACKET_SIZE < TENANT_TLV_LEN + auth_header_size auth + length pdu
     then (Err (CoreProtocol (Text ''Packet too large for MTU target'')), cl, e)
     else let (nonce, e) = (case auth of AesGcm key \<Rightarrow> w_nonce w e | _ \<Rightarrow> ([], e))
          in (and_then (write_tenant_header [] header) (\<lambda>packet.
                append_auth_tlv (w_seal w) nonce auth (cl_cookie_hash_cache cl) (cl_aes_key_cache cl) packet pdu),
              cl, e))"

definition request_packet ::
  "'e world \<Rightarrow> (bytes, core_error) res \<Rightarrow> core_client \<times> 'e \<Rightarrow> (bytes \<times> bytes, core_error) res \<times> core_client \<times> 'e"
where
  "request_packet w pdu s =
    (let (cl, e) = s; (request_id, e) = w_new_uuid w e in
     and_then_st (now_millis w (cl, e)) (\<lambda>now s.
     and_then_st (pdu, s) (\<lambda>pdu s.
     and_then_st (frame_packet w (build_tenant_header (cc_api_key (cl_config cl)) now request_id) pdu s) (\<lambda>packet s.
     (Ok (request_id, packet), s)))))"

section \<open>Checking a rate limit\<close>

definition validate_rate_windows_against_quota ::
  "resource_request list \<Rightarrow> u32 option \<Rightarrow> (unit, core_error) res"
where
  "validate_rate_windows_against_quota resources quota =
    (case quota of
       None \<Rightarrow> Ok ()
     | Some limit \<Rightarrow>
         (case find (\<lambda>r. limit < rr_window_size_ms r) resources of
            Some resource \<Rightarrow>
              Err (CoreProtocol (Fmt ''Resource '{}' window_size_ms {} exceeds rate_window_size_ms_max {}''
                [StrArg (rr_bucket_name resource), NumArg (unat (rr_window_size_ms resource)), NumArg (unat limit)]))
          | None \<Rightarrow> Ok ()))"

definition local_grant :: rate_limit_result where
  "local_grant = \<lparr>rl_success = True, rl_guard_results = [], rl_resource_results = [], rl_server_id = 0,
     rl_steering_feedback = False\<rparr>"

definition dedup_ttl_ms_limit :: "core_client \<Rightarrow> u32 option" where
  [simp]: "dedup_ttl_ms_limit cl = Some (dedup_ttl_ms_max (cl_limits cl))"

definition prepare_request ::
  "'e world \<Rightarrow> resource_request list \<Rightarrow> latency_guard list \<Rightarrow> string option \<Rightarrow> core_client \<times> 'e
   \<Rightarrow> (u32 \<times> resolved_targets \<times> bytes \<times> bytes, core_error) res \<times> core_client \<times> 'e"
where
  "prepare_request w resources guards metrics_label s =
    (let policy = effective_request_policy (cl_config (fst s));
         dedup_limit = (case dedup_ttl_ms_limit (fst s) of Some limit \<Rightarrow> limit | None \<Rightarrow> - 1) in
     and_then_st (config_error (horizon_ms policy dedup_limit), s) (\<lambda>dedup_ttl_ms s.
     and_then_st (refresh_if_due w s) (\<lambda>_ s.
     and_then_st (targets_now w s) (\<lambda>resolved s.
     if targets resolved = [] then (Err (CoreDns (Text ''No servers available'')), s)
     else
       and_then_st (request_packet w
           (and_then (build_rate_request_body (w_hash w) resources guards metrics_label)
             (build_rate_request_pdu dedup_ttl_ms)) s) (\<lambda>(request_id, packet) s.
       (Ok (dedup_ttl_ms, resolved, request_id, packet), s))))))"

definition exchange_of :: "'e world \<Rightarrow> core_client \<Rightarrow> bytes \<Rightarrow> bytes \<Rightarrow> resolved_targets \<Rightarrow> 'e exchange" where
  "exchange_of w cl request_id packet resolved =
    \<lparr>clock = w_clock w, receive = w_receive w request_id, transmit = w_transmit w, ex_cipher = w_open w,
     ex_auth_method = ac_auth_method (cc_api_key (cl_config cl)), ex_cookie_hash = cl_cookie_hash_cache cl,
     ex_aes_key = cl_aes_key_cache cl, ex_sockets = sockets (cl_steering cl), ex_packet = packet,
     ex_resolved = resolved\<rparr>"

definition progress_of :: "core_client \<Rightarrow> progress" where
  "progress_of cl = \<lparr>seen_server_ids = {}, seen_addrs = {}, stats = cl_server_stats cl, send_results = []\<rparr>"

text \<open>The client after sends and answers: statistics and traffic.\<close>

definition note_progress :: "bytes \<Rightarrow> progress \<Rightarrow> core_client \<Rightarrow> core_client" where
  "note_progress packet p cl =
    cl\<lparr>cl_server_stats := stats p,
       cl_sent := cl_sent cl @ map (\<lambda>(target, result). (length packet, target, result)) (send_results p)\<rparr>"

text \<open>
  From the registration to the return.  The registration is dropped on every way out;
  steering runs after the exchange, and its error is the result.
\<close>

definition run_request ::
  "'e world \<Rightarrow> u32 \<Rightarrow> resolved_targets \<Rightarrow> bytes \<Rightarrow> bytes \<Rightarrow> core_client \<times> 'e
   \<Rightarrow> ((rate_limit_result, core_error) res \<times> core_client \<times> 'e) option"
where
  "run_request w dedup_ttl_ms resolved request_id packet s =
    (let (cl, e) = s;
         cl = cl\<lparr>cl_inflight := insert request_id (cl_inflight cl)\<rparr>;
         unregister = (\<lambda>cl. cl\<lparr>cl_inflight := cl_inflight cl - {request_id}\<rparr>)
     in case exchange_request (exchange_of w cl request_id packet resolved)
            (effective_request_policy (cl_config cl)) dedup_ttl_ms (progress_of cl) e of
          None \<Rightarrow> None
        | Some (selected, p, e) \<Rightarrow>
            let cl = note_progress packet p cl
            in case selected of
                 Err error \<Rightarrow> Some (Err error, unregister cl, e)
               | Panic \<Rightarrow> Some (Panic, unregister cl, e)
               | Ok result \<Rightarrow>
                   let cfg = cl_config cl;
                       (r, st, e) = apply_steering_feedback (w_os w) (w_router_alive w)
                         (ac_steering_feedback (cc_api_key cfg)) (cc_ignore_steering_feedback cfg) result
                         (cl_steering cl) e
                   in Some (and_then r (\<lambda>_. Ok result), unregister (cl\<lparr>cl_steering := st\<rparr>), e))"

definition check_rate_limit ::
  "'e world \<Rightarrow> resource_request list \<Rightarrow> latency_guard list \<Rightarrow> string option \<Rightarrow> core_client \<times> 'e
   \<Rightarrow> ((rate_limit_result, core_error) res \<times> core_client \<times> 'e) option"
where
  "check_rate_limit w resources guards metrics_label s =
    (case validate_rate_windows_against_quota resources (Some (rate_window_size_ms_max (cl_limits (fst s)))) of
       Err error \<Rightarrow> Some (Err error, s)
     | Panic \<Rightarrow> Some (Panic, s)
     | Ok _ \<Rightarrow>
         if resources = [] \<and> guards = [] then Some (Ok local_grant, s)
         else case prepare_request w resources guards metrics_label s of
           (Err error, s) \<Rightarrow> Some (Err error, s)
         | (Panic, s) \<Rightarrow> Some (Panic, s)
         | (Ok (dedup_ttl_ms, resolved, request_id, packet), s) \<Rightarrow>
             run_request w dedup_ttl_ms resolved request_id packet s)"

section \<open>Reporting a latency\<close>

fun report_loop ::
  "'e exchange \<Rightarrow> socket_addr list \<Rightarrow> send_counts \<Rightarrow> progress \<Rightarrow> 'e \<Rightarrow> send_counts \<times> progress \<times> 'e"
where
  "report_loop x [] c p e = (c, p, e)"
| "report_loop x (target # rest) c p e =
    (let (result, p, e) = send_datagram x (ex_packet x) target p e
     in case result of
          Err error \<Rightarrow>
            report_loop x rest
              (c\<lparr>failed_server_ids := failed_server_ids c @
                   (case target_server_ids (ex_resolved x) target of Some i \<Rightarrow> [i] | None \<Rightarrow> []),
                 last_error := Some error\<rparr>) p e
        | _ \<Rightarrow> report_loop x rest (c\<lparr>delivered := delivered c + 1\<rparr>) p e)"

definition report_to_all :: "'e exchange \<Rightarrow> progress \<Rightarrow> 'e \<Rightarrow> (unit, core_error) res \<times> progress \<times> 'e" where
  "report_to_all x p e =
    (let (c, p, e) = report_loop x (targets (ex_resolved x)) no_sends p e
     in if delivered c = 0
        then (case last_error c of Some error \<Rightarrow> (Err (CoreIo error), p, e) | None \<Rightarrow> (Ok (), p, e))
        else if delivered c < length (targets (ex_resolved x))
        then let (p, e) = record_send_failures x (failed_server_ids c) p e in (Ok (), p, e)
        else (Ok (), p, e))"

definition report_latency ::
  "'e world \<Rightarrow> service_latency_report list \<Rightarrow> core_client \<times> 'e \<Rightarrow> (unit, core_error) res \<times> core_client \<times> 'e"
where
  "report_latency w reports s =
    (if reports = [] then (Ok (), s)
     else
       and_then_st (refresh_if_due w s) (\<lambda>_ s.
       and_then_st (request_packet w
           (and_then (build_latency_report_body (w_hash w) reports) (build_pdu PDU_LATENCY_REPORT)) s)
         (\<lambda>(request_id, packet) s.
       and_then_st (targets_now w s) (\<lambda>resolved s.
       let (cl, e) = s;
           (r, p, e) = report_to_all (exchange_of w cl request_id packet resolved) (progress_of cl) e
       in (r, note_progress packet p cl, e)))))"

section \<open>Errors of the kernel\<close>

definition io_only :: "('a, core_error) res \<Rightarrow> bool" where
  "io_only r \<longleftrightarrow> (\<forall>error. r = Err error \<longrightarrow> (\<exists>io. error = CoreIo io))"

lemma io_only_simps [simp]: "io_only (Ok a)" "io_only Panic" "io_only (Err error) \<longleftrightarrow> (\<exists>io. error = CoreIo io)"
  by (simp_all add: io_only_def)

lemma syscalls_io: "io_only (fst (syscalls os calls o1))"
  by (induction os calls o1 rule: syscalls.induct) (auto split: prod.splits sum.splits)

lemma bind_family_io: "io_only (fst (bind_udp_socket_for_family os port ipv6 o1))"
proof -
  obtain r o2 where s: "syscalls os ([OpenUdp ipv6] @ (if ipv6 then [SetOnlyV6] else []) @
      [BindTo (unspecified port ipv6), SetNonblocking, Sockets.Register]) o1 = (r, o2)" by force
  then have "io_only r" using syscalls_io by (metis fst_conv)
  then show ?thesis using s unfolding bind_udp_socket_for_family_def Let_def by (cases r) auto
qed

lemma bind_sockets_io: "io_only (fst (bind_sockets os port o1))"
proof -
  obtain r4 o2 where 4: "bind_udp_socket_for_family os port False o1 = (r4, o2)" by force
  obtain r6 o3 where 6: "bind_udp_socket_for_family os port True o2 = (r6, o3)" by force
  have "io_only r4" using 4 bind_family_io by (metis fst_conv)
  then show ?thesis using 4 6 by (cases r4; cases r6) (auto simp: bind_sockets_def Let_def)
qed

lemma try_ports_io: "io_only (fst (try_ports os n c le o1))"
proof (induction os n c le o1 rule: try_ports.induct)
  case (2 os n c le o1)
  have "io_only (fst (bind_sockets os c o1))" by (rule bind_sockets_io)
  then show ?case using 2 by (auto split: res.splits prod.splits)
qed simp

lemma local_addr_io: "io_only (fst (local_addr os fs o1))"
  by (auto simp: local_addr_def split: option.splits prod.splits sum.splits)

lemma apply_steering_io: "io_only (fst (apply_steering_feedback os alive enabled ignored result s o1))"
proof -
  have b: "bind_next_steering_socket os p q o2 = (r, o3) \<Longrightarrow> io_only r" for p q o2 r o3
    using try_ports_io unfolding bind_next_steering_socket_def Let_def by (metis fst_conv)
  have l: "local_addr os fs o2 = (r, o3) \<Longrightarrow> io_only r" for fs o2 r o3
    using local_addr_io by (metis fst_conv)
  show ?thesis
    by (auto simp: apply_steering_feedback_def rebind_def Let_def split: prod.splits res.splits
        dest!: b l)
qed

lemma run_rounds_io:
  assumes "valid_schedule (replay_gap policy)"
  shows "run_rounds x policy oldest rounds best p e = Some (out, p', e') \<Longrightarrow> io_only out"
proof (induction rounds arbitrary: best p e)
  case (Cons round rounds)
  obtain rs r p1 e1 where s: "send_to_missing x p e = (r, p1, e1)"
      "r = (if rs \<noteq> [] \<and> length (failures rs) = length rs then Err (CoreIo (last (failures rs))) else Ok ())"
    using send_to_missing_cases [of x p e] by (elim exE conjE)
  obtain n where "units (replay_gap policy) round = Ok n" using units_valid [OF assms] by blast
  then show ?case using Cons s
    by (cases r) (auto simp: Let_def split: option.splits if_splits prod.splits)
qed auto

lemma exchange_errors:
  assumes "valid_schedule (replay_gap policy)" "exchange_request x policy ttl p e = Some (Err error, p', e')"
  shows "error = CoreTimeout \<or> (\<exists>io. error = CoreIo io)"
proof -
  have "policy_outcome x policy q e1 = Some (out, q', e2) \<Longrightarrow> io_only out" for q e1 out q' e2
    using run_rounds_io [OF assms(1)]
    by (fastforce simp: policy_outcome_def Let_def split: option.splits res.splits prod.splits if_splits)
  then show ?thesis using assms(2)
    by (fastforce simp: exchange_request_def Let_def split: option.splits res.splits prod.splits if_splits)
qed

section \<open>Packets\<close>

text \<open>What the client relies on outside this repository.\<close>

definition sound_world :: "'e world \<Rightarrow> bool" where
  "sound_world w \<longleftrightarrow> (\<forall>ip. w_parse_ip w (w_ip_text w ip) = Some ip) \<and>
    (\<forall>e. 0 \<le> fst (w_system_time_ms w e)) \<and> (\<forall>e. length (fst (w_new_uuid w e)) = 16) \<and>
    (\<forall>e. length (fst (w_nonce w e)) = 12) \<and> (\<forall>bs. 16 \<le> length (w_hash w bs)) \<and>
    aead (w_seal w) (w_open w) \<and>
    (\<forall>key nonce aad msg. length msg \<le> MAX_PACKET_SIZE \<longrightarrow> w_seal w key nonce aad msg \<noteq> None)"

definition short_name :: "string \<Rightarrow> bool" where
  "short_name name \<longleftrightarrow> length name < 2 ^ 32"

definition client_auth :: "core_client \<Rightarrow> auth_method" where
  "client_auth cl = ac_auth_method (cc_api_key (cl_config cl))"

text \<open>The invariant of a client.\<close>

definition client_inv :: "'e world \<Rightarrow> core_client \<Rightarrow> bool" where
  "client_inv w cl \<longleftrightarrow> bound_sockets (cl_steering cl) \<and> steering_start_ok (cl_steering cl) \<and>
    discovered (w_ip_text w) (cl_discovery cl) \<and> credential_shape (client_auth cl) \<and>
    cl_cookie_hash_cache cl = cookie_hash_cache (client_auth cl) \<and>
    cl_aes_key_cache cl = aes_key_cache (client_auth cl) \<and>
    (\<exists>h. horizon_ms (effective_request_policy (cl_config cl)) (dedup_ttl_ms_max (cl_limits cl)) = Ok h)"

lemma and_then_st_simps [simp]:
  "and_then_st (Ok a, s) f = f a s" "and_then_st (Err error, s) f = (Err error, s)"
  "and_then_st (Panic, s) f = (Panic, s)"
  by (simp_all add: and_then_st_def)

lemma content_id_total:
  "\<forall>bs. 16 \<le> length (hash bs) \<Longrightarrow> length (content_name c) < 2 ^ 32 \<Longrightarrow> \<exists>i. content_id hash c = Ok i"
  by (cases c) (auto simp: derive_bucket_id_bytes_def derive_latency_tracker_id_bytes_def
      derive_content_id_def slice_def)

definition protocol_only :: "('a, core_error) res \<Rightarrow> bool" where
  "protocol_only r \<longleftrightarrow> r \<noteq> Panic \<and> (\<forall>error. r = Err error \<longrightarrow> (\<exists>m. error = CoreProtocol m))"

lemma protocol_only_simps [simp]:
  "protocol_only (Ok a)" "\<not> protocol_only Panic" "protocol_only (Err error) \<longleftrightarrow> (\<exists>m. error = CoreProtocol m)"
  by (simp_all add: protocol_only_def)

lemma rate_pdu_errors:
  assumes "\<forall>bs. 16 \<le> length (hash bs)" "list_all (\<lambda>r. short_name (rr_bucket_name r)) rs"
    and "list_all (\<lambda>g. short_name (lg_latency_tracker_name g)) gs"
  shows "protocol_only (and_then (build_rate_request_body hash rs gs label) (build_rate_request_pdu ttl))"
proof -
  let ?counts = "to_le 2 (of_nat (length gs) :: u16) @ to_le 2 (of_nat (length rs) :: u16)"
  have "list_all (\<lambda>g. \<exists>i. guard_id hash g = Ok i) gs"
    using assms(3) by (auto simp: list_all_iff guard_id_def short_name_def simp del: content_id.simps
        intro!: content_id_total [OF assms(1)])
  then obtain b1 where b1: "append_guards hash gs ?counts = Ok b1" using guard_append.loop_total by blast
  have "list_all (\<lambda>r. \<exists>i. resource_id hash r = Ok i) rs"
    using assms(2) by (auto simp: list_all_iff resource_id_def short_name_def simp del: content_id.simps
        intro!: content_id_total [OF assms(1)])
  then obtain b2 where b2: "append_resources hash rs b1 = Ok b2" using resource_append.loop_total by blast
  show ?thesis
  proof (cases label)
    case None
    then show ?thesis by (simp add: build_rate_request_body_def b1 b2 build_rate_request_pdu_def Let_def)
  next
    case (Some l)
    have "protocol_only (append_metrics_label_tlv b2 l)"
      by (auto simp: append_metrics_label_tlv_def Let_def slice_def)
    then show ?thesis using Some
      by (cases "append_metrics_label_tlv b2 l")
        (auto simp: build_rate_request_body_def b1 b2 build_rate_request_pdu_def Let_def)
  qed
qed

lemma report_pdu_errors:
  assumes "\<forall>bs. 16 \<le> length (hash bs)" "list_all (\<lambda>r. short_name (lr_latency_tracker_name r)) rs"
  shows "protocol_only (and_then (build_latency_report_body hash rs) (build_pdu PDU_LATENCY_REPORT))"
proof -
  have "list_all (\<lambda>r. \<exists>i. report_id hash r = Ok i) rs"
    using assms(2) by (auto simp: list_all_iff report_id_def short_name_def simp del: content_id.simps
        intro!: content_id_total [OF assms(1)])
  then obtain b where "append_reports hash rs (to_le 2 (of_nat (length rs) :: u16) @ replicate 2 0) = Ok b"
    using report_append.loop_total by blast
  then show ?thesis by (simp add: build_latency_report_body_def build_pdu_def Let_def)
qed

lemma write_header:
  "wf_tenant h \<Longrightarrow> write_tenant_header [] h = (Ok (tenant_wire h) :: (bytes, core_error) res)"
  by (simp add: write_tenant_header_def TENANT_TLV_LEN_def Let_def slice_def write_tenant_wire)

lemma append_auth_total:
  assumes "sound_world w" "length pdu \<le> MAX_PACKET_SIZE"
  shows "\<exists>out. append_auth_tlv (w_seal w) nonce m (cookie_hash_cache m) (aes_key_cache m) packet pdu = Ok out"
proof (cases m)
  case (AesGcm key)
  let ?aad = "packet @ to_le 2 TLV_AUTH_AES @ to_le 2 (32 :: u16)"
  obtain ct where ct: "w_seal w key nonce (?aad @ nonce) pdu = Some ct"
    using assms unfolding sound_world_def by (meson not_None_eq)
  then have "length ct = length pdu + 16" using assms(1) by (auto simp: sound_world_def aead_def)
  then have "encrypt_pdu (w_seal w) nonce pdu key ?aad =
      (Ok (take (length pdu) ct, nonce, drop (length pdu) ct) :: (bytes \<times> bytes \<times> bytes, core_error) res)"
    using ct by (simp add: encrypt_pdu_def sub_n_def slice_from_def slice_def)
  then show ?thesis using AesGcm by (simp add: append_auth_tlv_def Let_def)
qed (simp_all add: append_auth_tlv_def)

text \<open>A packet for \<open>request_id\<close>: the tenant header, then the authenticated PDU.\<close>

definition packet_for :: "'e world \<Rightarrow> core_client \<Rightarrow> bytes \<Rightarrow> bytes \<Rightarrow> bytes \<Rightarrow> bool" where
  "packet_for w cl request_id pdu packet \<longleftrightarrow>
    (\<exists>now frame. let header = build_tenant_header (cc_api_key (cl_config cl)) now request_id in
      wf_tenant header \<and> packet = tenant_wire header @ frame \<and>
      length packet = TENANT_TLV_LEN + auth_header_size (client_auth cl) + length pdu \<and>
      length packet \<le> MAX_PACKET_SIZE \<and>
      auth_frame (w_open w) (client_auth cl) (tenant_wire header) frame pdu)"

lemma frame_packet_cases:
  assumes "sound_world w" "client_inv w cl" "wf_tenant header"
  shows "\<exists>r e'. frame_packet w header pdu (cl, e) = (r, cl, e') \<and> protocol_only r \<and>
    (\<forall>packet. r = Ok packet \<longrightarrow> (\<exists>frame. packet = tenant_wire header @ frame \<and>
      length packet = TENANT_TLV_LEN + auth_header_size (client_auth cl) + length pdu \<and>
      length packet \<le> MAX_PACKET_SIZE \<and>
      auth_frame (w_open w) (client_auth cl) (tenant_wire header) frame pdu))"
proof (cases "MAX_PACKET_SIZE < TENANT_TLV_LEN + auth_header_size (client_auth cl) + length pdu")
  case True
  then show ?thesis by (simp add: frame_packet_def client_auth_def Let_def)
next
  case False
  let ?m = "client_auth cl"
  define nonce where "nonce = (case ?m of AesGcm key \<Rightarrow> fst (w_nonce w e) | _ \<Rightarrow> replicate 12 0)"
  have n: "length nonce = 12" using assms(1) by (simp add: nonce_def sound_world_def split: auth_method.split)
  have caches: "cl_cookie_hash_cache cl = cookie_hash_cache ?m" "cl_aes_key_cache cl = aes_key_cache ?m"
      "credential_shape ?m"
    using assms(2) by (simp_all add: client_inv_def)
  have short: "length pdu \<le> MAX_PACKET_SIZE" using False by simp
  obtain out where out: "append_auth_tlv (w_seal w) nonce ?m (cookie_hash_cache ?m) (aes_key_cache ?m)
      (tenant_wire header) pdu = Ok out"
    using append_auth_total [OF assms(1) short] by blast
  have "aead (w_seal w) (w_open w)" using assms(1) by (simp add: sound_world_def)
  from append_auth_tlv_out [OF this n caches(3) out]
  obtain frame where fr: "out = tenant_wire header @ frame" "length frame = auth_header_size ?m + length pdu"
      "auth_frame (w_open w) ?m (tenant_wire header) frame pdu" by blast
  have any_nonce: "append_auth_tlv (w_seal w) [] ?m c a p pdu = append_auth_tlv (w_seal w) nonce ?m c a p pdu"
    if "\<forall>key. ?m \<noteq> AesGcm key" for c a p
    using that by (cases ?m) (simp_all add: append_auth_tlv_def)
  have "length out = TENANT_TLV_LEN + auth_header_size ?m + length pdu"
    using fr assms(3) tenant_codec.wire_length by (simp add: TENANT_TLV_LEN_def)
  moreover have "\<exists>e'. frame_packet w header pdu (cl, e) = (Ok out, cl, e')"
    using False out any_nonce assms(3)
    by (cases ?m) (auto simp: frame_packet_def client_auth_def [symmetric] Let_def caches nonce_def
        write_header split: prod.splits)
  ultimately show ?thesis using fr False by auto
qed

lemma now_millis_ok:
  assumes "sound_world w"
  shows "\<exists>now e'. now_millis w (cl, e) = (Ok now, cl, e')"
proof -
  obtain ms e1 where t: "w_system_time_ms w e = (ms, e1)" by force
  then have "0 \<le> ms" using assms unfolding sound_world_def by (metis fst_conv)
  then show ?thesis using t by (simp add: now_millis_def)
qed

lemma request_packet_cases:
  assumes "sound_world w" "client_inv w cl" "protocol_only pdu"
  shows "\<exists>r e'. request_packet w pdu (cl, e) = (r, cl, e') \<and> protocol_only r \<and>
    (\<forall>request_id packet. r = Ok (request_id, packet) \<longrightarrow>
      (\<exists>body. pdu = Ok body \<and> packet_for w cl request_id body packet))"
proof -
  obtain i e1 where i: "w_new_uuid w e = (i, e1)" by force
  then have "length i = 16" using assms(1) unfolding sound_world_def by (metis fst_conv)
  then have wf: "wf_tenant (build_tenant_header (cc_api_key (cl_config cl)) now i)" for now
    by (simp add: wf_tenant_def build_tenant_header_def)
  obtain now e2 where n: "now_millis w (cl, e1) = (Ok now, cl, e2)" using now_millis_ok [OF assms(1)] by blast
  show ?thesis
  proof (cases pdu)
    case (Ok body)
    obtain r e3 where r: "frame_packet w (build_tenant_header (cc_api_key (cl_config cl)) now i) body (cl, e2) = (r, cl, e3)"
      "protocol_only r"
      "\<forall>packet. r = Ok packet \<longrightarrow> (\<exists>frame. packet = tenant_wire (build_tenant_header (cc_api_key (cl_config cl)) now i) @ frame \<and>
        length packet = TENANT_TLV_LEN + auth_header_size (client_auth cl) + length body \<and>
        length packet \<le> MAX_PACKET_SIZE \<and>
        auth_frame (w_open w) (client_auth cl) (tenant_wire (build_tenant_header (cc_api_key (cl_config cl)) now i)) frame body)"
      using frame_packet_cases [OF assms(1,2) wf] by blast
    show ?thesis
    proof (cases r)
      case ok: (Ok packet)
      then have "packet_for w cl i body packet"
        using r(3) wf unfolding packet_for_def Let_def by blast
      then show ?thesis using i n r ok Ok by (simp add: request_packet_def)
    qed (use i n r Ok in \<open>simp_all add: request_packet_def\<close>)
  qed (use i n assms(3) in \<open>simp_all add: request_packet_def\<close>)
qed

section \<open>Operations keep the invariant\<close>

text \<open>Everything but the fields an operation may change.\<close>

definition same_client :: "core_client \<Rightarrow> core_client \<Rightarrow> bool" where
  "same_client cl cl' \<longleftrightarrow> cl_config cl' = cl_config cl \<and> cl_limits cl' = cl_limits cl \<and>
    cl_cookie_hash_cache cl' = cl_cookie_hash_cache cl \<and> cl_aes_key_cache cl' = cl_aes_key_cache cl"

lemma same_client_refl [simp]: "same_client cl cl"
  by (simp add: same_client_def)

lemma same_client_trans: "same_client a b \<Longrightarrow> same_client b c \<Longrightarrow> same_client a c"
  by (simp add: same_client_def)

lemma same_client_simps [simp]:
  "same_client cl (cl'\<lparr>cl_discovery := d\<rparr>) = same_client cl cl'"
  "same_client cl (cl'\<lparr>cl_steering := st\<rparr>) = same_client cl cl'"
  "same_client cl (cl'\<lparr>cl_inflight := fl\<rparr>) = same_client cl cl'"
  "same_client cl (note_progress packet p cl') = same_client cl cl'"
  by (simp_all add: same_client_def note_progress_def)

lemma client_inv_updates:
  "client_inv w cl \<Longrightarrow> discovered (w_ip_text w) d \<Longrightarrow> client_inv w (cl\<lparr>cl_discovery := d\<rparr>)"
  "client_inv w cl \<Longrightarrow> bound_sockets st \<Longrightarrow> steering_start_ok st \<Longrightarrow> client_inv w (cl\<lparr>cl_steering := st\<rparr>)"
  "client_inv w (cl\<lparr>cl_inflight := fl\<rparr>) = client_inv w cl"
  "client_inv w (note_progress packet p cl) = client_inv w cl"
  by (simp_all add: client_inv_def client_auth_def note_progress_def)

text \<open>The sends of one operation: every datagram is the one packet, at most 1200 bytes.\<close>

definition sends_bounded :: "core_client \<Rightarrow> core_client \<Rightarrow> bool" where
  "sends_bounded cl cl' \<longleftrightarrow> (\<exists>sends. cl_sent cl' = cl_sent cl @ sends \<and>
    list_all (\<lambda>(n, _, _). n \<le> MAX_PACKET_SIZE) sends)"

lemma note_progress_simps [simp]:
  "cl_inflight (note_progress packet p cl) = cl_inflight cl"
  "cl_discovery (note_progress packet p cl) = cl_discovery cl"
  "cl_config (note_progress packet p cl) = cl_config cl"
  "cl_steering (note_progress packet p cl) = cl_steering cl"
  by (simp_all add: note_progress_def)

lemma sends_bounded_simps [simp]:
  "sends_bounded cl (cl'\<lparr>cl_inflight := fl\<rparr>) = sends_bounded cl cl'"
  "sends_bounded cl (cl'\<lparr>cl_steering := st\<rparr>) = sends_bounded cl cl'"
  by (simp_all add: sends_bounded_def)

lemma refresh_cases_client:
  assumes "client_inv w cl"
  shows "\<exists>r d e'. refresh_if_due w (cl, e) = (r, cl\<lparr>cl_discovery := d\<rparr>, e') \<and> discovered (w_ip_text w) d \<and>
    (r = Ok () \<or> r = Err (CoreDns (Text ''No SRV servers found'')))"
proof -
  obtain r d e' where m: "maybe_periodic_dns_refresh (w_srv_lookup w) (w_lookup_ip w) (w_ip_text w) (w_clock w)
      (service_domain (cc_api_key (cl_config cl))) (cc_dns_refresh_interval_s (cl_config cl)) e (cl_discovery cl) = (r, d, e')"
    by (metis prod_cases3)
  have "discovered (w_ip_text w) (cl_discovery cl)" using assms by (simp add: client_inv_def)
  from periodic_refresh_discovered [OF this m] periodic_refresh_result [OF m] m
  show ?thesis by (intro exI [of _ r] exI [of _ d] exI [of _ e']) (simp add: refresh_if_due_def)
qed

lemma targets_now_ok:
  assumes "sound_world w" "client_inv w cl"
  shows "\<exists>r. targets_now w (cl, e) = (Ok r, cl, e) \<and> (targets r = [] \<longleftrightarrow> servers (cl_discovery cl) = [])"
proof -
  have "discovered (w_ip_text w) (cl_discovery cl)" "\<forall>ip. w_parse_ip w (w_ip_text w ip) = Some ip"
    using assms by (simp_all add: client_inv_def sound_world_def)
  from current_targets_ok [OF this, of "w_lookup_ip w" e] obtain r where
    "current_targets (w_lookup_ip w) (w_parse_ip w) e (cl_discovery cl) = (Ok r, e)"
    "targets r = map (target_of (w_parse_ip w)) (servers (cl_discovery cl))" by (elim exE conjE)
  then show ?thesis by (simp add: targets_now_def)
qed

definition names_short :: "resource_request list \<Rightarrow> latency_guard list \<Rightarrow> bool" where
  "names_short rs gs \<longleftrightarrow> list_all (\<lambda>r. short_name (rr_bucket_name r)) rs \<and>
    list_all (\<lambda>g. short_name (lg_latency_tracker_name g)) gs"

definition dns_or_protocol :: "('a, core_error) res \<Rightarrow> bool" where
  "dns_or_protocol r \<longleftrightarrow> r \<noteq> Panic \<and> (\<forall>error. r = Err error \<longrightarrow> (\<exists>m. error = CoreProtocol m \<or> error = CoreDns m))"

lemma dns_or_protocol_simps [simp]:
  "dns_or_protocol (Ok a)" "\<not> dns_or_protocol Panic"
  "dns_or_protocol (Err error) \<longleftrightarrow> (\<exists>m. error = CoreProtocol m \<or> error = CoreDns m)"
  by (simp_all add: dns_or_protocol_def)

lemma prepare_request_cases:
  assumes "sound_world w" "client_inv w cl" "names_short rs gs"
  shows "\<exists>r d e'. prepare_request w rs gs label (cl, e) = (r, cl\<lparr>cl_discovery := d\<rparr>, e') \<and>
    discovered (w_ip_text w) d \<and> dns_or_protocol r \<and>
    (\<forall>ttl resolved i packet. r = Ok (ttl, resolved, i, packet) \<longrightarrow>
      horizon_ms (effective_request_policy (cl_config cl)) (dedup_ttl_ms_max (cl_limits cl)) = Ok ttl \<and>
      length packet \<le> MAX_PACKET_SIZE \<and>
      (\<exists>pdu. and_then (build_rate_request_body (w_hash w) rs gs label) (build_rate_request_pdu ttl) = Ok pdu \<and>
        packet_for w cl i pdu packet))"
proof -
  obtain ttl where ttl: "horizon_ms (effective_request_policy (cl_config cl)) (dedup_ttl_ms_max (cl_limits cl)) = Ok ttl"
    using assms(2) by (auto simp: client_inv_def)
  obtain r d e1 where rf: "refresh_if_due w (cl, e) = (r, cl\<lparr>cl_discovery := d\<rparr>, e1)" "discovered (w_ip_text w) d"
      "r = Ok () \<or> r = Err (CoreDns (Text ''No SRV servers found''))"
    using refresh_cases_client [OF assms(2), of e] by (elim exE conjE)
  let ?cl = "cl\<lparr>cl_discovery := d\<rparr>"
  have inv: "client_inv w ?cl" using client_inv_updates(1) [OF assms(2) rf(2)] .
  obtain res where t: "targets_now w (?cl, e1) = (Ok res, ?cl, e1)"
    using targets_now_ok [OF assms(1) inv] by blast
  let ?pdu = "and_then (build_rate_request_body (w_hash w) rs gs label) (build_rate_request_pdu ttl)"
  have "protocol_only ?pdu"
    using assms(1,3) by (intro rate_pdu_errors) (simp_all add: sound_world_def names_short_def)
  from request_packet_cases [OF assms(1) inv this] obtain q e2 where
    q: "request_packet w ?pdu (?cl, e1) = (q, ?cl, e2)" "protocol_only q"
      "\<forall>i packet. q = Ok (i, packet) \<longrightarrow> (\<exists>body. ?pdu = Ok body \<and> packet_for w ?cl i body packet)"
    by blast
  have same: "packet_for w ?cl i b p = packet_for w cl i b p" for i b p
    by (simp add: packet_for_def client_auth_def)
  have len: "packet_for w cl i b p \<Longrightarrow> length p \<le> MAX_PACKET_SIZE" for i b p
    by (auto simp: packet_for_def Let_def)
  consider (dns) "r = Err (CoreDns (Text ''No SRV servers found''))" | (none) "r = Ok ()" "targets res = []"
    | (some) "r = Ok ()" "targets res \<noteq> []" using rf(3) by blast
  then show ?thesis
  proof cases
    case some
    show ?thesis
    proof (cases q)
      case (Ok ip)
      obtain i packet where ip: "ip = (i, packet)" by force
      then have "\<exists>body. ?pdu = Ok body \<and> packet_for w cl i body packet" using q(3) Ok same by simp
      moreover have "prepare_request w rs gs label (cl, e) = (Ok (ttl, res, i, packet), ?cl, e2)"
        using some ttl rf(1) t q(1) Ok ip
        by (simp add: prepare_request_def config_error_def effective_request_policy_def)
      ultimately show ?thesis using ttl len rf(2) by auto
    next
      case (Err error)
      then have "prepare_request w rs gs label (cl, e) = (Err error, ?cl, e2)"
        using some ttl rf(1) t q(1) by (simp add: prepare_request_def config_error_def effective_request_policy_def)
      then show ?thesis using q(2) Err rf(2) by auto
    next
      case Panic
      then show ?thesis using q(2) by simp
    qed
  qed (use ttl rf t in \<open>auto simp: prepare_request_def config_error_def effective_request_policy_def\<close>)
qed

text \<open>The errors of a whole check: never a configuration error, and no panic.\<close>

definition check_error :: "('a, core_error) res \<Rightarrow> bool" where
  "check_error r \<longleftrightarrow> r \<noteq> Panic \<and> (\<forall>m. r \<noteq> Err (CoreConfig m))"

lemma check_error_simps [simp]:
  "check_error (Ok a)" "\<not> check_error Panic" "check_error (Err error) \<longleftrightarrow> (\<forall>m. error \<noteq> CoreConfig m)"
  by (simp_all add: check_error_def)

lemma valid_horizon: "horizon_ms p lim = Ok h \<Longrightarrow> valid_policy p \<and> horizon_spec p < 2 ^ 32 \<and> unat h = horizon_spec p"
  by (auto simp: horizon_ms_eq unat_of_nat split: if_splits)

lemma run_request_cases:
  assumes "client_inv w cl" "length packet \<le> MAX_PACKET_SIZE"
    and "run_request w ttl resolved i packet (cl, e) = Some (r, cl', e')"
  shows "check_error r \<and> client_inv w cl' \<and> same_client cl cl' \<and> cl_inflight cl' = cl_inflight cl - {i} \<and>
    cl_discovery cl' = cl_discovery cl \<and> sends_bounded cl cl'"
proof -
  let ?cl = "cl\<lparr>cl_inflight := insert i (cl_inflight cl)\<rparr>"
  let ?policy = "effective_request_policy (cl_config cl)"
  obtain sel p e1 where x: "exchange_request (exchange_of w ?cl i packet resolved) ?policy ttl (progress_of ?cl) e = Some (sel, p, e1)"
    using assms(3) by (auto simp: run_request_def Let_def split: option.splits)
  have fresh: "seen_server_ids (progress_of ?cl) = {}" "seen_addrs (progress_of ?cl) = {}"
    by (simp_all add: progress_of_def)
  have valid: "valid_schedule (replay_gap ?policy)"
    using assms(1) valid_horizon by (auto simp: client_inv_def valid_policy_def)
  let ?cl1 = "note_progress packet p ?cl"
  have bounded: "sends_bounded cl ?cl1"
    using assms(2) by (auto simp: sends_bounded_def note_progress_def list_all_iff)
  have inv: "client_inv w ?cl1" using assms(1) by (simp add: client_inv_updates)
  have same: "same_client cl ?cl1" by simp
  show ?thesis
  proof (cases sel)
    case (Err error)
    have "error = CoreTimeout \<or> (\<exists>io. error = CoreIo io)"
      using exchange_errors [OF valid x [unfolded Err]] .
    moreover have "r = Err error" "cl' = ?cl1\<lparr>cl_inflight := cl_inflight ?cl1 - {i}\<rparr>"
      using assms(3) x Err by (simp_all add: run_request_def Let_def)
    ultimately show ?thesis using inv bounded same
      by (auto simp: client_inv_updates)
  next
    case Panic
    then show ?thesis using exchange_request_selection [OF x fresh] by simp
  next
    case (Ok result)
    let ?cfg = "cl_config cl"
    obtain r2 st e2 where st: "apply_steering_feedback (w_os w) (w_router_alive w)
        (ac_steering_feedback (cc_api_key ?cfg)) (cc_ignore_steering_feedback ?cfg) result (cl_steering cl) e1 = (r2, st, e2)"
      by (metis prod_cases3)
    have ok: "bound_sockets (cl_steering cl)" "steering_start_ok (cl_steering cl)"
      using assms(1) by (simp_all add: client_inv_def)
    have st_ok: "r2 \<noteq> Panic" "bound_sockets st" "steering_start_ok st"
      using apply_steering_cases [OF ok, where os = "w_os w" and alive = "w_router_alive w" and
          enabled = "ac_steering_feedback (cc_api_key ?cfg)" and ignored = "cc_ignore_steering_feedback ?cfg"
          and result = result and ?o1.0 = e1, unfolded st prod.case] ok
      by (auto split: if_splits)
    have io: "io_only r2" using apply_steering_io st by (metis fst_conv)
    have "r = and_then r2 (\<lambda>_. Ok result)"
        "cl' = ?cl1\<lparr>cl_steering := st\<rparr>\<lparr>cl_inflight := cl_inflight ?cl1 - {i}\<rparr>"
      using assms(3) x Ok st by (simp_all add: run_request_def Let_def)
    then show ?thesis using inv bounded same st_ok io
      by (cases r2) (auto simp: client_inv_updates)
  qed
qed

lemma check_rate_limit_cases:
  assumes "sound_world w" "client_inv w cl" "names_short rs gs"
    and "check_rate_limit w rs gs label (cl, e) = Some (r, cl', e')"
  shows "check_error r \<and> client_inv w cl' \<and> same_client cl cl' \<and> cl_inflight cl' \<subseteq> cl_inflight cl \<and>
    sends_bounded cl cl'"
proof -
  let ?v = "validate_rate_windows_against_quota rs (Some (rate_window_size_ms_max (cl_limits cl)))"
  have none: "sends_bounded cl (cl\<lparr>cl_discovery := d\<rparr>)" "sends_bounded cl cl" for d
    by (simp_all add: sends_bounded_def)
  obtain q d e1 where p: "prepare_request w rs gs label (cl, e) = (q, cl\<lparr>cl_discovery := d\<rparr>, e1)"
      "discovered (w_ip_text w) d" "dns_or_protocol q"
      "\<forall>ttl resolved i packet. q = Ok (ttl, resolved, i, packet) \<longrightarrow>
        horizon_ms (effective_request_policy (cl_config cl)) (dedup_ttl_ms_max (cl_limits cl)) = Ok ttl \<and>
        length packet \<le> MAX_PACKET_SIZE \<and>
        (\<exists>pdu. and_then (build_rate_request_body (w_hash w) rs gs label) (build_rate_request_pdu ttl) = Ok pdu \<and>
          packet_for w cl i pdu packet)"
    using prepare_request_cases [OF assms(1-3), of label e] by (elim exE conjE)
  have inv: "client_inv w (cl\<lparr>cl_discovery := d\<rparr>)" using client_inv_updates(1) [OF assms(2) p(2)] .
  have v: "?v = Ok () \<or> (\<exists>m. ?v = Err (CoreProtocol m))"
    by (auto simp: validate_rate_windows_against_quota_def split: option.splits)
  show ?thesis
  proof (cases "?v = Ok () \<and> (rs \<noteq> [] \<or> gs \<noteq> [])")
    case False
    then show ?thesis using v assms(2,4) none by (auto simp: check_rate_limit_def)
  next
    case True
    show ?thesis
    proof (cases q)
      case (Ok y)
      obtain ttl resolved i packet where y: "y = (ttl, resolved, i, packet)" by (metis prod_cases4)
      have "run_request w ttl resolved i packet (cl\<lparr>cl_discovery := d\<rparr>, e1) = Some (r, cl', e')"
        using assms(4) True p(1) Ok y by (auto simp: check_rate_limit_def)
      from run_request_cases [OF inv _ this] show ?thesis
        using p(4) Ok y by (auto simp: same_client_def sends_bounded_def)
    next
      case (Err error)
      then have "r = Err error" "cl' = cl\<lparr>cl_discovery := d\<rparr>"
        using assms(4) True p(1) by (auto simp: check_rate_limit_def)
      then show ?thesis using p(3) Err inv none by auto
    next
      case Panic
      then show ?thesis using p(3) by simp
    qed
  qed
qed

section \<open>The report fan-out\<close>

lemma report_loop_eq:
  assumes "seen_server_ids p = {}" "seen_addrs p = {}"
  shows "send_loop x ts c p e = (c', p', e') \<Longrightarrow>
    report_loop x ts (c\<lparr>attempted := a\<rparr>) p e = (c'\<lparr>attempted := a\<rparr>, p', e') \<and> attempted c' = attempted c + length ts"
  using assms
proof (induction ts arbitrary: c p e)
  case (Cons t ts)
  have no: "\<not> responded (ex_resolved x) p t"
    using Cons.prems(2,3) by (simp add: responded_def split: option.splits)
  obtain r p1 e1 where s: "send_datagram x (ex_packet x) t p e = (r, p1, e1)" by (metis prod_cases3)
  have seen: "seen_server_ids p1 = {}" "seen_addrs p1 = {}"
    using s Cons.prems(2,3) by (auto simp: send_datagram_def Let_def split: prod.splits)
  define c1 where "c1 = (case r of
        Err error \<Rightarrow> c\<lparr>attempted := attempted c + 1,
            failed_server_ids := failed_server_ids c @
                (case target_server_ids (ex_resolved x) t of Some i \<Rightarrow> [i] | None \<Rightarrow> []),
            last_error := Some error\<rparr>
      | _ \<Rightarrow> c\<lparr>attempted := attempted c + 1, delivered := delivered c + 1\<rparr>)"
  have "send_loop x ts c1 p1 e1 = (c', p', e')"
    using Cons.prems(1) no s by (cases r) (simp_all add: c1_def Let_def)
  from Cons.IH [OF this seen] s show ?case by (cases r; cases c; cases c') (simp_all add: c1_def)
qed simp

text \<open>
  A latency report goes out exactly as the first round of a request does, to every
  target once, with the same error when nothing went out and the same counts of failures.
\<close>

lemma report_fan_out:
  assumes "seen_server_ids p = {}" "seen_addrs p = {}"
  shows "report_to_all x p e = send_to_missing x p e"
proof -
  obtain c p1 e1 where l: "send_loop x (targets (ex_resolved x)) no_sends p e = (c, p1, e1)" by (metis prod_cases3)
  have "no_sends\<lparr>attempted := 0\<rparr> = no_sends" by (simp add: no_sends_def)
  then have r: "report_loop x (targets (ex_resolved x)) no_sends p e = (c\<lparr>attempted := 0\<rparr>, p1, e1)"
      "attempted c = length (targets (ex_resolved x))"
    using report_loop_eq [OF assms l, of 0] by (simp_all add: no_sends_def)
  show ?thesis by (simp add: report_to_all_def send_to_missing_def l r Let_def)
qed

section \<open>Reachable clients\<close>

text \<open>The clients that construction, checks and reports lead to, in any order.\<close>

inductive client_reachable :: "'e world \<Rightarrow> core_client \<Rightarrow> bool" for w where
  created: "\<lbrakk>core_client_new w cfg e = (Ok cl, e'); credential_shape (ac_auth_method (cc_api_key cfg))\<rbrakk>
    \<Longrightarrow> client_reachable w cl"
| checked: "\<lbrakk>client_reachable w cl; names_short rs gs; check_rate_limit w rs gs label (cl, e) = Some (r, cl', e')\<rbrakk>
    \<Longrightarrow> client_reachable w cl'"
| reported: "\<lbrakk>client_reachable w cl; list_all (\<lambda>r. short_name (lr_latency_tracker_name r)) reports;
     report_latency w reports (cl, e) = (r, cl', e')\<rbrakk> \<Longrightarrow> client_reachable w cl'"

lemma core_client_new_inv:
  assumes "core_client_new w cfg e = (Ok cl, e')" "credential_shape (ac_auth_method (cc_api_key cfg))"
  shows "client_inv w cl \<and> cl_config cl = cfg \<and> cl_inflight cl = {} \<and> cl_limits cl = ac_limits (cc_api_key cfg)"
proof -
  obtain r e1 where b: "bind_sockets (w_os w) 0 e = (r, e1)"
      "(\<exists>fs. r = Ok fs \<and> sockets_on 0 fs) \<or> (\<exists>error. r = Err error)"
    using bind_sockets_cases [of "w_os w" 0 e] by (elim exE conjE)
  from assms(1) b obtain fs where fs: "r = Ok fs" "sockets_on 0 fs" by (auto simp: core_client_new_def)
  have res: "build_resolver (w_resolver w) (cc_dns_server cfg) = Ok ()"
    using assms(1) b(1) fs(1)
    by (cases rule: build_resolver_cases [of "w_resolver w" "cc_dns_server cfg"]) (simp_all add: core_client_new_def)
  let ?h = "horizon_ms (effective_request_policy cfg) (dedup_ttl_ms_max (ac_limits (cc_api_key cfg)))"
  from assms(1) b(1) fs(1) obtain h where h: "?h = Ok h"
    by (cases ?h) (auto simp: core_client_new_def config_error_def Let_def res)
  obtain instant e2 where i: "initial_last_dns_refresh w (cc_dns_refresh_interval_s cfg) e1 = (instant, e2)" by force
  have "cl = \<lparr>cl_config = cfg,
            cl_steering = \<lparr>sockets = fs, socket_epoch = 0, steer_stats = default_steering_stats\<rparr>,
            cl_inflight = {}, cl_discovery = \<lparr>servers = [], last_dns_refresh = instant\<rparr>,
            cl_server_stats = Map.empty, cl_limits = ac_limits (cc_api_key cfg),
            cl_cookie_hash_cache = cookie_hash_cache (ac_auth_method (cc_api_key cfg)),
            cl_aes_key_cache = aes_key_cache (ac_auth_method (cc_api_key cfg)), cl_sent = []\<rparr>"
    using assms(1) b(1) fs(1) h i by (auto simp: core_client_new_def config_error_def Let_def res)
  then show ?thesis using assms(2) fs(2) h
    by (simp add: client_inv_def bound_sockets_def steering_start_ok_def sockets_on_def discovered_def
        default_steering_stats_def client_auth_def)
qed

lemma report_latency_cases:
  assumes "sound_world w" "client_inv w cl" "list_all (\<lambda>r. short_name (lr_latency_tracker_name r)) reports"
    and "report_latency w reports (cl, e) = (r, cl', e')"
  shows "check_error r \<and> client_inv w cl' \<and> same_client cl cl' \<and> cl_inflight cl' = cl_inflight cl \<and> sends_bounded cl cl'"
proof (cases "reports = []")
  case True
  then show ?thesis using assms by (auto simp: report_latency_def sends_bounded_def)
next
  case False
  obtain q d e1 where rf: "refresh_if_due w (cl, e) = (q, cl\<lparr>cl_discovery := d\<rparr>, e1)" "discovered (w_ip_text w) d"
      "q = Ok () \<or> q = Err (CoreDns (Text ''No SRV servers found''))"
    using refresh_cases_client [OF assms(2), of e] by (elim exE conjE)
  let ?cl = "cl\<lparr>cl_discovery := d\<rparr>"
  have inv: "client_inv w ?cl" using client_inv_updates(1) [OF assms(2) rf(2)] .
  let ?pdu = "and_then (build_latency_report_body (w_hash w) reports) (build_pdu PDU_LATENCY_REPORT)"
  have "protocol_only ?pdu"
    using assms(1,3) by (intro report_pdu_errors) (simp_all add: sound_world_def)
  from request_packet_cases [OF assms(1) inv this] obtain k e2 where
    k: "request_packet w ?pdu (?cl, e1) = (k, ?cl, e2)" "protocol_only k"
      "\<forall>i packet. k = Ok (i, packet) \<longrightarrow> (\<exists>body. ?pdu = Ok body \<and> packet_for w ?cl i body packet)"
    by blast
  show ?thesis
  proof (cases q)
    case (Err error)
    then show ?thesis using assms(4) False rf inv by (auto simp: report_latency_def sends_bounded_def)
  next
    case (Ok u)
    show ?thesis
    proof (cases k)
      case (Err error)
      then show ?thesis using assms(4) False rf(1) k(1,2) Ok inv
        by (auto simp: report_latency_def sends_bounded_def)
    next
      case ok: (Ok ip)
      obtain i packet where ip: "ip = (i, packet)" by force
      then have len: "length packet \<le> MAX_PACKET_SIZE"
        using k(3) ok by (auto simp: packet_for_def Let_def)
      obtain res where t: "targets_now w (?cl, e2) = (Ok res, ?cl, e2)"
        using targets_now_ok [OF assms(1) inv] by blast
      let ?x = "exchange_of w ?cl i packet res"
      obtain rs r1 p e3 where s: "send_to_missing ?x (progress_of ?cl) e2 = (r1, p, e3)"
          "r1 = (if rs \<noteq> [] \<and> length (failures rs) = length rs then Err (CoreIo (last (failures rs))) else Ok ())"
        using send_to_missing_cases [of ?x "progress_of ?cl" e2] by (elim exE conjE)
      have "report_to_all ?x (progress_of ?cl) e2 = (r1, p, e3)"
        using report_fan_out [of "progress_of ?cl" ?x e2] s(1) by (simp add: progress_of_def)
      then have "r = r1" "cl' = note_progress packet p ?cl"
        using assms(4) False rf(1) k(1) Ok ok ip t by (simp_all add: report_latency_def)
      moreover have "sends_bounded cl (note_progress packet p ?cl)"
        using len by (auto simp: sends_bounded_def note_progress_def list_all_iff)
      ultimately show ?thesis using s(2) inv by (simp add: client_inv_updates split: if_splits)
    qed (use k(2) in simp)
  qed (use rf(3) in simp)
qed

lemma client_reachable_inv:
  assumes "sound_world w"
  shows "client_reachable w cl \<Longrightarrow> client_inv w cl"
proof (induction rule: client_reachable.induct)
  case (created cfg e cl e')
  show ?case using core_client_new_inv [OF created] by simp
next
  case (checked cl rs gs label e r cl' e')
  show ?case using check_rate_limit_cases [OF assms checked(4,2,3)] by simp
next
  case (reported cl reports e r cl' e')
  show ?case using report_latency_cases [OF assms reported(4,2,3)] by simp
qed

section \<open>Whole operations\<close>

definition punctual_world :: "'e world \<Rightarrow> ('e \<Rightarrow> nat) \<Rightarrow> ('e \<Rightarrow> nat) \<Rightarrow> bool" where
  "punctual_world w time waiting \<longleftrightarrow>
    (\<forall>cl i packet resolved. punctual (exchange_of w cl i packet resolved) time waiting)"

lemma check_rate_limit_total:
  assumes "sound_world w" "client_inv w cl" "names_short rs gs" "punctual_world w time waiting"
  shows "\<exists>out. check_rate_limit w rs gs label (cl, e) = Some out"
proof -
  obtain q d e1 where p: "prepare_request w rs gs label (cl, e) = (q, cl\<lparr>cl_discovery := d\<rparr>, e1)"
      "discovered (w_ip_text w) d"
    using prepare_request_cases [OF assms(1-3), of label e] by (elim exE conjE)
  let ?cl = "cl\<lparr>cl_discovery := d\<rparr>"
  have inv: "client_inv w ?cl" using client_inv_updates(1) [OF assms(2) p(2)] .
  have run: "\<exists>out. run_request w ttl resolved i packet (?cl, e1) = Some out" for ttl resolved i packet
  proof -
    let ?cl1 = "?cl\<lparr>cl_inflight := insert i (cl_inflight ?cl)\<rparr>"
    let ?x = "exchange_of w ?cl1 i packet resolved"
    have "punctual ?x time waiting" using assms(4) by (simp add: punctual_world_def)
    moreover have "valid_policy (effective_request_policy (cl_config ?cl))"
        "horizon_spec (effective_request_policy (cl_config ?cl)) < 2 ^ 32"
      using inv valid_horizon by (auto simp: client_inv_def)
    ultimately obtain sel p e2 where "exchange_request ?x (effective_request_policy (cl_config ?cl)) ttl
        (progress_of ?cl1) e1 = Some (sel, p, e2)"
      using exchange_total [of ?x time waiting "effective_request_policy (cl_config ?cl)" ttl "progress_of ?cl1" e1] by blast
    then show ?thesis by (cases sel) (simp_all add: run_request_def Let_def split: prod.splits)
  qed
  show ?thesis using p(1) run
    by (cases q) (auto simp: check_rate_limit_def split: res.splits)
qed

text \<open>
  C3: whatever a client has done before, a check of a rate limit returns, by the clock of
  a punctual network; it never panics and never finds a configuration error; it leaves no
  registration behind, sends only packets of at most 1200 bytes, and keeps the invariant
  that the next operation relies on.
\<close>

theorem check_rate_limit_safe:
  assumes "sound_world w" "client_reachable w cl" "names_short rs gs" "punctual_world w time waiting"
  shows "\<exists>r cl' e'. check_rate_limit w rs gs label (cl, e) = Some (r, cl', e') \<and>
    r \<noteq> Panic \<and> (\<forall>m. r \<noteq> Err (CoreConfig m)) \<and> cl_inflight cl' \<subseteq> cl_inflight cl \<and>
    sends_bounded cl cl' \<and> client_inv w cl'"
proof -
  have inv: "client_inv w cl" by (rule client_reachable_inv [OF assms(1,2)])
  obtain r cl' e' where c: "check_rate_limit w rs gs label (cl, e) = Some (r, cl', e')"
    using check_rate_limit_total [OF assms(1) inv assms(3,4), of label e] by auto
  from check_rate_limit_cases [OF assms(1) inv assms(3) c] show ?thesis
    using c by (auto simp: check_error_def)
qed

text \<open>
  C16: the packet of a request carries its identifier where the router looks for it, so
  that an answer that repeats the header comes back to this request; it carries the
  PDU of the request under the client's credential, states the horizon of the request
  policy as its deduplication time, and fits the size limit.
\<close>

theorem request_packet_identified:
  assumes "sound_world w" "client_reachable w cl" "names_short rs gs"
    and "prepare_request w rs gs label (cl, e) = (Ok (ttl, resolved, request_id, packet), cl', e')"
  shows "names_request packet request_id \<and> length packet \<le> MAX_PACKET_SIZE \<and>
    unat ttl = horizon_spec (effective_request_policy (cl_config cl)) \<and>
    (\<exists>header frame pdu. packet = tenant_wire header @ frame \<and>
      auth_frame (w_open w) (client_auth cl) (tenant_wire header) frame pdu \<and>
      and_then (build_rate_request_body (w_hash w) rs gs label) (build_rate_request_pdu ttl) = Ok pdu)"
proof -
  have inv: "client_inv w cl" by (rule client_reachable_inv [OF assms(1,2)])
  obtain d where p: "horizon_ms (effective_request_policy (cl_config cl)) (dedup_ttl_ms_max (cl_limits cl)) = Ok ttl"
      "length packet \<le> MAX_PACKET_SIZE"
      "\<exists>pdu. and_then (build_rate_request_body (w_hash w) rs gs label) (build_rate_request_pdu ttl) = Ok pdu \<and>
        packet_for w cl request_id pdu packet"
    using prepare_request_cases [OF assms(1) inv assms(3), of label e] assms(4) by auto
  from p(3) obtain pdu now frame where k:
      "and_then (build_rate_request_body (w_hash w) rs gs label) (build_rate_request_pdu ttl) = Ok pdu"
      "wf_tenant (build_tenant_header (cc_api_key (cl_config cl)) now request_id)"
      "packet = tenant_wire (build_tenant_header (cc_api_key (cl_config cl)) now request_id) @ frame"
      "auth_frame (w_open w) (client_auth cl) (tenant_wire (build_tenant_header (cc_api_key (cl_config cl)) now request_id)) frame pdu"
    unfolding packet_for_def Let_def by blast
  have "tenant_shape (build_tenant_header (cc_api_key (cl_config cl)) now request_id) []"
    using k(2) by (simp add: tenant_shape_def build_tenant_header_def TENANT_TLV_LEN_def)
  from parse_tenant_complete [OF this, of frame] have "names_request packet request_id"
    unfolding k(3) by (auto simp: names_request_def build_tenant_header_def)
  then show ?thesis using k p valid_horizon by blast
qed

section \<open>A small world\<close>

definition plain_resolver :: resolver_package where
  "plain_resolver = \<lparr>udp_and_tcp = (\<lambda>ip. \<lparr>ns_ip = ip, ns_connections = [\<lparr>conn_protocol = ''udp'', conn_port = 53\<rparr>,
       \<lparr>conn_protocol = ''tcp'', conn_port = 53\<rparr>]\<rparr>),
     config_resolver = (\<lambda>_. Inr ()), system_resolver = Inr ()\<rparr>"

lemma plain_resolver_builds [simp]: "build_resolver plain_resolver d = Ok ()"
  by (simp add: build_resolver_def plain_resolver_def split: option.splits)

definition sample_world :: "(nat \<times> response_packet list) world" where
  "sample_world = \<lparr>w_clock = (\<lambda>e. (fst e, e)), w_system_time_ms = (\<lambda>e. (1735689600000, e)),
     w_new_uuid = (\<lambda>e. (replicate 16 9, e)), w_nonce = (\<lambda>e. (replicate 12 1, e)),
     w_resolver = plain_resolver, w_srv_lookup = (\<lambda>e _. (Inr [Srv ''s-3.x'' 100], e)),
     w_lookup_ip = (\<lambda>e _. (Inr [IpV4 7], e)), w_ip_text = plain_ip_text, w_parse_ip = plain_parse_ip,
     w_receive = (\<lambda>i t e. case snd e of [] \<Rightarrow> (None, (fst e + t, [])) | k # ks \<Rightarrow> (Some k, (fst e, ks))),
     w_transmit = (\<lambda>s b a e. (Ok (length b), e)), w_hash = (\<lambda>_. replicate 32 7),
     w_seal = toy_seal, w_open = toy_open, w_os = (\<lambda>e call. (Inr (SocketV4 0 5000), e)), w_router_alive = True\<rparr>"

definition sample_config :: core_config where
  "sample_config = \<lparr>cc_api_key = \<lparr>service_domain = ''x'', ac_key_id = 5, ac_auth_method = AuthNone,
       ac_limits = \<lparr>rate_buckets_max = 1, latency_services_max = 1, metrics_labels_max = 1,
         latency_buffer_size_max = 1, dedup_ttl_ms_max = 1000, rate_window_size_ms_max = 1000\<rparr>,
       ac_steering_feedback = True\<rparr>,
     cc_dns_refresh_interval_s = 60, cc_ignore_steering_feedback = False,
     cc_request_policy = default_policy, cc_dns_server = None\<rparr>"

lemma sample_world_sound: "sound_world sample_world"
  using toy_aead by (simp add: sound_world_def sample_world_def plain_parse_ip_text toy_seal_def)

lemma sample_world_punctual: "punctual_world sample_world fst (\<lambda>e. length (snd e))"
  by (auto simp: punctual_world_def punctual_def exchange_of_def sample_world_def split: list.splits)

lemma default_horizon: "horizon_ms default_policy 1000 = Ok 60"
proof -
  have "valid_policy default_policy" "horizon_spec default_policy = 60"
    by (simp_all add: valid_policy_def default_policy_def fixed_def valid_schedule_def MAX_REPLAY_COUNT_def
        horizon_spec_def horizon_units_def gap_def)
  then show ?thesis by (simp add: horizon_ms_eq)
qed

lemma sample_client_exists: "\<exists>cl e'. core_client_new sample_world sample_config e = (Ok cl, e')"
proof -
  have "bind_sockets (w_os sample_world) 0 e = (Ok \<lparr>fs_v4 = Some \<lparr>sock_ipv6 = False, sock_port = 0\<rparr>,
      fs_v6 = Some \<lparr>sock_ipv6 = True, sock_port = 0\<rparr>, fs_v6_first = False\<rparr>, e)" for e
    by (simp add: sample_world_def bind_sockets_def bind_udp_socket_for_family_def is_addr_in_use_def Let_def)
  moreover have "build_resolver (w_resolver sample_world) d = Ok ()" for d by (simp add: sample_world_def)
  moreover have "effective_request_policy sample_config = default_policy"
      "dedup_ttl_ms_max (ac_limits (cc_api_key sample_config)) = 1000"
    by (simp_all add: sample_config_def effective_request_policy_def)
  ultimately show ?thesis
    by (simp add: core_client_new_def default_horizon config_error_def Let_def split: prod.splits)
qed

lemma sample_client_reachable: "\<exists>cl. client_reachable sample_world cl"
  using sample_client_exists [of "(0, [])"] client_reachable.created [of sample_world sample_config "(0, [])"]
  by (auto simp: sample_config_def credential_shape_def)

theorem check_rate_limit_safe_witness:
  "\<exists>cl r cl' e'. client_reachable sample_world cl \<and>
    check_rate_limit sample_world [sample_resource] [] None (cl, (0, [])) = Some (r, cl', e') \<and> r \<noteq> Panic"
proof -
  obtain cl where cl: "client_reachable sample_world cl" using sample_client_reachable by blast
  have "names_short [sample_resource] []"
    by (simp add: names_short_def short_name_def sample_resource_def)
  from check_rate_limit_safe [OF sample_world_sound cl this sample_world_punctual, of None "(0, [])"] cl
  show ?thesis by blast
qed

text \<open>A client made a hundred seconds after the clock's origin, and its first request.\<close>

definition sample_client :: core_client where
  "sample_client = \<lparr>cl_config = sample_config,
     cl_steering = \<lparr>sockets = \<lparr>fs_v4 = Some \<lparr>sock_ipv6 = False, sock_port = 0\<rparr>,
         fs_v6 = Some \<lparr>sock_ipv6 = True, sock_port = 0\<rparr>, fs_v6_first = False\<rparr>,
       socket_epoch = 0, steer_stats = default_steering_stats\<rparr>,
     cl_inflight = {}, cl_discovery = \<lparr>servers = [], last_dns_refresh = 39000000000\<rparr>,
     cl_server_stats = Map.empty, cl_limits = ac_limits (cc_api_key sample_config),
     cl_cookie_hash_cache = None, cl_aes_key_cache = None, cl_sent = []\<rparr>"

definition sample_time :: "nat \<times> response_packet list" where
  "sample_time = (100000000000, [])"

lemma sample_client_new: "core_client_new sample_world sample_config sample_time = (Ok sample_client, sample_time)"
proof -
  have "bind_sockets (w_os sample_world) 0 e = (Ok \<lparr>fs_v4 = Some \<lparr>sock_ipv6 = False, sock_port = 0\<rparr>,
      fs_v6 = Some \<lparr>sock_ipv6 = True, sock_port = 0\<rparr>, fs_v6_first = False\<rparr>, e)" for e
    by (simp add: sample_world_def bind_sockets_def bind_udp_socket_for_family_def is_addr_in_use_def Let_def)
  moreover have "build_resolver (w_resolver sample_world) d = Ok ()" for d by (simp add: sample_world_def)
  moreover have "effective_request_policy sample_config = default_policy"
      "dedup_ttl_ms_max (ac_limits (cc_api_key sample_config)) = 1000"
      "ac_auth_method (cc_api_key sample_config) = AuthNone" "cc_dns_refresh_interval_s sample_config = 60"
    by (simp_all add: sample_config_def effective_request_policy_def)
  moreover have "initial_last_dns_refresh sample_world 60 sample_time = (39000000000, sample_time)"
    by (simp add: initial_last_dns_refresh_def sample_world_def sample_time_def saturating_add_def)
  ultimately show ?thesis
    by (simp add: core_client_new_def default_horizon config_error_def sample_client_def Let_def)
qed

definition sample_endpoint :: server_endpoint where
  "sample_endpoint = \<lparr>se_host = plain_ip_text (IpV4 7), se_port = 100, se_server_id = Some 3\<rparr>"

text \<open>The same client with the server found, and the targets of its requests.\<close>

definition sample_found :: core_client where
  "sample_found = sample_client\<lparr>cl_discovery := \<lparr>servers = [sample_endpoint], last_dns_refresh = 100000000000\<rparr>\<rparr>"

definition sample_resolved :: resolved_targets where
  "sample_resolved = \<lparr>targets = [SocketV4 7 100], target_server_ids = [SocketV4 7 100 \<mapsto> 3], allowed_server_ids = [3]\<rparr>"

lemma sample_refresh:
  "refresh_if_due sample_world (sample_client, (100000000000, ks)) = (Ok (), sample_found, (100000000000, ks))"
proof -
  have "parse_server_id_from_target ''s-3.x'' = Some 3" by code_simp
  then show ?thesis
    by (simp add: refresh_if_due_def maybe_periodic_dns_refresh_def refresh_servers_def elapsed_secs_def
        sample_world_def sample_client_def sample_config_def sample_found_def sample_endpoint_def endpoint_of_def
        del: plain_ip_text.simps)
qed

lemma sample_targets_now: "targets_now sample_world (sample_found, e) = (Ok sample_resolved, sample_found, e)"
  by (simp add: targets_now_def current_targets_def sample_world_def sample_found_def sample_endpoint_def
      plain_parse_ip_text no_targets_def add_target_def Let_def sample_resolved_def set_insert_def
      del: plain_ip_text.simps)

lemma sample_pdu:
  "\<exists>pdu. and_then (build_rate_request_body (w_hash sample_world) [sample_resource] [] None)
      (build_rate_request_pdu 60) = Ok pdu \<and> length pdu = 40"
proof -
  have r: "resource_id (\<lambda>x. replicate 32 7) sample_resource = Ok (replicate 16 7)"
    by (simp add: resource_id_def sample_resource_def derive_bucket_id_bytes_def derive_content_id_def slice_def)
  have wf: "wf_resource (resource_block_of (replicate 16 7) sample_resource)"
    by (simp add: wf_resource_def resource_block_of_def)
  have h: "w_hash sample_world = (\<lambda>x. replicate 32 7)" by (simp add: sample_world_def)
  have "build_rate_request_body (w_hash sample_world) [sample_resource] [] None =
      Ok (to_le 2 (0 :: u16) @ to_le 2 (1 :: u16) @ resource_wire (resource_block_of (replicate 16 7) sample_resource))"
    unfolding h using r wf
    by (simp add: build_rate_request_body_def Let_def resource_append.loop_Cons
        resource_codec.append_block_wire del: append_resources.simps(2))
  then show ?thesis using resource_codec.wire_length [OF wf]
    by (simp add: build_rate_request_pdu_def PDU_HEADER_LEN_def Let_def)
qed

lemma sample_client_world: "client_reachable sample_world sample_client"
  using client_reachable.created [OF sample_client_new] by (simp add: sample_config_def credential_shape_def)

lemma sample_prepare:
  "\<exists>packet. prepare_request sample_world [sample_resource] [] None (sample_client, (100000000000, ks)) =
    (Ok (60, sample_resolved, replicate 16 9, packet), sample_found, (100000000000, ks))"
proof -
  let ?e = "(100000000000, ks) :: nat \<times> response_packet list"
  obtain pdu where p: "and_then (build_rate_request_body (w_hash sample_world) [sample_resource] [] None)
      (build_rate_request_pdu 60) = Ok pdu" "length pdu = 40"
    using sample_pdu by blast
  have pol: "effective_request_policy (cl_config sample_client) = default_policy"
      "dedup_ttl_ms_max (cl_limits sample_client) = 1000"
      "ac_auth_method (cc_api_key (cl_config sample_found)) = AuthNone"
    by (simp_all add: sample_client_def sample_config_def effective_request_policy_def sample_found_def)
  let ?h = "build_tenant_header (cc_api_key (cl_config sample_found)) 1735689600000 (replicate 16 9)"
  have "wf_tenant ?h" by (simp add: wf_tenant_def build_tenant_header_def)
  then obtain packet where f: "frame_packet sample_world ?h pdu (sample_found, ?e) = (Ok packet, sample_found, ?e)"
    using p(2) pol(3)
    by (simp add: frame_packet_def TENANT_TLV_LEN_def MAX_PACKET_SIZE_def write_header append_auth_tlv_def Let_def)
  have "w_new_uuid sample_world ?e = (replicate 16 9, ?e)"
      "now_millis sample_world (sample_found, ?e) = (Ok 1735689600000, sample_found, ?e)"
    by (simp_all add: sample_world_def now_millis_def)
  then have "request_packet sample_world (Ok pdu) (sample_found, ?e) = (Ok (replicate 16 9, packet), sample_found, ?e)"
    using f by (simp add: request_packet_def)
  then show ?thesis
    using sample_refresh [of ks] sample_targets_now [of ?e] p(1) pol(1,2)
    by (simp add: prepare_request_def default_horizon config_error_def sample_resolved_def)
qed

theorem request_packet_identified_witness:
  "\<exists>ttl resolved request_id packet cl' e'.
    prepare_request sample_world [sample_resource] [] None (sample_client, sample_time) =
      (Ok (ttl, resolved, request_id, packet), cl', e') \<and> unat ttl = 60 \<and> names_request packet (replicate 16 9)"
proof -
  have names: "names_short [sample_resource] []"
    by (simp add: names_short_def short_name_def sample_resource_def)
  obtain packet where run: "prepare_request sample_world [sample_resource] [] None (sample_client, sample_time) =
      (Ok (60, sample_resolved, replicate 16 9, packet), sample_found, sample_time)"
    using sample_prepare [of "[]"] unfolding sample_time_def by blast
  show ?thesis
    using request_packet_identified [OF sample_world_sound sample_client_world names run] run by auto
qed

section \<open>A client made within the first minute\<close>

text \<open>
  Where the instant before the refresh interval cannot be represented, construction
  stamps the empty list as fresh: until the interval has passed, a check fails although
  discovery would succeed, and a report is sent to nobody and succeeds.
\<close>

definition early_time :: "nat \<times> response_packet list" where
  "early_time = (1000000000, [])"

definition early_client :: core_client where
  "early_client = sample_client\<lparr>cl_discovery := \<lparr>servers = [], last_dns_refresh = 1000000000\<rparr>\<rparr>"

definition sample_report :: service_latency_report where
  "sample_report = \<lparr>lr_latency_tracker_name = ''db'', lr_observed_latency = 5, lr_ttl_ms = 5000,
     lr_max_samples = 10, lr_min_sample_threshold = 2\<rparr>"

lemma early_client_new: "core_client_new sample_world sample_config early_time = (Ok early_client, early_time)"
proof -
  have "bind_sockets (w_os sample_world) 0 e = (Ok \<lparr>fs_v4 = Some \<lparr>sock_ipv6 = False, sock_port = 0\<rparr>,
      fs_v6 = Some \<lparr>sock_ipv6 = True, sock_port = 0\<rparr>, fs_v6_first = False\<rparr>, e)" for e
    by (simp add: sample_world_def bind_sockets_def bind_udp_socket_for_family_def is_addr_in_use_def Let_def)
  moreover have "build_resolver (w_resolver sample_world) d = Ok ()" for d by (simp add: sample_world_def)
  moreover have "effective_request_policy sample_config = default_policy"
      "dedup_ttl_ms_max (ac_limits (cc_api_key sample_config)) = 1000"
      "ac_auth_method (cc_api_key sample_config) = AuthNone" "cc_dns_refresh_interval_s sample_config = 60"
    by (simp_all add: sample_config_def effective_request_policy_def)
  moreover have "initial_last_dns_refresh sample_world 60 early_time = (1000000000, early_time)"
    by (simp add: initial_last_dns_refresh_def sample_world_def early_time_def saturating_add_def)
  ultimately show ?thesis
    by (simp add: core_client_new_def default_horizon config_error_def early_client_def sample_client_def Let_def)
qed

lemma early_client_finds_no_server:
  "fst (refresh_if_due sample_world (sample_client, sample_time)) = Ok () \<and>
   core_client_new sample_world sample_config early_time = (Ok early_client, early_time) \<and>
   check_rate_limit sample_world [sample_resource] [] None (early_client, early_time) =
     Some (Err (CoreDns (Text ''No servers available'')), early_client, early_time) \<and>
   report_latency sample_world [sample_report] (early_client, early_time) = (Ok (), early_client, early_time)"
proof -
  have refresh: "refresh_if_due sample_world (early_client, early_time) = (Ok (), early_client, early_time)"
    by (simp add: refresh_if_due_def maybe_periodic_dns_refresh_def elapsed_secs_def sample_world_def
        early_client_def early_time_def sample_client_def sample_config_def)
  have targets: "targets_now sample_world (early_client, early_time) = (Ok no_targets, early_client, early_time)"
    by (simp add: targets_now_def current_targets_def early_client_def)
  have pol: "effective_request_policy (cl_config early_client) = default_policy"
      "dedup_ttl_ms_max (cl_limits early_client) = 1000"
      "rate_window_size_ms_max (cl_limits early_client) = 1000"
    by (simp_all add: early_client_def sample_client_def sample_config_def effective_request_policy_def)
  have check: "check_rate_limit sample_world [sample_resource] [] None (early_client, early_time) =
      Some (Err (CoreDns (Text ''No servers available'')), early_client, early_time)"
    using refresh targets pol
    by (simp add: check_rate_limit_def validate_rate_windows_against_quota_def prepare_request_def
        default_horizon config_error_def no_targets_def sample_resource_def)
  have inv: "client_inv sample_world early_client"
    using client_reachable_inv [OF sample_world_sound client_reachable.created [OF early_client_new]]
    by (simp add: sample_config_def credential_shape_def)
  let ?pdu = "and_then (build_latency_report_body (w_hash sample_world) [sample_report]) (build_pdu PDU_LATENCY_REPORT)"
  have "report_id (\<lambda>x. replicate 32 7) sample_report = Ok (replicate 16 7)"
    by (simp add: report_id_def sample_report_def derive_latency_tracker_id_bytes_def derive_content_id_def slice_def)
  moreover have wf: "wf_latency (latency_block_of (replicate 16 7) sample_report)"
    by (simp add: wf_latency_def latency_block_of_def)
  moreover have "w_hash sample_world = (\<lambda>x. replicate 32 7)" by (simp add: sample_world_def)
  ultimately obtain pdu where p: "?pdu = Ok pdu" "length pdu = 44"
    using latency_writer.wire_length [OF wf]
    by (simp add: build_latency_report_body_def report_append.loop_Cons latency_writer.append_block_wire
        build_pdu_def PDU_HEADER_LEN_def Let_def del: append_reports.simps(2))
  let ?h = "build_tenant_header (cc_api_key (cl_config early_client)) 1735689600000 (replicate 16 9)"
  have wf_h: "wf_tenant ?h" by (simp add: wf_tenant_def build_tenant_header_def)
  have auth: "ac_auth_method (cc_api_key (cl_config early_client)) = AuthNone"
    by (simp add: early_client_def sample_client_def sample_config_def)
  obtain packet where "frame_packet sample_world ?h pdu (early_client, early_time) = (Ok packet, early_client, early_time)"
    using p(2) auth wf_h
    by (simp add: frame_packet_def TENANT_TLV_LEN_def MAX_PACKET_SIZE_def write_header append_auth_tlv_def Let_def)
  moreover have "w_new_uuid sample_world early_time = (replicate 16 9, early_time)"
      "now_millis sample_world (early_client, early_time) = (Ok 1735689600000, early_client, early_time)"
    by (simp_all add: sample_world_def now_millis_def)
  ultimately have "request_packet sample_world ?pdu (early_client, early_time) =
      (Ok (replicate 16 9, packet), early_client, early_time)"
    using p(1) by (simp add: request_packet_def)
  moreover have "report_to_all (exchange_of sample_world early_client i packet no_targets) q e = (Ok (), q, e)" for i q e
    by (simp add: report_to_all_def exchange_of_def no_targets_def no_sends_def)
  moreover have "note_progress packet (progress_of early_client) early_client = early_client"
    by (simp add: note_progress_def progress_of_def early_client_def sample_client_def)
  ultimately have "report_latency sample_world [sample_report] (early_client, early_time) =
      (Ok (), early_client, early_time)"
    using refresh targets by (simp add: report_latency_def)
  then show ?thesis using early_client_new check sample_refresh [of "[]"] by (simp add: sample_time_def)
qed

text \<open>
  A decision that has been obtained is lost when the rebind it advises fails: the caller
  gets the communication error instead.
\<close>

lemma steering_failure_replaces_decision:
  assumes "exchange_request (exchange_of w (cl\<lparr>cl_inflight := insert i (cl_inflight cl)\<rparr>) i packet resolved)
      (effective_request_policy (cl_config cl)) ttl (progress_of cl) e = Some (Ok result, p, e1)"
    and "apply_steering_feedback (w_os w) (w_router_alive w) (ac_steering_feedback (cc_api_key (cl_config cl)))
      (cc_ignore_steering_feedback (cl_config cl)) result (cl_steering cl) e1 = (Err error, st, e2)"
  shows "\<exists>cl'. run_request w ttl resolved i packet (cl, e) = Some (Err error, cl', e2)"
proof -
  have "progress_of (cl\<lparr>cl_inflight := insert i (cl_inflight cl)\<rparr>) = progress_of cl" by (simp add: progress_of_def)
  then show ?thesis using assms by (simp add: run_request_def Let_def)
qed

end
