(* ===== verification/Model.thy ===== *)
theory Model
  imports Wire Errors
begin

text \<open>
  The public values of \<open>src/model.rs\<close>: content-defined resources and latency trackers
  with their builders, hexadecimal identities, and the response types.  Accessors that
  return a field are the record selectors.
\<close>

section \<open>Identities\<close>

definition hex_digit :: "nat \<Rightarrow> char" where
  "hex_digit n = (if n < 10 then char_of (48 + n) else char_of (87 + n))"

text \<open>\<open>write_hex\<close>: \<open>{byte:02x}\<close> for each byte; also the text of the \<open>Display\<close> impls.\<close>

definition write_hex :: "bytes \<Rightarrow> string" where
  "write_hex bs = concat (map (\<lambda>b. [hex_digit (unat b div 16), hex_digit (unat b mod 16)]) bs)"

text \<open>The two \<open>Debug\<close> impls: a tuple named after the type with the \<open>Display\<close> text.\<close>

definition resource_id_debug :: "bytes \<Rightarrow> string \<times> fmt_arg list" where
  "resource_id_debug i = (''ResourceId'', [StrArg (write_hex i)])"

definition latency_tracker_id_debug :: "bytes \<Rightarrow> string \<times> fmt_arg list" where
  "latency_tracker_id_debug i = (''LatencyTrackerId'', [StrArg (write_hex i)])"

section \<open>Durations\<close>

definition duration_to_u32_ms :: "duration \<Rightarrow> string \<Rightarrow> (u32, error) res" where
  "duration_to_u32_ms d field =
    (let millis = dur_as_millis d in
     if dur_is_zero d \<or> \<not> whole_millis d \<or> 2 ^ 32 - 1 < millis
     then Err (InvalidConfiguration (InvalidDuration field))
     else Ok (of_nat millis))"

section \<open>Resources\<close>

record resource =
  r_name :: string
  r_window_ms :: u32
  r_rate_limit :: u32
  r_id :: bytes

definition resource_new ::
  "(bytes \<Rightarrow> bytes) \<Rightarrow> string \<Rightarrow> duration \<Rightarrow> u32 \<Rightarrow> (resource, error) res"
where
  "resource_new hash name window rate_limit =
    (if name = [] \<or> 2 ^ 32 - 1 < length name
     then Err (InvalidConfiguration (InvalidName ''resource''))
     else
       and_then (duration_to_u32_ms window ''resource window'') (\<lambda>window_ms.
       and_then (derive_bucket_id hash name window_ms rate_limit) (\<lambda>i.
       Ok \<lparr>r_name = name, r_window_ms = window_ms, r_rate_limit = rate_limit, r_id = i\<rparr>)))"

definition resource_window :: "resource \<Rightarrow> duration" where
  "resource_window r = dur_from_millis (ucast (r_window_ms r))"

section \<open>Latency trackers\<close>

record latency_tracker =
  t_name :: string
  t_sample_ttl_ms :: u32
  t_max_samples :: u32
  t_min_samples :: u32
  t_id :: bytes

record latency_tracker_builder =
  tb_name :: string
  tb_sample_ttl :: "duration option"
  tb_max_samples :: "u32 option"
  tb_min_samples :: "u32 option"

definition tracker_builder :: "string \<Rightarrow> latency_tracker_builder" where
  "tracker_builder name =
    \<lparr>tb_name = name, tb_sample_ttl = None, tb_max_samples = None, tb_min_samples = None\<rparr>"

definition tracker_sample_ttl :: "latency_tracker \<Rightarrow> duration" where
  "tracker_sample_ttl t = dur_from_millis (ucast (t_sample_ttl_ms t))"

definition builder_sample_ttl :: "duration \<Rightarrow> latency_tracker_builder \<Rightarrow> latency_tracker_builder" where
  "builder_sample_ttl d b = b\<lparr>tb_sample_ttl := Some d\<rparr>"

definition builder_max_samples :: "u32 \<Rightarrow> latency_tracker_builder \<Rightarrow> latency_tracker_builder" where
  "builder_max_samples n b = b\<lparr>tb_max_samples := Some n\<rparr>"

definition builder_min_samples :: "u32 \<Rightarrow> latency_tracker_builder \<Rightarrow> latency_tracker_builder" where
  "builder_min_samples n b = b\<lparr>tb_min_samples := Some n\<rparr>"

text \<open>The loop that rejects a zero count.\<close>

fun check_counts :: "(string \<times> u32) list \<Rightarrow> (unit, error) res" where
  "check_counts [] = Ok ()"
| "check_counts ((field, value) # rest) =
    (if value = 0 then Err (InvalidConfiguration (InvalidTrackerValue field)) else check_counts rest)"

definition missing_field :: "string \<Rightarrow> error" where
  "missing_field field = InvalidConfiguration (MissingTrackerField field)"

definition tracker_build ::
  "(bytes \<Rightarrow> bytes) \<Rightarrow> latency_tracker_builder \<Rightarrow> (latency_tracker, error) res"
where
  "tracker_build hash b =
    (if tb_name b = [] \<or> 2 ^ 32 - 1 < length (tb_name b)
     then Err (InvalidConfiguration (InvalidName ''latency tracker''))
     else
       and_then (ok_or (missing_field ''sample lifetime'') (tb_sample_ttl b)) (\<lambda>sample_ttl.
       and_then (duration_to_u32_ms sample_ttl ''sample lifetime'') (\<lambda>sample_ttl_ms.
       and_then (ok_or (missing_field ''maximum samples'') (tb_max_samples b)) (\<lambda>max_samples.
       and_then (ok_or (missing_field ''minimum samples'') (tb_min_samples b)) (\<lambda>min_samples.
       and_then (check_counts [(''maximum samples'', max_samples), (''minimum samples'', min_samples)]) (\<lambda>_.
       and_then (derive_latency_tracker_id hash (tb_name b) sample_ttl_ms max_samples min_samples) (\<lambda>i.
       Ok \<lparr>t_name = tb_name b, t_sample_ttl_ms = sample_ttl_ms, t_max_samples = max_samples,
           t_min_samples = min_samples, t_id = i\<rparr>)))))))"

section \<open>Responses\<close>

datatype decision = Granted | Rejected

record public_resource_result =
  p_resource_id :: bytes
  p_tokens_deficit :: u16
  p_actual_rate :: u32

record public_guard_result =
  p_tracker_id :: bytes
  p_threshold_ms :: u32
  p_current_latency_ms :: u32
  p_passed :: bool

definition guard_threshold :: "public_guard_result \<Rightarrow> duration" where
  "guard_threshold g = dur_from_millis (ucast (p_threshold_ms g))"

definition guard_current_latency :: "public_guard_result \<Rightarrow> duration" where
  "guard_current_latency g = dur_from_millis (ucast (p_current_latency_ms g))"

record response =
  resp_decision :: decision
  resp_resource_results :: "public_resource_result list"
  resp_guard_results :: "public_guard_result list"
  resp_selected_server_id :: "u64 option"

section \<open>Hexadecimal text\<close>

lemma hex_digit_inject:
  assumes "m < 16" "n < 16" "hex_digit m = hex_digit n"
  shows "m = n"
proof -
  have "\<forall>m \<in> set [0..<16]. \<forall>n \<in> set [0..<16]. hex_digit m = hex_digit n \<longrightarrow> m = n"
    by code_simp
  then show ?thesis using assms by simp
qed

lemma write_hex_Cons:
  "write_hex (b # bs) = hex_digit (unat b div 16) # hex_digit (unat b mod 16) # write_hex bs"
  by (simp add: write_hex_def)

text \<open>
  The printed identity has two digits per byte and identifies the bytes: two
  identities with the same text are equal.
\<close>

lemma write_hex_inject:
  "inj write_hex \<and> length (write_hex bs) = 2 * length bs"
proof -
  have byte: "x = y" if "hex_digit (unat x div 16) = hex_digit (unat y div 16)"
      "hex_digit (unat x mod 16) = hex_digit (unat y mod 16)" for x y :: u8
  proof -
    have "unat x < 256" "unat y < 256" using unsigned_less [of x] unsigned_less [of y] by simp_all
    then have "unat x div 16 < 16" "unat y div 16 < 16" by simp_all
    then have "unat x div 16 = unat y div 16" "unat x mod 16 = unat y mod 16"
      using that hex_digit_inject by simp_all
    then show ?thesis by (metis div_mult_mod_eq word_unat_eq_iff)
  qed
  have "xs = ys" if "write_hex xs = write_hex ys" for xs ys
    using that
  proof (induction xs arbitrary: ys)
    case Nil
    then show ?case by (cases ys) (simp_all add: write_hex_def)
  next
    case (Cons x xs)
    then show ?case
      by (cases ys) (simp add: write_hex_def, auto simp: write_hex_Cons intro: byte)
  qed
  moreover have "length (write_hex bs) = 2 * length bs"
    by (induction bs) (simp_all add: write_hex_Cons, simp add: write_hex_def)
  ultimately show ?thesis by (auto intro: injI)
qed

section \<open>Durations and builders\<close>

definition ms_duration :: "duration \<Rightarrow> bool" where
  "ms_duration d \<longleftrightarrow> 0 < dur_as_millis d \<and> dur_as_millis d < 2 ^ 32 \<and> whole_millis d"

lemma whole_millis_zero: "whole_millis d \<Longrightarrow> dur_as_millis d = 0 \<longleftrightarrow> dur_is_zero d"
  by (auto simp: whole_millis_def dur_as_millis_def dur_is_zero_def word_unat_eq_iff)

text \<open>The conversion accepts the positive whole milliseconds of 32 bits and nothing else.\<close>

lemma duration_to_u32_ms_eq:
  "duration_to_u32_ms d field =
    (if ms_duration d then Ok (of_nat (dur_as_millis d))
     else Err (InvalidConfiguration (InvalidDuration field)))"
  using whole_millis_zero [of d]
  by (auto simp: duration_to_u32_ms_def ms_duration_def Let_def)

lemma dur_from_millis_of_ms:
  assumes "wf_duration d" "ms_duration d"
  shows "dur_from_millis (ucast (of_nat (dur_as_millis d) :: u32)) = d"
proof -
  let ?m = "dur_as_millis d"
  have small: "unat (ucast (of_nat ?m :: u32) :: u64) = ?m"
    using assms(2) by (simp add: ms_duration_def unat_of_nat)
  obtain q where q: "unat (dur_nanos d) = 1000000 * q"
    using assms(2) by (auto simp: ms_duration_def whole_millis_def)
  then have "q < 1000" using assms(1) by (simp add: wf_duration_def)
  then have m: "?m div 1000 = unat (dur_secs d)" "?m mod 1000 = q"
    using q by (simp_all add: dur_as_millis_def)
  have "dur_secs (dur_from_millis (ucast (of_nat ?m :: u32))) = dur_secs d"
    using m(1) small by (simp add: dur_from_millis_def word_unat_eq_iff unat_div)
  moreover have "dur_nanos (dur_from_millis (ucast (of_nat ?m :: u32))) = dur_nanos d"
    using m(2) small q by (simp add: word_unat_eq_iff dur_from_millis_nanos)
  ultimately show ?thesis by (intro duration.equality) simp_all
qed

definition bad_name :: "string \<Rightarrow> bool" where
  "bad_name name \<longleftrightarrow> name = [] \<or> 2 ^ 32 \<le> length name"

text \<open>
  Creating a resource rejects a bad name first and a bad window next; otherwise it
  keeps the name and limit, reads back the very window it was given and carries the
  identifier of that content.  It never panics.
\<close>

lemma resource_new_spec:
  assumes "\<forall>x. length (hash x) = 32" "wf_duration window"
  shows "case resource_new hash name window limit of
      Ok r \<Rightarrow> \<not> bad_name name \<and> ms_duration window \<and> r_name r = name \<and> r_rate_limit r = limit \<and>
        resource_window r = window \<and>
        content_id hash (BucketContent (as_bytes name) (r_window_ms r) limit) = (Ok (r_id r) :: (bytes, error) res)
    | Err e \<Rightarrow> e = InvalidConfiguration (if bad_name name then InvalidName ''resource''
        else InvalidDuration ''resource window'') \<and> (bad_name name \<or> \<not> ms_duration window)
    | Panic \<Rightarrow> False"
proof (cases "bad_name name \<or> \<not> ms_duration window")
  case True
  then show ?thesis
    by (auto simp: resource_new_def bad_name_def duration_to_u32_ms_eq)
next
  case False
  let ?w = "of_nat (dur_as_millis window) :: u32"
  have "content_id hash (BucketContent (as_bytes name) ?w limit) =
      (Ok (take 16 (hash (hashed_bytes (BucketContent (as_bytes name) ?w limit)))) :: (bytes, error) res)"
    using False assms(1) by (intro content_id_hashed) (simp_all add: bad_name_def)
  then show ?thesis
    using False dur_from_millis_of_ms [OF assms(2)]
    by (auto simp: resource_new_def bad_name_def duration_to_u32_ms_eq derive_bucket_id_def
        resource_window_def)
qed

definition buildable :: "latency_tracker_builder \<Rightarrow> bool" where
  "buildable b \<longleftrightarrow> \<not> bad_name (tb_name b) \<and>
    (case tb_sample_ttl b of None \<Rightarrow> False | Some d \<Rightarrow> ms_duration d) \<and>
    (case tb_max_samples b of None \<Rightarrow> False | Some n \<Rightarrow> n \<noteq> 0) \<and>
    (case tb_min_samples b of None \<Rightarrow> False | Some n \<Rightarrow> n \<noteq> 0)"

lemma check_counts_eq:
  "check_counts [(f, m), (g, n)] =
    (if m = 0 then Err (InvalidConfiguration (InvalidTrackerValue f))
     else if n = 0 then Err (InvalidConfiguration (InvalidTrackerValue g)) else Ok ())"
  by simp

lemma tracker_build_buildable:
  assumes "\<forall>x. length (hash x) = 32" "tb_sample_ttl b = Some ttl" "wf_duration ttl" "buildable b"
  shows "\<exists>t. tracker_build hash b = Ok t \<and> t_name t = tb_name b \<and> tracker_sample_ttl t = ttl \<and>
    tb_max_samples b = Some (t_max_samples t) \<and> tb_min_samples b = Some (t_min_samples t) \<and>
    content_id hash (TrackerContent (as_bytes (t_name t)) (t_sample_ttl_ms t) (t_max_samples t)
      (t_min_samples t)) = (Ok (t_id t) :: (bytes, error) res)"
proof -
  obtain mx mn where m: "tb_max_samples b = Some mx" "tb_min_samples b = Some mn" "mx \<noteq> 0" "mn \<noteq> 0"
      "ms_duration ttl" "\<not> bad_name (tb_name b)"
    using assms(2,4) by (auto simp: buildable_def split: option.splits)
  let ?w = "of_nat (dur_as_millis ttl) :: u32"
  have "content_id hash (TrackerContent (as_bytes (tb_name b)) ?w mx mn) =
      (Ok (take 16 (hash (hashed_bytes (TrackerContent (as_bytes (tb_name b)) ?w mx mn)))) :: (bytes, error) res)"
    using m assms(1) by (intro content_id_hashed) (simp_all add: bad_name_def)
  then show ?thesis
    using m assms(2) dur_from_millis_of_ms [OF assms(3)]
    by (auto simp: tracker_build_def bad_name_def duration_to_u32_ms_eq derive_latency_tracker_id_def
        tracker_sample_ttl_def simp del: content_id.simps hashed_bytes.simps
        simp: content_id.simps)
qed

lemma tracker_build_not_buildable:
  assumes "\<not> buildable b"
  shows "\<exists>e. tracker_build hash b = Err e"
  using assms
  by (cases "tb_sample_ttl b"; cases "tb_max_samples b"; cases "tb_min_samples b")
    (auto simp: tracker_build_def buildable_def bad_name_def duration_to_u32_ms_eq)

text \<open>
  A tracker builder succeeds exactly when its name is acceptable and every setting
  is present, positive and representable; the tracker then holds those settings, reads
  back the very lifetime it was given and carries the identifier of that content.  It
  never panics.
\<close>

lemma tracker_build_spec:
  assumes "\<forall>x. length (hash x) = 32" "tb_sample_ttl b = Some ttl" "wf_duration ttl"
  shows "if buildable b
    then \<exists>t. tracker_build hash b = Ok t \<and> t_name t = tb_name b \<and> tracker_sample_ttl t = ttl \<and>
      tb_max_samples b = Some (t_max_samples t) \<and> tb_min_samples b = Some (t_min_samples t) \<and>
      content_id hash (TrackerContent (as_bytes (t_name t)) (t_sample_ttl_ms t) (t_max_samples t)
        (t_min_samples t)) = (Ok (t_id t) :: (bytes, error) res)
    else \<exists>e. tracker_build hash b = Err e"
  using tracker_build_buildable [OF assms] tracker_build_not_buildable by simp

end
