(* ===== verification/PublicClient.thy ===== *)
theory PublicClient
  imports CoreClient Model
begin

text \<open>
  The public surface of \<open>src/public_client.rs\<close>: the client builder, the request builder
  with its checks, sending with the conversion of results, and latency reports.
\<close>

section \<open>Building a client\<close>

definition MAX_METRICS_LABEL_LEN :: nat where "MAX_METRICS_LABEL_LEN = 65526"

record client_builder =
  bd_api_key :: api_key
  bd_service_domain :: string
  bd_request_policy :: request_policy
  bd_dns_server :: "socket_addr option"

text \<open>\<open>Client::builder\<close>; \<open>show_nat\<close> is the decimal text of the key identifier.\<close>

definition client_builder_new :: "api_key \<Rightarrow> client_builder" where
  "client_builder_new key =
    \<lparr>bd_api_key = key, bd_service_domain = ''c-'' @ show_nat (unat (ak_key_id key)) @ ''.p0.ratelimitly.com'',
     bd_request_policy = default_policy, bd_dns_server = None\<rparr>"

definition with_service_domain :: "string \<Rightarrow> client_builder \<Rightarrow> (client_builder, error) res" where
  "with_service_domain domain b =
    (if \<not> valid_dns_name domain then Err (InvalidConfiguration InvalidServiceDomain)
     else Ok (b\<lparr>bd_service_domain := domain\<rparr>))"

definition with_request_policy :: "request_policy \<Rightarrow> client_builder \<Rightarrow> client_builder" where
  "with_request_policy policy b = b\<lparr>bd_request_policy := policy\<rparr>"

definition with_dns_server :: "socket_addr \<Rightarrow> client_builder \<Rightarrow> client_builder" where
  "with_dns_server address b = b\<lparr>bd_dns_server := Some address\<rparr>"

text \<open>The client without its shared core, which the operations thread as a state.\<close>

record public_client =
  pc_service_domain :: string
  pc_limits :: api_key_limits

definition core_config_of :: "client_builder \<Rightarrow> core_config" where
  "core_config_of b =
    \<lparr>cc_api_key = \<lparr>service_domain = bd_service_domain b, ac_key_id = ak_key_id (bd_api_key b),
       ac_auth_method = ak_auth_method (bd_api_key b), ac_limits = ak_limits (bd_api_key b),
       ac_steering_feedback = True\<rparr>,
     cc_dns_refresh_interval_s = 60, cc_ignore_steering_feedback = False,
     cc_request_policy = bd_request_policy b, cc_dns_server = bd_dns_server b\<rparr>"

definition client_build :: "'e world \<Rightarrow> client_builder \<Rightarrow> 'e \<Rightarrow> (public_client \<times> core_client, error) res \<times> 'e" where
  "client_build w b e =
    (let limits = ak_limits (bd_api_key b) in
     case map_err InvalidConfiguration (horizon_ms (bd_request_policy b) (dedup_ttl_ms_max limits)) of
       Err error \<Rightarrow> (Err error, e)
     | Panic \<Rightarrow> (Panic, e)
     | Ok _ \<Rightarrow>
         let (r, e) = core_client_new w (core_config_of b) e
         in (and_then (map_err error_of_core r) (\<lambda>inner.
               Ok (\<lparr>pc_service_domain = bd_service_domain b, pc_limits = limits\<rparr>, inner)), e))"

definition client_debug :: "public_client \<Rightarrow> string \<times> fmt_arg list" where
  "client_debug c = (''Client'', [StrArg (pc_service_domain c)])"

section \<open>Building a request\<close>

record request_builder =
  rb_limits :: api_key_limits
  rb_resources :: "resource_request list"
  rb_guards :: "latency_guard list"
  rb_metrics_label :: "string option"

definition request :: "public_client \<Rightarrow> request_builder" where
  "request c = \<lparr>rb_limits = pc_limits c, rb_resources = [], rb_guards = [], rb_metrics_label = None\<rparr>"

definition metrics_label :: "string \<Rightarrow> request_builder \<Rightarrow> (request_builder, error) res" where
  "metrics_label label b =
    (if MAX_METRICS_LABEL_LEN < length label then Err (InvalidConfiguration InvalidMetricsLabel)
     else Ok (b\<lparr>rb_metrics_label := (if label \<noteq> [] then Some label else None)\<rparr>))"

text \<open>\<open>u16::try_from(tokens)\<close>, kept when it is positive.\<close>

definition checked_tokens :: "u32 \<Rightarrow> u16 option" where
  "checked_tokens tokens = (if unat tokens \<le> 65535 \<and> 0 < tokens then Some (ucast tokens) else None)"

definition consume :: "resource \<Rightarrow> u32 \<Rightarrow> request_builder \<Rightarrow> (request_builder, error) res" where
  "consume resource tokens b =
    (case checked_tokens tokens of
       None \<Rightarrow> Err (InvalidConfiguration InvalidTokenQuantity)
     | Some tokens_requested \<Rightarrow>
         if rate_window_size_ms_max (rb_limits b) < r_window_ms resource
         then Err (InvalidConfiguration ResourceWindowExceedsApiKey)
         else if length (rb_resources b) = 65535
         then Err (InvalidConfiguration (TooManyRequestEntries ''resources''))
         else Ok (b\<lparr>rb_resources := rb_resources b @
           [\<lparr>rr_bucket_name = r_name resource, rr_window_size_ms = r_window_ms resource,
             rr_rate_limit = r_rate_limit resource, rr_tokens_requested = tokens_requested\<rparr>]\<rparr>))"

definition guard :: "latency_tracker \<Rightarrow> duration \<Rightarrow> request_builder \<Rightarrow> (request_builder, error) res" where
  "guard tracker threshold b =
    (if length (rb_guards b) = 65535
     then Err (InvalidConfiguration (TooManyRequestEntries ''guards''))
     else and_then (duration_to_u32_ms threshold ''latency threshold'') (\<lambda>threshold_ms.
       Ok (b\<lparr>rb_guards := rb_guards b @
         [\<lparr>lg_latency_tracker_name = t_name tracker, lg_threshold_ms = threshold_ms,
           lg_ttl_ms = t_sample_ttl_ms tracker, lg_max_samples = t_max_samples tracker,
           lg_min_sample_threshold = t_min_samples tracker\<rparr>]\<rparr>)))"

section \<open>Sending\<close>

definition response_of :: "rate_limit_result \<Rightarrow> response" where
  "response_of result =
    \<lparr>resp_decision = (if rl_success result then Granted else Rejected),
     resp_resource_results = map (\<lambda>item. \<lparr>p_resource_id = rs_bucket_id item,
       p_tokens_deficit = rs_tokens_deficit item, p_actual_rate = rs_actual_rate item\<rparr>) (rl_resource_results result),
     resp_guard_results = map (\<lambda>item. \<lparr>p_tracker_id = gr_latency_tracker_id item,
       p_threshold_ms = gr_threshold_ms item, p_current_latency_ms = gr_current_latency_ms item,
       p_passed = gr_passed item\<rparr>) (rl_guard_results result),
     resp_selected_server_id = (if rl_server_id result \<noteq> 0 then Some (rl_server_id result) else None)\<rparr>"

definition send ::
  "'e world \<Rightarrow> request_builder \<Rightarrow> core_client \<times> 'e \<Rightarrow> ((response, error) res \<times> core_client \<times> 'e) option"
where
  "send w b s =
    (case check_rate_limit w (rb_resources b) (rb_guards b) (rb_metrics_label b) s of
       None \<Rightarrow> None
     | Some (r, s) \<Rightarrow> Some (and_then (map_err error_of_core r) (\<lambda>result. Ok (response_of result)), s))"

definition report_of :: "latency_tracker \<Rightarrow> u32 \<Rightarrow> service_latency_report" where
  "report_of tracker observed_latency =
    \<lparr>lr_latency_tracker_name = t_name tracker, lr_observed_latency = observed_latency,
     lr_ttl_ms = t_sample_ttl_ms tracker, lr_max_samples = t_max_samples tracker,
     lr_min_sample_threshold = t_min_samples tracker\<rparr>"

definition client_report_latency ::
  "'e world \<Rightarrow> latency_tracker \<Rightarrow> duration \<Rightarrow> core_client \<times> 'e \<Rightarrow> (unit, error) res \<times> core_client \<times> 'e"
where
  "client_report_latency w tracker observed s =
    (case duration_to_u32_ms observed ''observed latency'' of
       Err error \<Rightarrow> (Err error, s)
     | Panic \<Rightarrow> (Panic, s)
     | Ok observed_latency \<Rightarrow>
         let (r, s) = report_latency w [report_of tracker observed_latency] s
         in (map_err error_of_core r, s))"

section \<open>Requests that the builder makes\<close>

text \<open>Builders that calls on a client's builder lead to, with resources and trackers as their constructors make them.\<close>

inductive built_request :: "(bytes \<Rightarrow> bytes) \<Rightarrow> public_client \<Rightarrow> request_builder \<Rightarrow> bool" for hash c where
  empty: "built_request hash c (request c)"
| labelled: "\<lbrakk>built_request hash c b; metrics_label label b = Ok b'\<rbrakk> \<Longrightarrow> built_request hash c b'"
| consumed: "\<lbrakk>built_request hash c b; resource_new hash name window limit = Ok r; consume r tokens b = Ok b'\<rbrakk>
    \<Longrightarrow> built_request hash c b'"
| guarded: "\<lbrakk>built_request hash c b; tracker_build hash tb = Ok t; guard t threshold b = Ok b'\<rbrakk>
    \<Longrightarrow> built_request hash c b'"

definition request_ok :: "public_client \<Rightarrow> request_builder \<Rightarrow> bool" where
  "request_ok c b \<longleftrightarrow> rb_limits b = pc_limits c \<and>
    list_all (\<lambda>r. rr_window_size_ms r \<le> rate_window_size_ms_max (pc_limits c) \<and> 0 < rr_tokens_requested r) (rb_resources b) \<and>
    names_short (rb_resources b) (rb_guards b) \<and>
    length (rb_resources b) \<le> 65535 \<and> length (rb_guards b) \<le> 65535 \<and>
    (case rb_metrics_label b of None \<Rightarrow> True | Some label \<Rightarrow> label \<noteq> [] \<and> length label \<le> MAX_METRICS_LABEL_LEN)"

lemma resource_new_name: "resource_new hash name window limit = Ok r \<Longrightarrow> short_name (r_name r)"
  by (auto simp: resource_new_def short_name_def outcome_simps split: if_splits)

lemma tracker_build_name: "tracker_build hash b = Ok t \<Longrightarrow> short_name (t_name t)"
  by (auto simp: tracker_build_def short_name_def outcome_simps split: if_splits)

lemma checked_tokens_pos: "checked_tokens tokens = Some n \<Longrightarrow> 0 < n \<and> unat n = unat tokens"
proof -
  assume "checked_tokens tokens = Some n"
  then have t: "unat tokens \<le> 65535" "0 < tokens" "n = ucast tokens"
    by (auto simp: checked_tokens_def split: if_splits)
  then have "unat n = unat tokens" by (simp add: unsigned_ucast_eq take_bit_eq_mod)
  then show ?thesis using t(2) by (simp add: word_less_nat_alt)
qed

lemma built_request_ok: "built_request hash c b \<Longrightarrow> request_ok c b"
proof (induction rule: built_request.induct)
  case empty
  then show ?case by (simp add: request_ok_def request_def names_short_def)
next
  case (labelled b label b')
  then show ?case by (auto simp: request_ok_def metrics_label_def split: if_splits)
next
  case (consumed b name window limit r tokens b')
  then obtain n where "checked_tokens tokens = Some n" by (auto simp: consume_def split: option.splits)
  with consumed show ?case using resource_new_name [OF consumed(2)] checked_tokens_pos [of tokens n]
    by (auto simp: request_ok_def consume_def names_short_def split: if_splits)
next
  case (guarded b tb t threshold b')
  then show ?case using tracker_build_name [OF guarded(2)]
    by (auto simp: request_ok_def guard_def names_short_def outcome_simps split: if_splits)
qed

lemma request_ok_windows:
  "request_ok c b \<Longrightarrow>
    validate_rate_windows_against_quota (rb_resources b) (Some (rate_window_size_ms_max (pc_limits c))) = Ok ()"
proof -
  assume "request_ok c b"
  then have "find (\<lambda>r. rate_window_size_ms_max (pc_limits c) < rr_window_size_ms r) (rb_resources b) = None"
    by (auto simp: request_ok_def list_all_iff find_None_iff not_less)
  then show ?thesis by (simp add: validate_rate_windows_against_quota_def)
qed

text \<open>
  C30: whatever calls make a request builder, its request is well formed: every window is
  within the API key's limit, so the check in the core never fails; every token count is
  positive; names are short enough for their digests; neither list outgrows its 16-bit
  count; and a label is non-empty and fits its block.
\<close>

theorem built_requests_valid:
  assumes "built_request hash c b"
  shows "validate_rate_windows_against_quota (rb_resources b) (Some (rate_window_size_ms_max (pc_limits c))) = Ok () \<and>
    list_all (\<lambda>r. 0 < rr_tokens_requested r) (rb_resources b) \<and> names_short (rb_resources b) (rb_guards b) \<and>
    length (rb_resources b) < 2 ^ 16 \<and> length (rb_guards b) < 2 ^ 16 \<and>
    (case rb_metrics_label b of None \<Rightarrow> True
     | Some label \<Rightarrow> label \<noteq> [] \<and> append_metrics_label_tlv body label = Ok (body @ metrics_label_tlv label))"
  using built_request_ok [OF assms] request_ok_windows
  by (auto simp: request_ok_def list_all_iff MAX_METRICS_LABEL_LEN_def append_metrics_label_tlv_small split: option.splits)

definition sample_public :: public_client where
  "sample_public = \<lparr>pc_service_domain = ''x'', pc_limits = ac_limits (cc_api_key sample_config)\<rparr>"

definition sample_builder :: request_builder where
  "sample_builder = (request sample_public)\<lparr>rb_resources := [sample_resource], rb_metrics_label := Some ''web''\<rparr>"

definition sample_unlabelled :: request_builder where
  "sample_unlabelled = (request sample_public)\<lparr>rb_resources := [sample_resource]\<rparr>"

definition checkout :: resource where
  "checkout = \<lparr>r_name = ''checkout'', r_window_ms = 1000, r_rate_limit = 100, r_id = replicate 16 7\<rparr>"

lemma checkout_new: "resource_new (\<lambda>x. replicate 32 7) ''checkout'' (dur_from_millis 1000) 100 = Ok checkout"
  by (simp add: resource_new_def duration_to_u32_ms_eq ms_duration_def whole_dur_from_millis
      derive_bucket_id_def derive_bucket_id_bytes_def derive_content_id_def slice_def checkout_def)

lemma checkout_consume: "consume checkout 1 (request sample_public) = Ok sample_unlabelled"
  by (simp add: consume_def checked_tokens_def request_def sample_public_def sample_config_def sample_resource_def
      checkout_def sample_unlabelled_def)

lemma sample_unlabelled_built: "built_request (\<lambda>x. replicate 32 7) sample_public sample_unlabelled"
  using built_request.consumed [OF built_request.empty checkout_new checkout_consume] .

lemma sample_built: "built_request (\<lambda>x. replicate 32 7) sample_public sample_builder"
proof -
  have "metrics_label ''web'' sample_unlabelled = Ok sample_builder"
    by (simp add: metrics_label_def MAX_METRICS_LABEL_LEN_def sample_builder_def sample_unlabelled_def)
  then show ?thesis by (rule built_request.labelled [OF sample_unlabelled_built])
qed

theorem built_requests_valid_witness:
  "validate_rate_windows_against_quota [sample_resource] (Some 1000) = Ok () \<and>
    append_metrics_label_tlv [1] ''web'' = Ok ([1] @ metrics_label_tlv ''web'')"
  using built_requests_valid [OF sample_built, of "[1]"]
  by (simp add: sample_builder_def sample_public_def sample_config_def)

section \<open>Clients and requests end to end\<close>

lemma map_err_core:
  "map_err error_of_core r = Err error \<Longrightarrow> (\<forall>m. r \<noteq> Err (CoreConfig m)) \<Longrightarrow>
    (\<forall>ce. error \<noteq> InvalidConfiguration ce) \<and> (\<forall>ke. error \<noteq> InvalidApiKey ke)"
proof -
  assume "map_err error_of_core r = Err error" and no: "\<forall>m. r \<noteq> Err (CoreConfig m)"
  then obtain ce where "r = Err ce" "error = error_of_core ce" by (cases r) auto
  then show ?thesis using no by (cases ce) auto
qed

lemma core_client_new_errors:
  assumes "core_client_new w cfg e = (r, e')"
    and "horizon_ms (effective_request_policy cfg) (dedup_ttl_ms_max (ac_limits (cc_api_key cfg))) = Ok h"
  shows "r \<noteq> Panic \<and> (\<forall>m. r \<noteq> Err (CoreConfig m))"
proof -
  obtain q e1 where b: "bind_sockets (w_os w) 0 e = (q, e1)"
      "(\<exists>fs. q = Ok fs \<and> sockets_on 0 fs) \<or> (\<exists>error. q = Err error)"
    using bind_sockets_cases [of "w_os w" 0 e] by (elim exE conjE)
  have "io_only q" using bind_sockets_io b(1) by (metis fst_conv)
  then show ?thesis using assms b
    by (cases rule: build_resolver_cases [of "w_resolver w" "cc_dns_server cfg"])
      (auto simp: core_client_new_def config_error_def Let_def split: prod.splits)
qed

text \<open>
  C29: building a client rejects exactly the policies whose horizon the API key does not
  admit, with the policy's own error and before any socket is opened; otherwise it makes
  a client in its initial state for the key's limits, or reports a local communication
  or discovery failure, and it never panics.
\<close>

theorem client_build_spec:
  assumes "credential_shape (ak_auth_method (bd_api_key b))"
  shows "case client_build w b e of (r, e') \<Rightarrow>
    (case horizon_ms (bd_request_policy b) (dedup_ttl_ms_max (ak_limits (bd_api_key b))) of
       Ok h \<Rightarrow>
         (case r of
            Ok (c, cl) \<Rightarrow> client_reachable w cl \<and> cl_limits cl = pc_limits c \<and> pc_limits c = ak_limits (bd_api_key b) \<and>
              pc_service_domain c = bd_service_domain b \<and> cl_inflight cl = {}
          | Err error \<Rightarrow> (\<forall>ce. error \<noteq> InvalidConfiguration ce) \<and> (\<forall>ke. error \<noteq> InvalidApiKey ke)
          | Panic \<Rightarrow> False)
     | Err ce \<Rightarrow> r = Err (InvalidConfiguration ce) \<and> e' = e
     | Panic \<Rightarrow> False)"
proof (cases "horizon_ms (bd_request_policy b) (dedup_ttl_ms_max (ak_limits (bd_api_key b)))")
  case (Err ce)
  then show ?thesis by (simp add: client_build_def)
next
  case Panic
  then show ?thesis by (auto simp: horizon_ms_eq split: if_splits)
next
  case (Ok h)
  obtain r e1 where r: "core_client_new w (core_config_of b) e = (r, e1)" by force
  have "horizon_ms (effective_request_policy (core_config_of b))
      (dedup_ttl_ms_max (ac_limits (cc_api_key (core_config_of b)))) = Ok h"
    using Ok by (simp add: effective_request_policy_def core_config_of_def)
  note errs = core_client_new_errors [OF r this]
  show ?thesis
  proof (cases r)
    case ok: (Ok cl)
    have shape: "credential_shape (ac_auth_method (cc_api_key (core_config_of b)))"
      using assms by (simp add: core_config_of_def)
    show ?thesis using Ok r ok core_client_new_inv [OF r [unfolded ok] shape]
        client_reachable.created [OF r [unfolded ok] shape]
      by (simp add: client_build_def core_config_of_def)
  next
    case (Err ce)
    then show ?thesis using Ok r errs map_err_core [of r "error_of_core ce"] by (simp add: client_build_def)
  next
    case Panic
    then show ?thesis using errs by simp
  qed
qed

definition sample_key :: api_key where
  "sample_key = \<lparr>ak_key_id = 5, ak_auth_method = AuthNone, ak_limits = ac_limits (cc_api_key sample_config)\<rparr>"

theorem client_build_spec_witness:
  "\<exists>c cl e'. client_build sample_world (client_builder_new sample_key) sample_time = (Ok (c, cl), e') \<and>
    client_reachable sample_world cl \<and> pc_limits c = ak_limits sample_key"
proof -
  let ?b = "client_builder_new sample_key"
  have h: "horizon_ms (bd_request_policy ?b) (dedup_ttl_ms_max (ak_limits (bd_api_key ?b))) = Ok 60"
    by (simp add: client_builder_new_def sample_key_def sample_config_def default_horizon)
  have shape: "credential_shape (ak_auth_method (bd_api_key ?b))"
    by (simp add: client_builder_new_def sample_key_def credential_shape_def)
  have bind: "bind_sockets (w_os sample_world) 0 e = (Ok \<lparr>fs_v4 = Some \<lparr>sock_ipv6 = False, sock_port = 0\<rparr>,
      fs_v6 = Some \<lparr>sock_ipv6 = True, sock_port = 0\<rparr>, fs_v6_first = False\<rparr>, e)" for e
    by (simp add: sample_world_def bind_sockets_def bind_udp_socket_for_family_def is_addr_in_use_def Let_def)
  have "build_resolver (w_resolver sample_world) d = Ok ()" for d by (simp add: sample_world_def)
  moreover have "effective_request_policy (core_config_of ?b) = bd_request_policy ?b"
      "ac_limits (cc_api_key (core_config_of ?b)) = ak_limits (bd_api_key ?b)"
    by (simp_all add: effective_request_policy_def core_config_of_def)
  ultimately have "\<exists>cl e'. core_client_new sample_world (core_config_of ?b) sample_time = (Ok cl, e')"
    using h bind by (simp add: core_client_new_def config_error_def Let_def split: prod.splits)
  then obtain c cl e' where "client_build sample_world ?b sample_time = (Ok (c, cl), e')"
    using h by (auto simp: client_build_def)
  then show ?thesis using client_build_spec [OF shape, of sample_world sample_time] h
    by (auto simp: client_builder_new_def)
qed



end
