(* ===== verification/HaSelection.thy ===== *)
theory HaSelection
  imports HaPolicy
begin

text \<open>
  The selection algorithm of \<open>docs/ha-policy.md\<close> as a function of the packets that
  arrive, and the proof that the loops of \<open>HaPolicy\<close> compute it.
\<close>

section \<open>A network with given arrivals\<close>

text \<open>
  The state of the network is the time and the packets still to arrive with their times.
  Waiting for \<open>t\<close> returns the next packet when it arrives before the wait ends.
\<close>

type_synonym arrivals = "(nat \<times> response_packet) list"

definition timed_receive :: "nat \<Rightarrow> nat \<times> arrivals \<Rightarrow> response_packet option \<times> nat \<times> arrivals" where
  "timed_receive t e =
    (case snd e of
       [] \<Rightarrow> (None, (fst e + t, []))
     | (a, packet) # rest \<Rightarrow>
         if a < fst e + t then (Some packet, (max (fst e) a, rest)) else (None, (fst e + t, snd e)))"

text \<open>The clock is the time, and every send goes out at once.\<close>

definition timed_exchange :: "(nat \<times> arrivals) exchange \<Rightarrow> bool" where
  "timed_exchange x \<longleftrightarrow> (\<forall>e. clock x e = (fst e, e)) \<and> (\<forall>t e. receive x t e = timed_receive t e) \<and>
    (\<forall>target e. target \<in> set (targets (ex_resolved x)) \<longrightarrow>
      (\<exists>n. send_to x (ex_packet x) target e = (Ok n, e)))"

definition before :: "nat \<Rightarrow> arrivals \<Rightarrow> arrivals" where
  "before d = takeWhile (\<lambda>(a, _). a < d)"

definition after :: "nat \<Rightarrow> arrivals \<Rightarrow> arrivals" where
  "after d = dropWhile (\<lambda>(a, _). a < d)"

definition pending :: "nat \<Rightarrow> arrivals \<Rightarrow> bool" where
  "pending now arrivals \<longleftrightarrow> (case arrivals of [] \<Rightarrow> True | (a, _) # _ \<Rightarrow> now \<le> a)"

text \<open>The answers among the packets, in order.\<close>

definition answers :: "'e exchange \<Rightarrow> arrivals \<Rightarrow> rate_limit_result list" where
  "answers x arrivals =
    concat (map (\<lambda>(_, packet). case answer_of x packet of None \<Rightarrow> [] | Some r \<Rightarrow> [r]) arrivals)"

section \<open>The documented selection\<close>

text \<open>The answer of the oldest server, else the first one of the oldest responder.\<close>

definition oldest_responder :: "rate_limit_result list \<Rightarrow> rate_limit_result option" where
  "oldest_responder rs = find (\<lambda>r. list_all (\<lambda>r'. rl_server_id r \<le> rl_server_id r') rs) rs"

definition initial_choice :: "u64 list \<Rightarrow> rate_limit_result list \<Rightarrow> rate_limit_result option" where
  "initial_choice allowed rs =
    (case find (\<lambda>r. allowed \<noteq> [] \<and> list_all (\<lambda>i. rl_server_id r \<le> i) allowed) rs of
       Some r \<Rightarrow> Some r
     | None \<Rightarrow> oldest_responder rs)"

text \<open>
  The initial round lasts \<open>B(0)\<close> units from the first send; when it is silent the first
  answer before the horizon is chosen; otherwise the request times out.
\<close>

definition documented_choice :: "'e exchange \<Rightarrow> request_policy \<Rightarrow> nat \<Rightarrow> arrivals \<Rightarrow> rate_limit_result option" where
  "documented_choice x policy start arrivals =
    (let initial = answers x (before (start + 1000000 * (unat (unit_ms policy) * gap (replay_gap policy) 0)) arrivals);
         all = answers x (before (start + 1000000 * horizon_spec policy) arrivals)
     in if initial \<noteq> [] then initial_choice (allowed_server_ids (ex_resolved x)) initial
        else case all of [] \<Rightarrow> None | r # _ \<Rightarrow> Some r)"

section \<open>Arrivals and windows\<close>

lemma answers_simps [simp]:
  "answers x [] = []"
  "answers x ((a, packet) # rest) = (case answer_of x packet of None \<Rightarrow> [] | Some r \<Rightarrow> [r]) @ answers x rest"
  "answers x (as @ bs) = answers x as @ answers x bs"
  by (simp_all add: answers_def)

lemma before_simps [simp]:
  "before d [] = []" "before d ((a, packet) # rest) = (if a < d then (a, packet) # before d rest else [])"
  by (simp_all add: before_def)

lemma after_simps [simp]:
  "after d [] = []" "after d ((a, packet) # rest) = (if a < d then after d rest else (a, packet) # rest)"
  by (simp_all add: after_def)

lemma pending_after [simp]: "pending d (after d arrivals)"
  by (induction arrivals) (auto simp: pending_def)

lemma before_split: "d \<le> d' \<Longrightarrow> before d' arrivals = before d arrivals @ before d' (after d arrivals)"
  by (induction arrivals) auto

lemma after_after: "d \<le> d' \<Longrightarrow> after d' (after d arrivals) = after d' arrivals"
  by (induction arrivals) auto

lemma before_pending: "pending now arrivals \<Longrightarrow> before now arrivals = []"
  by (cases arrivals) (auto simp: pending_def)

lemma after_pending: "pending now arrivals \<Longrightarrow> after now arrivals = arrivals"
  by (cases arrivals) (auto simp: pending_def)

section \<open>Keeping the oldest answer\<close>

definition keep :: "rate_limit_result option \<Rightarrow> rate_limit_result \<Rightarrow> rate_limit_result option" where
  "keep best r = (if older r best then Some r else best)"

lemma keep_simps [simp]:
  "keep None r = Some r" "keep (Some b) r = (if rl_server_id r < rl_server_id b then Some r else Some b)"
  by (simp_all add: keep_def older_less)

lemma find_append: "find P (xs @ ys) = (case find P xs of None \<Rightarrow> find P ys | Some x \<Rightarrow> Some x)"
  by (induction xs) auto

lemma oldest_responder_snoc: "oldest_responder (rs @ [r]) = keep (oldest_responder rs) r"
proof (cases "oldest_responder rs")
  case None
  have "rs = []"
  proof (rule ccontr)
    assume "rs \<noteq> []"
    then have "arg_min_on rl_server_id (set rs) \<in> set rs"
        "\<forall>r' \<in> set rs. rl_server_id (arg_min_on rl_server_id (set rs)) \<le> rl_server_id r'"
      using arg_min_if_finite [of "set rs" rl_server_id] by (auto simp: not_less)
    then show False using None by (auto simp: oldest_responder_def find_None_iff list_all_iff)
  qed
  then show ?thesis using None by (simp add: oldest_responder_def)
next
  case (Some b)
  then have b: "b \<in> set rs" "\<forall>r' \<in> set rs. rl_server_id b \<le> rl_server_id r'"
    by (auto simp: oldest_responder_def find_Some_iff list_all_iff in_set_conv_nth)
  show ?thesis
  proof (cases "rl_server_id r < rl_server_id b")
    case True
    then have "\<forall>r' \<in> set rs. \<not> rl_server_id r' \<le> rl_server_id r" using b(2) by force
    then have "find (\<lambda>r'. list_all (\<lambda>r''. rl_server_id r' \<le> rl_server_id r'') (rs @ [r])) rs = None"
      by (auto simp: find_None_iff)
    moreover have "list_all (\<lambda>r''. rl_server_id r \<le> rl_server_id r'') (rs @ [r])"
      using True b(2) by (force simp: list_all_iff)
    ultimately show ?thesis using True Some by (simp add: oldest_responder_def find_append)
  next
    case False
    then have "find (\<lambda>r'. list_all (\<lambda>r''. rl_server_id r' \<le> rl_server_id r'') (rs @ [r])) rs =
        find (\<lambda>r'. list_all (\<lambda>r''. rl_server_id r' \<le> rl_server_id r'') rs) rs"
      using b by (intro find_cong) (force simp: list_all_iff)+
    then show ?thesis using False Some by (simp add: oldest_responder_def find_append)
  qed
qed

lemma foldl_keep: "foldl keep None rs = oldest_responder rs"
  by (induction rs rule: rev_induct) (simp_all add: oldest_responder_snoc, simp add: oldest_responder_def)

section \<open>The loops\<close>

lemma timed_clock: "timed_exchange x \<Longrightarrow> clock x e = (fst e, e)"
  unfolding timed_exchange_def by blast

lemma timed_wait:
  assumes "timed_exchange x" "now < deadline"
  shows "receive x (deadline - now) (now, arrivals) =
    (case arrivals of [] \<Rightarrow> (None, (deadline, []))
     | (a, packet) # rest \<Rightarrow>
         if a < deadline then (Some packet, (max now a, rest)) else (None, (deadline, arrivals)))"
  using assms by (auto simp: timed_exchange_def timed_receive_def split: list.splits)

lemma send_loop_timed:
  assumes "timed_exchange x" "set ts \<subseteq> set (targets (ex_resolved x))"
  shows "\<exists>c' p'. send_loop x ts c p e = (c', p', e) \<and> last_error c' = last_error c \<and>
    delivered c' + attempted c = delivered c + attempted c'"
  using assms(2)
proof (induction ts arbitrary: c p)
  case (Cons t ts)
  obtain n where "send_to x (ex_packet x) t e = (Ok n, e)"
    using assms(1) Cons.prems unfolding timed_exchange_def by (meson list.set_intros(1) subsetD)
  then have s: "send_datagram x (ex_packet x) t p e = (Ok n, p\<lparr>send_results := send_results p @ [(t, Ok n)]\<rparr>, e)"
    by (simp add: send_datagram_def)
  show ?case
  proof (cases "responded (ex_resolved x) p t")
    case True
    then show ?thesis using Cons by simp
  next
    case False
    let ?c = "c\<lparr>attempted := attempted c + 1, delivered := delivered c + 1\<rparr>"
    obtain c' p' where "send_loop x ts ?c (p\<lparr>send_results := send_results p @ [(t, Ok n)]\<rparr>) e = (c', p', e)"
        "last_error c' = last_error ?c" "delivered c' + attempted ?c = delivered ?c + attempted c'"
      using Cons.IH [of ?c "p\<lparr>send_results := send_results p @ [(t, Ok n)]\<rparr>"] Cons.prems by auto
    then show ?thesis using False s by (simp add: Let_def)
  qed
qed simp

lemma send_to_missing_timed:
  assumes "timed_exchange x"
  obtains p' where "send_to_missing x p e = (Ok (), p', e)"
proof -
  obtain c p' where "send_loop x (targets (ex_resolved x)) no_sends p e = (c, p', e)"
      "last_error c = None" "delivered c = attempted c"
    using send_loop_timed [OF assms order_refl, of no_sends p e] by (auto simp: no_sends_def)
  then have "send_to_missing x p e = (Ok (), p', e)" by (simp add: send_to_missing_def)
  then show thesis by (rule that)
qed

text \<open>
  The loop of the initial round keeps the oldest answer until the window ends, or until
  the preferred server has answered.
\<close>

definition until :: "('a \<Rightarrow> bool) \<Rightarrow> 'a list \<Rightarrow> 'a list" where
  "until P xs = takeWhile (\<lambda>y. \<not> P y) xs @ (case find P xs of None \<Rightarrow> [] | Some y \<Rightarrow> [y])"

lemma until_simps [simp]: "until P [] = []" "until P (y # ys) = (if P y then [y] else y # until P ys)"
  by (simp_all add: until_def)

lemma round_window_timed:
  fixes oldest :: "u64 option" and round :: u32
  assumes "timed_exchange x" "now < deadline \<or> pending deadline arrivals" "now \<le> deadline"
  defines "P \<equiv> \<lambda>r. oldest = Some (rl_server_id r) \<or> 0 < round"
  defines "rs \<equiv> answers x (before deadline arrivals)"
  shows "\<exists>p' e'. round_window x oldest round deadline best p (now, arrivals) =
      Some (find P rs \<noteq> None, foldl keep best (until P rs), p', e') \<and>
    (find P rs = None \<longrightarrow> e' = (deadline, after deadline arrivals))"
  using assms(2,3) unfolding rs_def
proof (induction arrivals arbitrary: now best p)
  case Nil
  then show ?case using assms(1)
    by (subst round_window.simps) (auto simp: timed_clock timed_wait)
next
  case (Cons ap rest)
  obtain a packet where ap: "ap = (a, packet)" by force
  show ?case
  proof (cases "now < deadline \<and> a < deadline")
    case False
    then show ?thesis using Cons.prems ap
      by (subst round_window.simps) (auto simp: timed_clock [OF assms(1)] timed_wait [OF assms(1)] pending_def)
  next
    case True
    then have m: "max now a < deadline" "max now a \<le> deadline" by simp_all
    show ?thesis
    proof (cases "answer_of x packet")
      case None
      then show ?thesis using Cons.IH [of "max now a" best p] True m ap
        by (subst round_window.simps) (simp add: timed_clock [OF assms(1)] timed_wait [OF assms(1)] accept_eq)
    next
      case (Some r)
      let ?p = "note_answer packet r (max now a) p"
      show ?thesis
      proof (cases "P r")
        case ret: True
        then show ?thesis using True m ap Some
          by (subst round_window.simps)
            (auto simp: timed_clock [OF assms(1)] timed_wait [OF assms(1)] accept_eq P_def keep_def Let_def)
      next
        case cont: False
        then have "\<not> (oldest = Some (rl_server_id r) \<or> 0 < round)" by (simp add: P_def)
        then show ?thesis using Cons.IH [of "max now a" "keep best r" ?p] True m ap Some cont
          by (subst round_window.simps)
            (simp add: timed_clock [OF assms(1)] timed_wait [OF assms(1)] accept_eq keep_def [symmetric] Let_def)
      qed
    qed
  qed
qed

lemma final_window_timed:
  assumes "timed_exchange x" "now < deadline \<or> pending deadline arrivals" "now \<le> deadline"
  defines "rs \<equiv> answers x (before deadline arrivals)"
  shows "\<exists>p' e'. final_window x deadline p (now, arrivals) = Some (case rs of [] \<Rightarrow> None | r # _ \<Rightarrow> Some r, p', e')"
  using assms(2,3) unfolding rs_def
proof (induction arrivals arbitrary: now p)
  case Nil
  then show ?case using assms(1)
    by (subst final_window.simps) (auto simp: timed_clock timed_wait)
next
  case (Cons ap rest)
  obtain a packet where ap: "ap = (a, packet)" by force
  show ?case
  proof (cases "now < deadline \<and> a < deadline")
    case False
    then show ?thesis using Cons.prems ap
      by (subst final_window.simps) (auto simp: timed_clock [OF assms(1)] timed_wait [OF assms(1)] pending_def)
  next
    case True
    then have m: "max now a < deadline" "max now a \<le> deadline" by simp_all
    then show ?thesis using Cons.IH [of "max now a" p] True ap
      by (subst final_window.simps, cases "answer_of x packet")
        (simp_all add: timed_clock [OF assms(1)] timed_wait [OF assms(1)] accept_eq)
  qed
qed

section \<open>The rounds\<close>

abbreviation first :: "'a list \<Rightarrow> 'a option" where
  "first xs \<equiv> (case xs of [] \<Rightarrow> None | y # _ \<Rightarrow> Some y)"

lemma find_True: "find (\<lambda>_. True) xs = first xs"
  by (cases xs) simp_all

lemma foldl_keep_first: "foldl keep None (until (\<lambda>_. True) rs) = first rs"
  by (cases rs) simp_all

lemma first_append: "first (xs @ ys) = (case xs of [] \<Rightarrow> first ys | y # _ \<Rightarrow> Some y)"
  by (cases xs) simp_all

abbreviation round_ns :: "request_policy \<Rightarrow> u32 \<Rightarrow> nat" where
  "round_ns policy round \<equiv> 1000000 * (unat (unit_ms policy) * gap (replay_gap policy) (unat round))"

lemma run_round_timed:
  fixes oldest :: "u64 option" and round :: u32
  assumes "timed_exchange x" "valid_schedule (replay_gap policy)" "pending now arrivals"
    and "unat (unit_ms policy) * gap (replay_gap policy) (unat round) < 2 ^ 64"
  defines "P \<equiv> \<lambda>r. oldest = Some (rl_server_id r) \<or> 0 < round"
  defines "d \<equiv> now + round_ns policy round"
  defines "rs \<equiv> answers x (before d arrivals)"
  shows "\<exists>p' e'. run_rounds x policy oldest (round # rounds) None p (now, arrivals) =
      (if rs = [] then run_rounds x policy oldest rounds None p' (d, after d arrivals)
       else Some (Ok (foldl keep None (until P rs)), p', e'))"
proof -
  obtain p1 where s: "send_to_missing x p (now, arrivals) = (Ok (), p1, (now, arrivals))"
    using send_to_missing_timed [OF assms(1)] by metis
  obtain n where n: "units (replay_gap policy) round = Ok n" "unat n = gap (replay_gap policy) (unat round)"
    using units_valid [OF assms(2)] by blast
  have ns: "window_ns policy n = round_ns policy round"
    using window_ns_exact [of policy n] assms(4) n(2) by simp
  have "now < now + k \<or> pending (now + k) arrivals" for k using assms(3) by (cases k) simp_all
  then have entry: "now < d \<or> pending d arrivals" unfolding d_def by blast
  have le: "now \<le> d" by (simp add: d_def)
  obtain p' e' where w: "round_window x oldest round d None p1 (now, arrivals) =
      Some (find P rs \<noteq> None, foldl keep None (until P rs), p', e')"
      "find P rs = None \<longrightarrow> e' = (d, after d arrivals)"
    using round_window_timed [OF assms(1) entry le, of oldest round None p1] unfolding P_def rs_def by (elim exE conjE)
  have kept: "rs \<noteq> [] \<Longrightarrow> foldl keep None (until P rs) \<noteq> None"
  proof -
    have "foldl keep (Some b) qs \<noteq> None" for b qs by (induction qs arbitrary: b) simp_all
    then show "rs \<noteq> [] \<Longrightarrow> foldl keep None (until P rs) \<noteq> None" by (cases rs) simp_all
  qed
  show ?thesis
  proof (cases rs)
    case Nil
    then show ?thesis using s n(1) ns w
      by (intro exI [of _ p']) (simp add: timed_clock [OF assms(1)] Let_def d_def)
  next
    case (Cons r rs')
    then have "rs \<noteq> []" by simp
    then show ?thesis using s n(1) ns w kept by (simp add: timed_clock [OF assms(1)] Let_def d_def [symmetric])
  qed
qed

lemma run_rounds_timed:
  assumes "timed_exchange x" "valid_schedule (replay_gap policy)" "pending now arrivals"
    and "\<forall>round \<in> set rounds. 0 < round \<and> unat (unit_ms policy) * gap (replay_gap policy) (unat round) < 2 ^ 64"
  shows "\<exists>p' e'. run_rounds x policy oldest rounds None p (now, arrivals) =
      Some (Ok (first (answers x (before (now + (\<Sum>round\<leftarrow>rounds. round_ns policy round)) arrivals))), p', e') \<and>
    (answers x (before (now + (\<Sum>round\<leftarrow>rounds. round_ns policy round)) arrivals) = [] \<longrightarrow>
      e' = (now + (\<Sum>round\<leftarrow>rounds. round_ns policy round),
        after (now + (\<Sum>round\<leftarrow>rounds. round_ns policy round)) arrivals))"
  using assms(3,4)
proof (induction rounds arbitrary: p now arrivals)
  case Nil
  then show ?case by (simp add: before_pending after_pending)
next
  case (Cons round rounds)
  let ?d = "now + round_ns policy round"
  let ?D = "?d + (\<Sum>round\<leftarrow>rounds. round_ns policy round)"
  have bound: "unat (unit_ms policy) * gap (replay_gap policy) (unat round) < 2 ^ 64" "0 < round"
    using Cons.prems(2) by simp_all
  have split: "before ?D arrivals = before ?d arrivals @ before ?D (after ?d arrivals)"
    by (rule before_split) simp
  have D: "now + (\<Sum>round\<leftarrow>round # rounds. round_ns policy round) = ?D" by simp
  have aft: "after ?D (after ?d arrivals) = after ?D arrivals" by (rule after_after) simp
  have any: "(\<lambda>r. oldest = Some (rl_server_id r) \<or> 0 < round) = (\<lambda>_. True)" using bound(2) by simp
  obtain p1 e1 where r: "run_rounds x policy oldest (round # rounds) None p (now, arrivals) =
      (if answers x (before ?d arrivals) = []
       then run_rounds x policy oldest rounds None p1 (?d, after ?d arrivals)
       else Some (Ok (foldl keep None (until (\<lambda>_. True) (answers x (before ?d arrivals)))), p1, e1))"
    using run_round_timed [OF assms(1,2) Cons.prems(1) bound(1), of oldest rounds p] unfolding any by blast
  show ?case
  proof (cases "answers x (before ?d arrivals)")
    case Nil
    obtain p' e' where "run_rounds x policy oldest rounds None p1 (?d, after ?d arrivals) =
        Some (Ok (first (answers x (before ?D (after ?d arrivals)))), p', e')"
        "answers x (before ?D (after ?d arrivals)) = [] \<longrightarrow> e' = (?D, after ?D (after ?d arrivals))"
      using Cons.IH [of ?d "after ?d arrivals" p1] Cons.prems(2) by auto
    then show ?thesis using r Nil unfolding D by (simp add: split aft)
  next
    case (Cons r rs)
    then have "run_rounds x policy oldest (round # rounds) None p (now, arrivals) = Some (Ok (Some r), p1, e1)"
      using r by (simp add: foldl_keep_first)
    then show ?thesis using Cons unfolding D by (simp only: split answers_simps) simp
  qed
qed

lemma oldest_responder_mem: "oldest_responder rs = Some b \<Longrightarrow> b \<in> set rs"
  by (auto simp: oldest_responder_def find_Some_iff in_set_conv_nth)

text \<open>What the initial round keeps is the documented choice.\<close>

lemma initial_choice_kept:
  assumes "\<forall>r \<in> set rs. allowed_server_ids (ex_resolved x) = [] \<or> rl_server_id r \<in> set (allowed_server_ids (ex_resolved x))"
  shows "foldl keep None (until (\<lambda>r. oldest_server_id (ex_resolved x) = Some (rl_server_id r)) rs) =
    initial_choice (allowed_server_ids (ex_resolved x)) rs"
proof -
  let ?A = "allowed_server_ids (ex_resolved x)"
  let ?P = "\<lambda>r. oldest_server_id (ex_resolved x) = Some (rl_server_id r)"
  let ?Q = "\<lambda>r. ?A \<noteq> [] \<and> list_all (\<lambda>i. rl_server_id r \<le> i) ?A"
  have PQ: "?P r = ?Q r" if "r \<in> set rs" for r
  proof (cases "?A = []")
    case False
    then have "rl_server_id r \<in> set ?A" using assms that by blast
    then have "(Min (set ?A) = rl_server_id r) = (\<forall>i \<in> set ?A. rl_server_id r \<le> i)"
      by (metis List.finite_set Min_eqI Min_le)
    then show ?thesis using False by (simp add: oldest_server_Min list_all_iff)
  qed (simp add: oldest_server_Min)
  then have find: "find ?P rs = find ?Q rs" by (intro find_cong) simp_all
  show ?thesis
  proof (cases "find ?P rs")
    case None
    then have "\<forall>r \<in> set rs. \<not> ?P r" by (auto simp: find_None_iff)
    then have "until ?P rs = rs" using None by (simp add: until_def takeWhile_eq_all_conv)
    then show ?thesis using None find by (simp add: initial_choice_def foldl_keep)
  next
    case (Some r)
    then have r: "r \<in> set rs" "?P r" by (auto simp: find_Some_iff in_set_conv_nth)
    have "keep (oldest_responder (takeWhile (\<lambda>y. \<not> ?P y) rs)) r = Some r"
    proof (cases "oldest_responder (takeWhile (\<lambda>y. \<not> ?P y) rs)")
      case b: (Some b)
      from set_takeWhileD [OF oldest_responder_mem [OF this]] have mem: "b \<in> set rs" "\<not> ?P b" by simp_all
      have "?Q r" using PQ [OF r(1)] r(2) by (rule iffD1)
      then have A: "?A \<noteq> []" "\<forall>i \<in> set ?A. rl_server_id r \<le> i" by (simp_all only: list_all_iff) simp_all
      then have "rl_server_id b \<in> set ?A" using assms mem(1) by blast
      then have "rl_server_id r \<le> rl_server_id b" using A(2) by blast
      moreover have "rl_server_id r \<noteq> rl_server_id b" using mem(2) r(2) by auto
      ultimately have "rl_server_id r < rl_server_id b" by simp
      then show ?thesis using b by simp
    qed simp
    then show ?thesis using Some find by (simp add: initial_choice_def until_def foldl_keep)
  qed
qed

lemma answers_allowed:
  "r \<in> set (answers x arrivals) \<Longrightarrow>
    allowed_server_ids (ex_resolved x) = [] \<or> rl_server_id r \<in> set (allowed_server_ids (ex_resolved x))"
  by (induction arrivals) (auto split: option.splits dest: answer_allowed [OF sym])

section \<open>The exchange computes the documented choice\<close>

lemma rounds_upto_Cons:
  obtains rest where "rounds_upto n = 0 # rest" "\<forall>round \<in> set rest. 0 < round"
proof -
  have "(0 :: u32) < of_nat k" if "k \<in> set [1..<Suc (unat n)]" for k
  proof -
    have "k < 2 ^ LENGTH(32)" "0 < k" using that unsigned_less [of n, where 'a = nat] by auto
    then show ?thesis by (simp add: word_less_nat_alt unat_of_nat)
  qed
  then have "\<forall>round \<in> set (map of_nat [1..<Suc (unat n)]). (0 :: u32) < round"
    unfolding set_map by blast
  moreover have "rounds_upto n = 0 # map of_nat [1..<Suc (unat n)]"
    by (simp add: rounds_upto_def upt_conv_Cons del: upt_Suc)
  ultimately show thesis by (rule that [rotated])
qed

lemma rounds_in_horizon:
  assumes "horizon_spec policy < 2 ^ 64" "round \<in> set (rounds_upto (replay_count policy))"
  shows "unat (unit_ms policy) * gap (replay_gap policy) (unat round) < 2 ^ 64"
  using gap_below_horizon [OF assms(1) rounds_upto_bound [OF assms(2)]] .

lemma horizon_split:
  "1000000 * horizon_spec policy = (\<Sum>round\<leftarrow>rounds_upto (replay_count policy). round_ns policy round) +
    1000000 * (unat (unit_ms policy) * unat (final_receive_units policy))"
  using sum_list_rounds_upto [where f = "\<lambda>k. 1000000 * (unat (unit_ms policy) * gap (replay_gap policy) k)"
      and n = "replay_count policy"]
  by (simp add: horizon_spec_def horizon_units_def distrib_left sum_distrib_left)

lemma initial_choice_some: "rs \<noteq> [] \<Longrightarrow> initial_choice allowed rs \<noteq> None"
proof -
  have "foldl keep (Some b) qs \<noteq> None" for b qs by (induction qs arbitrary: b) simp_all
  then have "qs \<noteq> [] \<Longrightarrow> oldest_responder qs \<noteq> None" for qs
    unfolding foldl_keep [symmetric] by (cases qs) simp_all
  then show "rs \<noteq> [] \<Longrightarrow> initial_choice allowed rs \<noteq> None" by (simp add: initial_choice_def split: option.splits)
qed

text \<open>The end of the last round.\<close>

definition rounds_end :: "request_policy \<Rightarrow> nat \<Rightarrow> nat" where
  "rounds_end policy start = start + (\<Sum>round\<leftarrow>rounds_upto (replay_count policy). round_ns policy round)"

lemma rounds_end_horizon:
  "start + 1000000 * horizon_spec policy =
    rounds_end policy start + 1000000 * (unat (unit_ms policy) * unat (final_receive_units policy))"
  unfolding horizon_split rounds_end_def by simp

lemma initial_round_first:
  obtains rest where "rounds_upto (replay_count policy) = 0 # rest" "\<forall>round \<in> set rest. 0 < round"
    "rounds_end policy start = start + round_ns policy 0 + (\<Sum>round\<leftarrow>rest. round_ns policy round)"
  using rounds_upto_Cons [of "replay_count policy"] by (auto simp: rounds_end_def)

text \<open>All rounds together: the choice of the initial round, else the first answer after it.\<close>

lemma all_rounds_timed:
  assumes x: "timed_exchange x" and policy: "valid_policy policy" "horizon_spec policy < 2 ^ 32"
    and start: "pending start arrivals"
  defines "initial \<equiv> answers x (before (start + round_ns policy 0) arrivals)"
  defines "all \<equiv> answers x (before (rounds_end policy start) arrivals)"
  shows "\<exists>p' e'. run_rounds x policy (oldest_server_id (ex_resolved x)) (rounds_upto (replay_count policy)) None p
      (start, arrivals) =
    Some (Ok (if initial \<noteq> [] then initial_choice (allowed_server_ids (ex_resolved x)) initial else first all), p', e') \<and>
    (all = [] \<longrightarrow> e' = (rounds_end policy start, after (rounds_end policy start) arrivals))"
proof -
  let ?oldest = "oldest_server_id (ex_resolved x)"
  let ?d = "start + round_ns policy 0"
  let ?D = "rounds_end policy start"
  obtain rest where rest: "rounds_upto (replay_count policy) = 0 # rest" "\<forall>round \<in> set rest. 0 < round"
      "?D = ?d + (\<Sum>round\<leftarrow>rest. round_ns policy round)"
    using initial_round_first .
  have sched: "valid_schedule (replay_gap policy)" using policy(1) by (simp add: valid_policy_def)
  have fits: "unat (unit_ms policy) * gap (replay_gap policy) (unat round) < 2 ^ 64" if "round \<in> set (0 # rest)" for round
    using rounds_in_horizon [of policy round] policy(2) that rest(1) by simp
  have only: "(\<lambda>r. ?oldest = Some (rl_server_id r) \<or> (0 :: u32) < 0) = (\<lambda>r. ?oldest = Some (rl_server_id r))"
    by simp
  obtain p1 e1 where r: "run_rounds x policy ?oldest (0 # rest) None p (start, arrivals) =
      (if initial = [] then run_rounds x policy ?oldest rest None p1 (?d, after ?d arrivals)
       else Some (Ok (foldl keep None (until (\<lambda>r. ?oldest = Some (rl_server_id r)) initial)), p1, e1))"
    using run_round_timed [OF x sched start fits [OF list.set_intros(1)], of ?oldest rest p]
    unfolding only initial_def by (elim exE)
  have split: "all = initial @ answers x (before ?D (after ?d arrivals))"
    unfolding all_def initial_def using before_split [of ?d ?D arrivals] rest(3) by simp
  show ?thesis
  proof (cases "initial = []")
    case False
    have "foldl keep None (until (\<lambda>r. ?oldest = Some (rl_server_id r)) initial) =
        initial_choice (allowed_server_ids (ex_resolved x)) initial"
      by (rule initial_choice_kept) (use answers_allowed in \<open>auto simp: initial_def\<close>)
    then show ?thesis using r False split by (simp add: rest(1))
  next
    case True
    have bs: "\<forall>round \<in> set rest. 0 < round \<and> unat (unit_ms policy) * gap (replay_gap policy) (unat round) < 2 ^ 64"
      using rest(2) fits by simp
    obtain p2 e2 where "run_rounds x policy ?oldest rest None p1 (?d, after ?d arrivals) = Some (Ok (first all), p2, e2)"
        "all = [] \<longrightarrow> e2 = (?D, after ?D (after ?d arrivals))"
      using run_rounds_timed [OF x sched pending_after bs, of ?oldest p1 ?d arrivals, folded rest(3)] True split
      by auto
    moreover have "after ?D (after ?d arrivals) = after ?D arrivals" using after_after [of ?d ?D] rest(3) by simp
    ultimately show ?thesis using r True by (simp add: rest(1))
  qed
qed

lemma policy_outcome_timed:
  assumes x: "timed_exchange x" and policy: "valid_policy policy" "horizon_spec policy < 2 ^ 32"
    and start: "pending start arrivals"
  shows "\<exists>p' e'. policy_outcome x policy p (start, arrivals) =
    Some (Ok (documented_choice x policy start arrivals), p', e')"
proof -
  let ?D = "rounds_end policy start"
  let ?H = "start + 1000000 * horizon_spec policy"
  let ?initial = "answers x (before (start + round_ns policy 0) arrivals)"
  let ?all = "answers x (before ?D arrivals)"
  let ?F = "1000000 * (unat (unit_ms policy) * unat (final_receive_units policy))"
  have D: "?D \<le> ?H" "?H = ?D + ?F" unfolding rounds_end_horizon by simp_all
  obtain p1 e1 where r: "run_rounds x policy (oldest_server_id (ex_resolved x)) (rounds_upto (replay_count policy))
      None p (start, arrivals) = Some (Ok (if ?initial \<noteq> []
        then initial_choice (allowed_server_ids (ex_resolved x)) ?initial else first ?all), p1, e1)"
      "?all = [] \<longrightarrow> e1 = (?D, after ?D arrivals)"
    using all_rounds_timed [OF assms, of p] by blast
  have first_all: "first (answers x (before ?H arrivals)) =
      (if ?all = [] then first (answers x (before ?H (after ?D arrivals))) else first ?all)"
    unfolding before_split [OF D(1), of arrivals] by (simp add: first_append split: list.splits)
  have doc: "documented_choice x policy start arrivals = (if ?initial \<noteq> []
      then initial_choice (allowed_server_ids (ex_resolved x)) ?initial else first (answers x (before ?H arrivals)))"
    by (simp add: documented_choice_def Let_def)
  show ?thesis
  proof (cases "?initial = [] \<and> ?all = []")
    case False
    then have "documented_choice x policy start arrivals \<noteq> None" "?initial = [] \<Longrightarrow> ?all \<noteq> []"
      using initial_choice_some [of ?initial] by (auto simp: doc first_all split: list.splits)
    then show ?thesis using r(1) False by (auto simp: policy_outcome_def doc first_all split: if_splits list.splits)
  next
    case silent: True
    show ?thesis
    proof (cases "final_receive_units policy = 0")
      case True
      then have "?H = ?D" using D(2) by simp
      then show ?thesis using r silent True by (simp add: policy_outcome_def doc)
    next
      case False
      have "horizon_spec policy < 2 ^ 64" using policy(2) by simp
      then have ns: "window_ns policy (final_receive_units policy) = ?F"
        by (rule window_ns_exact [OF final_below_horizon])
      have "?D < ?D + k \<or> pending (?D + k) (after ?D arrivals)" for k by (cases k) simp_all
      then have entry: "?D < ?H \<or> pending ?H (after ?D arrivals)" unfolding D(2) by blast
      obtain p3 e3 where "final_window x ?H p1 (?D, after ?D arrivals) =
          Some (first (answers x (before ?H (after ?D arrivals))), p3, e3)"
        using final_window_timed [OF x entry D(1), of p1] by blast
      moreover have "documented_choice x policy start arrivals = first (answers x (before ?H (after ?D arrivals)))"
        using silent by (simp add: doc first_all)
      ultimately show ?thesis using r silent False ns unfolding D(2)
        by (simp add: policy_outcome_def timed_clock [OF x] word_gt_0 Let_def)
    qed
  qed
qed

text \<open>
  C2: the exchange computes the selection algorithm of \<open>docs/ha-policy.md\<close>: for any
  arrivals, the answer of the oldest server when it comes within the initial round, else
  the oldest responder's of that round, else the first answer before the horizon, else a
  timeout.
\<close>

theorem exchange_implements_policy:
  assumes "timed_exchange x" "valid_policy policy" "horizon_spec policy < 2 ^ 32" "pending start arrivals"
  shows "\<exists>p' e'. exchange_request x policy ttl p (start, arrivals) =
    Some (case documented_choice x policy start arrivals of Some r \<Rightarrow> Ok r | None \<Rightarrow> Err CoreTimeout, p', e')"
proof -
  obtain p1 e1 where po: "policy_outcome x policy p (start, arrivals) =
      Some (Ok (documented_choice x policy start arrivals), p1, e1)"
    using policy_outcome_timed [OF assms] by blast
  obtain p2 where "send_to_missing x p1 e1 = (Ok (), p2, e1)" using send_to_missing_timed [OF assms(1)] .
  then show ?thesis using po
    by (cases "documented_choice x policy start arrivals")
      (auto simp: exchange_request_def timed_clock [OF assms(1)] Let_def)
qed

text \<open>
  Server 7 answers after 5 ms; the older server 3 answers within the initial round of
  20 ms, after it, or nobody answers within the horizon of 60 ms.
\<close>

definition sample_timed :: "(nat \<times> arrivals) exchange" where
  "sample_timed = \<lparr>clock = (\<lambda>e. (fst e, e)), receive = timed_receive,
     transmit = (\<lambda>s b a e. (Ok (length b), e)),
     ex_cipher = (\<lambda>_ _ _ _. None), ex_auth_method = AuthNone, ex_cookie_hash = None, ex_aes_key = None,
     ex_sockets = \<lparr>fs_v4 = Some \<lparr>sock_ipv6 = False, sock_port = 5000\<rparr>, fs_v6 = None, fs_v6_first = False\<rparr>,
     ex_packet = replicate 64 0, ex_resolved = sample_targets\<rparr>"

definition sample_packet :: "u64 \<Rightarrow> response_packet" where
  "sample_packet i = \<lparr>rp_data = sample_response i, rp_addr = SocketV4 1 100\<rparr>"

theorem exchange_implements_policy_witness:
  "(\<exists>p' e'. exchange_request sample_timed default_policy 40 fresh_progress
      (0, [(5000000, sample_packet 7), (9000000, sample_packet 3)]) = Some (Ok (sample_answer 3), p', e')) \<and>
   (\<exists>p' e'. exchange_request sample_timed default_policy 40 fresh_progress
      (0, [(5000000, sample_packet 7), (29000000, sample_packet 3)]) = Some (Ok (sample_answer 7), p', e')) \<and>
   (\<exists>p' e'. exchange_request sample_timed default_policy 40 fresh_progress
      (0, [(60000000, sample_packet 3)]) = Some (Err CoreTimeout, p', e'))"
proof -
  have timed: "timed_exchange sample_timed"
    by (auto simp: timed_exchange_def sample_timed_def sample_targets_def send_to_def send_socket_def)
  have policy: "valid_policy default_policy" "horizon_spec default_policy < 2 ^ 32"
      "horizon_spec default_policy = 60" "unat (unit_ms default_policy) * gap (replay_gap default_policy) 0 = 20"
    by (simp_all add: valid_policy_def default_policy_def fixed_def valid_schedule_def MAX_REPLAY_COUNT_def
        horizon_spec_def horizon_units_def gap_def)
  have ans: "answer_of sample_timed (sample_packet 3) = Some (sample_answer 3)"
      "answer_of sample_timed (sample_packet 7) = Some (sample_answer 7)"
    by (simp_all add: answer_of_def sample_timed_def sample_packet_def sample_parse sample_targets_def)
      (simp_all add: sample_answer_def)
  have ids: "rl_server_id (sample_answer i) = i" for i by (simp add: sample_answer_def)
  have allowed: "allowed_server_ids (ex_resolved sample_timed) = [3, 7]"
    by (simp add: sample_timed_def sample_targets_def)
  note choice = documented_choice_def policy(3,4) ans ids allowed initial_choice_def oldest_responder_def Let_def
  have pend: "pending 0 arrivals" for arrivals by (simp add: pending_def split: list.splits)
  note run = exchange_implements_policy [OF timed policy(1,2) pend, of 40 fresh_progress]
  have "documented_choice sample_timed default_policy 0 [(5000000, sample_packet 7), (9000000, sample_packet 3)] =
      Some (sample_answer 3)"
    by (simp add: choice)
  moreover have "documented_choice sample_timed default_policy 0 [(5000000, sample_packet 7), (29000000, sample_packet 3)] =
      Some (sample_answer 7)"
    by (simp add: choice)
  moreover have "documented_choice sample_timed default_policy 0 [(60000000, sample_packet 3)] = None"
    by (simp add: choice)
  ultimately show ?thesis
    using run [of "[(5000000, sample_packet 7), (9000000, sample_packet 3)]"]
      run [of "[(5000000, sample_packet 7), (29000000, sample_packet 3)]"] run [of "[(60000000, sample_packet 3)]"]
    by simp
qed

end
