(* ===== verification/EndToEnd.thy ===== *)
theory EndToEnd
  imports PublicClient HaSelection
begin

text \<open>
  Facts that span components: the identifiers a request carries, the answers that reach
  a request through the router, what a decision rests on, and what a report sends.
\<close>

section \<open>Identifiers on the wire\<close>

lemma content_id_error_type:
  "content_id hash c = (Ok i :: (bytes, 'x) res) \<Longrightarrow> content_id hash c = (Ok i :: (bytes, 'y) res)"
  by (cases c) (auto simp: derive_bucket_id_bytes_def derive_latency_tracker_id_bytes_def
      derive_content_id_def slice_def split: if_splits)

lemma resource_new_id:
  assumes "resource_new hash name window limit = Ok r"
  shows "content_id hash (BucketContent (as_bytes (r_name r)) (r_window_ms r) (r_rate_limit r)) =
    (Ok (r_id r) :: (bytes, 'x) res)"
proof (rule content_id_error_type)
  show "content_id hash (BucketContent (as_bytes (r_name r)) (r_window_ms r) (r_rate_limit r)) =
      (Ok (r_id r) :: (bytes, error) res)"
    using assms by (auto simp: resource_new_def derive_bucket_id_def outcome_simps split: if_splits)
qed

lemma tracker_build_id:
  assumes "tracker_build hash tb = Ok t"
  shows "content_id hash (TrackerContent (as_bytes (t_name t)) (t_sample_ttl_ms t) (t_max_samples t) (t_min_samples t)) =
    (Ok (t_id t) :: (bytes, 'x) res)"
proof (rule content_id_error_type)
  show "content_id hash (TrackerContent (as_bytes (t_name t)) (t_sample_ttl_ms t) (t_max_samples t) (t_min_samples t)) =
      (Ok (t_id t) :: (bytes, error) res)"
    using assms by (auto simp: tracker_build_def derive_latency_tracker_id_def outcome_simps split: if_splits)
qed

lemma consume_appends:
  assumes "consume r tokens b = Ok b'"
  obtains n where "rb_resources b' = rb_resources b @
      [\<lparr>rr_bucket_name = r_name r, rr_window_size_ms = r_window_ms r, rr_rate_limit = r_rate_limit r,
        rr_tokens_requested = n\<rparr>]" "unat n = unat tokens" "0 < n"
proof -
  obtain n where n: "checked_tokens tokens = Some n" using assms by (auto simp: consume_def split: option.splits)
  show thesis using that [of n] assms n checked_tokens_pos [OF n]
    by (auto simp: consume_def split: if_splits)
qed

lemma guard_appends:
  assumes "guard t threshold b = Ok b'"
  obtains ms where "duration_to_u32_ms threshold ''latency threshold'' = Ok ms"
    "rb_guards b' = rb_guards b @
      [\<lparr>lg_latency_tracker_name = t_name t, lg_threshold_ms = ms, lg_ttl_ms = t_sample_ttl_ms t,
        lg_max_samples = t_max_samples t, lg_min_sample_threshold = t_min_samples t\<rparr>]"
  using assms by (auto simp: guard_def outcome_simps split: if_splits)

lemma resource_on_wire:
  assumes "resource_new hash name window limit = Ok r" "consume r tokens b = Ok b'"
    and "build_rate_request_body hash (rb_resources b') gs label = Ok body" "build_rate_request_pdu ttl body = Ok pdu"
  shows "\<exists>block. read_resource (drop (12 + 36 * length gs + 28 * length (rb_resources b)) pdu) = Ok block \<and>
    rb_bucket_id block = r_id r \<and> rb_window_size_ms block = r_window_ms r \<and> rb_rate_limit block = r_rate_limit r \<and>
    unat (rb_tokens_requested block) = unat tokens"
proof -
  obtain n where n: "rb_resources b' = rb_resources b @
      [\<lparr>rr_bucket_name = r_name r, rr_window_size_ms = r_window_ms r, rr_rate_limit = r_rate_limit r,
        rr_tokens_requested = n\<rparr>]" "unat n = unat tokens"
    using consume_appends [OF assms(2)] by metis
  let ?rr = "rb_resources b' ! length (rb_resources b)"
  have rr: "?rr = \<lparr>rr_bucket_name = r_name r, rr_window_size_ms = r_window_ms r, rr_rate_limit = r_rate_limit r,
      rr_tokens_requested = n\<rparr>" "length (rb_resources b) < length (rb_resources b')"
    by (simp_all add: n(1))
  then have "resource_id hash ?rr = Ok (r_id r)"
    using resource_new_id [OF assms(1)] by (simp add: resource_id_def del: content_id.simps)
  moreover obtain i where "resource_id hash ?rr = Ok i"
      "read_resource (drop (12 + 36 * length gs + 28 * length (rb_resources b)) pdu) = Ok (resource_block_of i ?rr)"
    using rate_request_pdu_reads [OF assms(3,4)] rr(2) by blast
  ultimately show ?thesis using n(2) unfolding rr(1) by (simp add: resource_block_of_def)
qed

lemma tracker_on_wire:
  assumes "tracker_build hash tb = Ok t" "guard t threshold b = Ok b'"
    and "build_rate_request_body hash rs (rb_guards b') label = Ok body" "build_rate_request_pdu ttl body = Ok pdu"
  shows "\<exists>block. read_guard (drop (12 + 36 * length (rb_guards b)) pdu) = Ok block \<and>
    gb_latency_tracker_id block = t_id t \<and> duration_to_u32_ms threshold ''latency threshold'' = Ok (gb_latency_threshold block)"
proof -
  obtain ms where ms: "duration_to_u32_ms threshold ''latency threshold'' = Ok ms"
    "rb_guards b' = rb_guards b @
      [\<lparr>lg_latency_tracker_name = t_name t, lg_threshold_ms = ms, lg_ttl_ms = t_sample_ttl_ms t,
        lg_max_samples = t_max_samples t, lg_min_sample_threshold = t_min_samples t\<rparr>]"
    using guard_appends [OF assms(2)] by metis
  let ?g = "rb_guards b' ! length (rb_guards b)"
  have g: "?g = \<lparr>lg_latency_tracker_name = t_name t, lg_threshold_ms = ms, lg_ttl_ms = t_sample_ttl_ms t,
        lg_max_samples = t_max_samples t, lg_min_sample_threshold = t_min_samples t\<rparr>"
      "length (rb_guards b) < length (rb_guards b')"
    by (simp_all add: ms(2))
  then have "guard_id hash ?g = Ok (t_id t)"
    using tracker_build_id [OF assms(1)] by (simp add: guard_id_def del: content_id.simps)
  moreover obtain i where "guard_id hash ?g = Ok i"
      "read_guard (drop (12 + 36 * length (rb_guards b)) pdu) = Ok (guard_block_of i ?g)"
    using rate_request_pdu_reads [OF assms(3,4)] g(2) by blast
  ultimately show ?thesis using ms(1) unfolding g(1) by (simp add: guard_block_of_def)
qed

lemma tracker_id_length: "tracker_build hash tb = Ok t \<Longrightarrow> length (t_id t) = 16"
  using content_id_OkD tracker_build_id by blast

text \<open>A report names the tracker by the same identifier as a guard on it.\<close>

lemma report_on_wire:
  assumes "tracker_build hash tb = Ok t" "build_latency_report_body hash [report_of t observed] = Ok body"
  shows "body = to_le 2 (1 :: u16) @ replicate 2 0 @ latency_wire (latency_block_of (t_id t) (report_of t observed))"
proof -
  have i: "report_id hash (report_of t observed) = Ok (t_id t)"
    using tracker_build_id [OF assms(1)] by (simp add: report_id_def report_of_def del: content_id.simps)
  then have "length (t_id t) = 16" using content_id_OkD unfolding report_id_def by blast
  then have "wf_latency (latency_block_of (t_id t) (report_of t observed))"
    by (simp add: wf_latency_def latency_block_of_def)
  then show ?thesis using assms(2) i
    by (simp add: build_latency_report_body_def report_append.loop_Cons latency_writer.append_block_wire Let_def
        del: append_reports.simps(2))
qed

section \<open>Answers to a request\<close>

text \<open>
  A server's answer: a packet whose header names the request, whose frame the credential
  authenticates and whose PDU is a rate response.
\<close>

definition server_answer ::
  "'e world \<Rightarrow> core_client \<Rightarrow> bytes \<Rightarrow> tenant_header \<Rightarrow> guard_block list \<Rightarrow> resource_block list \<Rightarrow> bytes \<Rightarrow> bool"
where
  "server_answer w cl request_id h gs rs data \<longleftrightarrow> th_unique_id h = request_id \<and>
    (\<exists>ext frame reserved params rest. tenant_shape h ext \<and> data = tenant_wire h @ ext @ frame \<and>
      response_shape gs rs reserved params \<and>
      auth_frame (w_open w) (client_auth cl) (tenant_wire h @ ext) frame (response_pdu gs rs reserved params rest))"

definition answer_result :: "tenant_header \<Rightarrow> guard_block list \<Rightarrow> resource_block list \<Rightarrow> rate_limit_result" where
  "answer_result h gs rs = response_result gs rs (th_key_id h) (th_steering_feedback h \<noteq> 0)"

definition allowed_server :: "resolved_targets \<Rightarrow> u64 \<Rightarrow> bool" where
  "allowed_server resolved i \<longleftrightarrow> allowed_server_ids resolved = [] \<or> i \<in> set (allowed_server_ids resolved)"

lemma server_answer_named: "server_answer w cl request_id h gs rs data \<Longrightarrow> names_request data request_id"
  by (auto simp: server_answer_def names_request_def parse_tenant_complete)

lemma exchange_caches:
  assumes "client_inv w cl" "same_client cl cl1"
  shows "parse_rate_response_with_auth (ex_cipher (exchange_of w cl1 i packet resolved)) data
      (ex_auth_method (exchange_of w cl1 i packet resolved)) (ex_cookie_hash (exchange_of w cl1 i packet resolved))
      (ex_aes_key (exchange_of w cl1 i packet resolved)) =
    parse_rate_response_with_auth (w_open w) data (client_auth cl)
      (cookie_hash_cache (client_auth cl)) (aes_key_cache (client_auth cl))"
  using assms by (simp add: exchange_of_def client_inv_def same_client_def client_auth_def)

text \<open>The exchange accepts exactly the answers of allowed servers.\<close>

lemma answer_of_iff:
  assumes "client_inv w cl" "same_client cl cl1" "names_request (rp_data k) request_id"
  shows "answer_of (exchange_of w cl1 request_id packet resolved) k = Some result \<longleftrightarrow>
    (\<exists>h gs rs. server_answer w cl request_id h gs rs (rp_data k) \<and> allowed_server resolved (th_key_id h) \<and>
      result = answer_result h gs rs)"
  (is "?accepted \<longleftrightarrow> ?answer")
proof
  assume ?accepted
  then have p: "parse_rate_response_with_auth (w_open w) (rp_data k) (client_auth cl)
      (cookie_hash_cache (client_auth cl)) (aes_key_cache (client_auth cl)) = Ok result"
      "allowed_server resolved (rl_server_id result)"
    unfolding answer_of_def exchange_caches [OF assms(1,2)]
    by (auto simp: exchange_of_def allowed_server_def split: res.splits if_splits)
  then obtain h ext frame pdu where t: "tenant_shape h ext" "rp_data k = tenant_wire h @ ext @ frame"
      "auth_frame (w_open w) (client_auth cl) (tenant_wire h @ ext) frame pdu"
      "parse_rate_response_pdu pdu (th_key_id h) (th_steering_feedback h \<noteq> 0) = Ok result"
    unfolding parse_rate_response_iff by blast
  obtain gs rs reserved params rest where s: "response_shape gs rs reserved params"
      "pdu = response_pdu gs rs reserved params rest" "result = answer_result h gs rs"
    using parse_response_pdu_sound [OF t(4)] unfolding answer_result_def by blast
  have "th_unique_id h = request_id"
    using assms(3) parse_tenant_complete [OF t(1), of frame] t(2) by (auto simp: names_request_def)
  then have "server_answer w cl request_id h gs rs (rp_data k)"
    using t s unfolding server_answer_def by blast
  then show ?answer using p(2) s(3) by (auto simp: answer_result_def response_result_def)
next
  assume ?answer
  then obtain h gs rs where a: "server_answer w cl request_id h gs rs (rp_data k)"
      "allowed_server resolved (th_key_id h)" "result = answer_result h gs rs" by blast
  then obtain ext frame reserved params rest where t: "tenant_shape h ext" "rp_data k = tenant_wire h @ ext @ frame"
      "response_shape gs rs reserved params"
      "auth_frame (w_open w) (client_auth cl) (tenant_wire h @ ext) frame (response_pdu gs rs reserved params rest)"
    unfolding server_answer_def by blast
  have "parse_rate_response_with_auth (w_open w) (rp_data k) (client_auth cl)
      (cookie_hash_cache (client_auth cl)) (aes_key_cache (client_auth cl)) = Ok result"
    unfolding parse_rate_response_iff
    using t a(3) parse_response_pdu_complete [OF t(3)] unfolding answer_result_def by blast
  then show ?accepted
    unfolding answer_of_def exchange_caches [OF assms(1,2)]
    using a(2,3) by (simp add: exchange_of_def allowed_server_def answer_result_def response_result_def)
qed

section \<open>The exchange behind a successful check\<close>

lemma prepare_same_client:
  assumes "sound_world w" "client_inv w cl" "names_short rs gs"
    and "prepare_request w rs gs label (cl, e) = (q, cl1, e1)"
  shows "same_client cl cl1 \<and> client_inv w cl1"
  using prepare_request_cases [OF assms(1-3), of label e] client_inv_updates(1) [OF assms(2)] assms(4)
  by auto

lemma run_request_OkD:
  assumes "run_request w ttl resolved i packet (cl1, e1) = Some (Ok result, cl', e')"
  shows "\<exists>cl2 p p' e2. same_client cl1 cl2 \<and> seen_server_ids p = {} \<and> seen_addrs p = {} \<and>
    exchange_request (exchange_of w cl2 i packet resolved) (effective_request_policy (cl_config cl1)) ttl p e1 =
      Some (Ok result, p', e2)"
proof -
  let ?cl = "cl1\<lparr>cl_inflight := insert i (cl_inflight cl1)\<rparr>"
  obtain sel p' e2 where x: "exchange_request (exchange_of w ?cl i packet resolved)
      (effective_request_policy (cl_config ?cl)) ttl (progress_of ?cl) e1 = Some (sel, p', e2)"
    using assms by (auto simp: run_request_def Let_def split: option.splits)
  have "sel = Ok result"
    using assms x by (cases sel) (auto simp: run_request_def Let_def outcome_simps split: prod.splits)
  moreover have "same_client cl1 ?cl" "seen_server_ids (progress_of ?cl) = {}" "seen_addrs (progress_of ?cl) = {}"
    by (simp_all add: progress_of_def)
  ultimately show ?thesis using x by (intro exI [of _ ?cl]) auto
qed

lemma check_OkD:
  assumes "check_rate_limit w rs gs label (cl, e) = Some (Ok result, cl', e')" "rs \<noteq> [] \<or> gs \<noteq> []"
  obtains ttl resolved i packet cl1 e1 where
    "prepare_request w rs gs label (cl, e) = (Ok (ttl, resolved, i, packet), cl1, e1)"
    "run_request w ttl resolved i packet (cl1, e1) = Some (Ok result, cl', e')"
proof -
  obtain q cl1 e1 where p: "prepare_request w rs gs label (cl, e) = (q, cl1, e1)" by (metis prod_cases3)
  have "q \<noteq> Panic" "\<forall>error. q \<noteq> Err error"
    using assms p by (auto simp: check_rate_limit_def split: res.splits if_splits)
  then obtain ttl resolved i packet where "q = Ok (ttl, resolved, i, packet)"
    by (cases q) auto
  with p assms show thesis
    by (intro that [of ttl resolved i packet cl1 e1]) (auto simp: check_rate_limit_def split: res.splits if_splits)
qed

text \<open>What the response router guarantees: a request receives what names it.\<close>

definition routed_world :: "'e world \<Rightarrow> bool" where
  "routed_world w \<longleftrightarrow> (\<forall>i t e k e'. w_receive w i t e = (Some k, e') \<longrightarrow> names_request (rp_data k) i)"

lemma check_authentic:
  assumes "sound_world w" "routed_world w" "client_inv w cl" "names_short rs gs" "rs \<noteq> [] \<or> gs \<noteq> []"
    and "check_rate_limit w rs gs label (cl, e) = Some (Ok result, cl', e')"
  shows "\<exists>ttl resolved request_id packet cl1 e1 k h gbs rbs.
    prepare_request w rs gs label (cl, e) = (Ok (ttl, resolved, request_id, packet), cl1, e1) \<and>
    (\<exists>t e2 e3. w_receive w request_id t e2 = (Some k, e3)) \<and>
    server_answer w cl request_id h gbs rbs (rp_data k) \<and> allowed_server resolved (th_key_id h) \<and>
    result = answer_result h gbs rbs"
proof -
  obtain ttl resolved i packet cl1 e1 where
    p: "prepare_request w rs gs label (cl, e) = (Ok (ttl, resolved, i, packet), cl1, e1)" and
    r: "run_request w ttl resolved i packet (cl1, e1) = Some (Ok result, cl', e')"
    using check_OkD [OF assms(6,5)] by blast
  have cl1: "same_client cl cl1" using prepare_same_client [OF assms(1,3,4) p] by blast
  obtain cl2 q q' e2 where x: "same_client cl1 cl2" "seen_server_ids q = {}" "seen_addrs q = {}"
      "exchange_request (exchange_of w cl2 i packet resolved) (effective_request_policy (cl_config cl1)) ttl q e1 =
        Some (Ok result, q', e2)"
    using run_request_OkD [OF r] by blast
  have "received_answer (exchange_of w cl2 i packet resolved) result"
    using exchange_request_selection [OF x(4,2,3)] by simp
  then obtain k t e3 e4 where k: "w_receive w i t e3 = (Some k, e4)"
      "answer_of (exchange_of w cl2 i packet resolved) k = Some result"
    by (auto simp: received_answer_def exchange_of_def)
  then have "names_request (rp_data k) i" using assms(2) unfolding routed_world_def by blast
  from k(2) [unfolded answer_of_iff [OF assms(3) same_client_trans [OF cl1 x(1)] this]] p k(1)
  show ?thesis by blast
qed

section \<open>Routing an answer\<close>

text \<open>
  Every inbox holds only packets that name its request, so a world whose receptions come
  from the inboxes of \<open>Router\<close> is routed.
\<close>

definition named_inboxes :: "inboxes \<Rightarrow> bool" where
  "named_inboxes m \<longleftrightarrow> (\<forall>i q k. m i = Some q \<longrightarrow> k \<in> set q \<longrightarrow> names_request (rp_data k) i)"

lemma named_inboxes_step: "named_inboxes m \<Longrightarrow> named_inboxes (inbox_step ts ev m)"
proof (cases ev)
  case (Received r)
  assume "named_inboxes m"
  then show ?thesis using Received
    by (cases r) (auto simp: named_inboxes_def Let_def split: if_splits)
next
  case (Taken i)
  have tl: "k \<in> set (tl q) \<Longrightarrow> k \<in> set q" for k and q :: "response_packet list" by (cases q) auto
  assume "named_inboxes m"
  then show ?thesis using Taken by (auto simp: named_inboxes_def dest: tl)
qed (auto simp: named_inboxes_def)

lemma named_inboxes_run: "named_inboxes m \<Longrightarrow> named_inboxes (fold (inbox_step ts) evs m)"
  by (induction evs arbitrary: m) (simp_all add: named_inboxes_step)

lemma routed_channels:
  assumes "fresh_channels ts evs empty_router" "inflight (fold (router_step ts) evs empty_router) i = Some c"
    and "take_packet c (fold (router_step ts) evs empty_router) = (Some k, s')"
  shows "names_request (rp_data k) i"
proof -
  let ?s = "fold (router_step ts) evs empty_router"
  have "channels_distinct empty_router" "inboxes_of empty_router = Map.empty"
    by (auto simp: channels_distinct_def inboxes_of_def empty_router_def)
  then have m: "inboxes_of ?s = fold (inbox_step ts) evs Map.empty"
    using router_refines [OF _ assms(1)] by simp
  have "named_inboxes (Map.empty :: inboxes)" by (simp add: named_inboxes_def)
  then have "named_inboxes (inboxes_of ?s)" unfolding m by (rule named_inboxes_run)
  moreover have "inboxes_of ?s i = Some (channels ?s c)" using assms(2) by (simp add: inboxes_of_def)
  moreover have "k \<in> set (channels ?s c)" using assms(3) by (auto simp: take_packet_def split: list.splits)
  ultimately show ?thesis unfolding named_inboxes_def by blast
qed

lemma route_answer:
  assumes "names_request data i" "length data \<le> BUFFER_LEN ts" "inflight s i = Some c"
  shows "channels (snd (route ts (Datagram data addr) s)) =
    (channels s)(c := channels s c @ [\<lparr>rp_data = data, rp_addr = addr\<rparr>])"
  using assms by (auto simp: route_eq names_request_def Let_def)

lemma answer_accepted:
  assumes "client_inv w cl" "same_client cl cl1" "server_answer w cl i h gbs rbs data"
    and "allowed_server resolved (th_key_id h)"
  shows "\<exists>p' e'. accept_policy_response (exchange_of w cl1 i packet resolved) \<lparr>rp_data = data, rp_addr = addr\<rparr> p e =
      (Some (answer_result h gbs rbs), p', e') \<and>
    seen_server_ids p' = insert (th_key_id h) (seen_server_ids p) \<and> seen_addrs p' = insert addr (seen_addrs p)"
proof -
  let ?k = "\<lparr>rp_data = data, rp_addr = addr\<rparr>"
  have "names_request (rp_data ?k) i" using server_answer_named [OF assms(3)] by simp
  from answer_of_iff [OF assms(1,2) this] assms(3,4)
  have "answer_of (exchange_of w cl1 i packet resolved) ?k = Some (answer_result h gbs rbs)" by auto
  then show ?thesis
    by (cases "clock (exchange_of w cl1 i packet resolved) e")
      (simp add: accept_eq answer_result_def response_result_def)
qed

section \<open>What a report sends\<close>

lemma targets_now_servers:
  assumes "sound_world w" "client_inv w cl"
  shows "\<exists>r. targets_now w (cl, e) = (Ok r, cl, e) \<and>
    targets r = map (target_of (w_parse_ip w)) (servers (cl_discovery cl))"
proof -
  have "discovered (w_ip_text w) (cl_discovery cl)" "\<forall>ip. w_parse_ip w (w_ip_text w ip) = Some ip"
    using assms by (simp_all add: client_inv_def sound_world_def)
  from current_targets_ok [OF this, of "w_lookup_ip w" e] show ?thesis by (auto simp: targets_now_def)
qed

lemma report_latency_sends:
  assumes "sound_world w" "client_inv w cl" "list_all (\<lambda>r. short_name (lr_latency_tracker_name r)) reports"
    and "reports \<noteq> []" "report_latency w reports (cl, e) = (r, cl', e')"
  shows "(\<exists>error. r = Err error \<and> cl_sent cl' = cl_sent cl) \<or>
    (\<exists>i packet pdu rs. and_then (build_latency_report_body (w_hash w) reports) (build_pdu PDU_LATENCY_REPORT) = Ok pdu \<and>
      packet_for w cl i pdu packet \<and> length rs = length (servers (cl_discovery cl')) \<and>
      cl_sent cl' = cl_sent cl @ map (\<lambda>(t, res). (length packet, t, res))
        (zip (map (target_of (w_parse_ip w)) (servers (cl_discovery cl'))) rs) \<and>
      r = (if rs \<noteq> [] \<and> length (failures rs) = length rs then Err (CoreIo (last (failures rs))) else Ok ()))"
proof -
  obtain q d e1 where rf: "refresh_if_due w (cl, e) = (q, cl\<lparr>cl_discovery := d\<rparr>, e1)" "discovered (w_ip_text w) d"
      "q = Ok () \<or> q = Err (CoreDns (Text ''No SRV servers found''))"
    using refresh_cases_client [OF assms(2), of e] by (elim exE conjE)
  let ?cl = "cl\<lparr>cl_discovery := d\<rparr>"
  have inv: "client_inv w ?cl" using client_inv_updates(1) [OF assms(2) rf(2)] .
  let ?pdu = "and_then (build_latency_report_body (w_hash w) reports) (build_pdu PDU_LATENCY_REPORT)"
  have "protocol_only ?pdu" using assms(1,3) by (intro report_pdu_errors) (simp_all add: sound_world_def)
  from request_packet_cases [OF assms(1) inv this] obtain k e2 where
    k: "request_packet w ?pdu (?cl, e1) = (k, ?cl, e2)" "protocol_only k"
      "\<forall>i packet. k = Ok (i, packet) \<longrightarrow> (\<exists>body. ?pdu = Ok body \<and> packet_for w ?cl i body packet)"
    by blast
  have same_packet: "packet_for w ?cl i body packet = packet_for w cl i body packet" for i body packet
    by (simp add: packet_for_def client_auth_def)
  show ?thesis
  proof (cases "q = Ok () \<and> (\<exists>ip. k = Ok ip)")
    case False
    then have "\<exists>error. r = Err error \<and> cl' = ?cl"
      using assms(4,5) rf k(1,2) by (cases k) (auto simp: report_latency_def)
    then show ?thesis by auto
  next
    case True
    then obtain i packet where ok: "q = Ok ()" "k = Ok (i, packet)" by auto
    obtain pdu where pdu: "?pdu = Ok pdu" "packet_for w cl i pdu packet" using k(3) ok(2) same_packet by blast
    obtain res where t: "targets_now w (?cl, e2) = (Ok res, ?cl, e2)"
        "targets res = map (target_of (w_parse_ip w)) (servers d)"
      using targets_now_servers [OF assms(1) inv, of e2] by auto
    let ?x = "exchange_of w ?cl i packet res"
    have fresh: "seen_server_ids (progress_of ?cl) = {}" "seen_addrs (progress_of ?cl) = {}"
        "send_results (progress_of ?cl) = []"
      by (simp_all add: progress_of_def)
    have missing: "missing_targets ?x (progress_of ?cl) = targets res"
      using nobody_responded [OF fresh(1,2), of ?x] by (simp add: exchange_of_def)
    obtain rs r1 p e3 where s: "send_to_missing ?x (progress_of ?cl) e2 = (r1, p, e3)"
        "length rs = length (targets res)" "send_results p = zip (targets res) rs"
        "r1 = (if rs \<noteq> [] \<and> length (failures rs) = length rs then Err (CoreIo (last (failures rs))) else Ok ())"
      using send_to_missing_cases [of ?x "progress_of ?cl" e2] unfolding missing fresh(3) by auto
    have "report_to_all ?x (progress_of ?cl) e2 = (r1, p, e3)"
      using report_fan_out [OF fresh(1,2), of ?x e2] s(1) by simp
    then have "r = r1" "cl' = note_progress packet p ?cl"
      using assms(4,5) rf(1) k(1) ok t(1) by (simp_all add: report_latency_def)
    then show ?thesis using pdu s(2,3,4) t(2)
      by (intro disjI2 exI [of _ i] exI [of _ packet] exI [of _ pdu] exI [of _ rs])
        (simp add: note_progress_def)
  qed
qed

section \<open>A routed world\<close>

text \<open>The small world, in which a request receives only what names it.\<close>

definition sample_routed :: "(nat \<times> response_packet list) world" where
  "sample_routed = sample_world\<lparr>w_receive := (\<lambda>i t e. case snd e of
     [] \<Rightarrow> (None, (fst e + t, []))
   | k # ks \<Rightarrow> if peek_request_id (rp_data k) = Ok (Some i) then (Some k, (fst e, ks)) else (None, (fst e + t, k # ks)))\<rparr>"

definition sample_reply :: response_packet where
  "sample_reply = \<lparr>rp_data = sample_response 3, rp_addr = SocketV4 7 100\<rparr>"

lemma sample_routed_fields:
  "w_clock sample_routed = w_clock sample_world" "w_system_time_ms sample_routed = w_system_time_ms sample_world"
  "w_new_uuid sample_routed = w_new_uuid sample_world" "w_nonce sample_routed = w_nonce sample_world"
  "w_resolver sample_routed = w_resolver sample_world" "w_srv_lookup sample_routed = w_srv_lookup sample_world"
  "w_lookup_ip sample_routed = w_lookup_ip sample_world" "w_ip_text sample_routed = w_ip_text sample_world"
  "w_parse_ip sample_routed = w_parse_ip sample_world" "w_transmit sample_routed = w_transmit sample_world"
  "w_hash sample_routed = w_hash sample_world" "w_seal sample_routed = w_seal sample_world"
  "w_open sample_routed = w_open sample_world" "w_os sample_routed = w_os sample_world"
  "w_router_alive sample_routed = w_router_alive sample_world"
  by (simp_all add: sample_routed_def)

lemma sample_routed_sound: "sound_world sample_routed"
  using sample_world_sound by (simp add: sound_world_def sample_routed_def)

lemma peek_names: "peek_request_id data = Ok (Some i) \<longleftrightarrow> names_request data i"
  using peek_eq_parse [of data] by (auto simp: names_request_def split: res.splits)

lemma sample_routed_routed: "routed_world sample_routed"
  by (auto simp: routed_world_def sample_routed_def peek_names split: list.splits if_splits)

lemma sample_response_named: "names_request (sample_response i) (replicate 16 9)"
proof -
  have "tenant_shape (sample_header i) []" by (simp add: tenant_shape_def wf_tenant_def sample_header_def)
  from parse_tenant_complete [OF this] show ?thesis
    unfolding sample_response_def by (auto simp: names_request_def sample_header_def)
qed

lemma sample_routed_client: "client_reachable sample_routed sample_client"
proof -
  have "core_client_new sample_routed sample_config sample_time = core_client_new sample_world sample_config sample_time"
    unfolding core_client_new_def initial_last_dns_refresh_def sample_routed_fields by (rule refl)
  then show ?thesis using client_reachable.created [of sample_routed sample_config sample_time] sample_client_new
    by (simp add: sample_config_def credential_shape_def)
qed

lemma sample_routed_prepare: "prepare_request sample_routed = prepare_request sample_world"
  unfolding fun_eq_iff prepare_request_def refresh_if_due_def targets_now_def request_packet_def now_millis_def
    frame_packet_def sample_routed_fields by simp

abbreviation sample_routed_exchange :: "bytes \<Rightarrow> (nat \<times> response_packet list) exchange" where
  "sample_routed_exchange packet \<equiv> exchange_of sample_routed
     (sample_found\<lparr>cl_inflight := insert (replicate 16 9) (cl_inflight sample_found)\<rparr>) (replicate 16 9) packet sample_resolved"

lemma sample_routed_sends:
  "\<exists>p'. send_to_missing (sample_routed_exchange packet) p e = (Ok (), p', e)"
proof -
  let ?x = "sample_routed_exchange packet"
  have "send_to ?x b (SocketV4 7 100) e = (Ok (length b), e)" for b e
    by (simp add: send_to_def send_socket_def exchange_of_def sample_routed_def sample_world_def sample_found_def
        sample_client_def)
  then show ?thesis
    by (simp add: send_to_missing_def send_datagram_def no_sends_def exchange_of_def sample_resolved_def Let_def)
qed

lemma sample_routed_answer: "answer_of (sample_routed_exchange packet) sample_reply = Some (sample_answer 3)"
proof -
  let ?x = "sample_routed_exchange packet"
  have fields: "allowed_server_ids (ex_resolved ?x) = [3]" "ex_auth_method ?x = AuthNone" "ex_cookie_hash ?x = None"
      "ex_aes_key ?x = None" "rp_data sample_reply = sample_response 3" "rl_server_id (sample_answer 3) = 3"
    by (simp_all add: exchange_of_def sample_reply_def sample_resolved_def sample_found_def
        sample_client_def sample_config_def sample_answer_def)
  show ?thesis unfolding answer_of_def fields sample_parse by (simp add: fields(6))
qed

lemma sample_routed_exchange_run:
  "\<exists>p' e'. exchange_request (sample_routed_exchange packet) default_policy 60 p (100000000000, [sample_reply]) =
    Some (Ok (sample_answer 3), p', e')"
proof -
  let ?x = "sample_routed_exchange packet"
  let ?e = "(100000000000, [sample_reply]) :: nat \<times> response_packet list"
  let ?e' = "(100000000000, []) :: nat \<times> response_packet list"
  have clk: "clock ?x e = (fst e, e)" for e by (simp add: exchange_of_def sample_routed_def sample_world_def)
  have rcv: "receive ?x t ?e = (Some sample_reply, ?e')" for t
    using sample_response_named [of 3]
    by (simp add: exchange_of_def sample_routed_def peek_names sample_reply_def)
  have policy: "window_ns default_policy 1 = 20000000" "units (replay_gap default_policy) 0 = Ok 1"
      "completion_delivery default_policy" "rounds_upto (replay_count default_policy) = [0, 1]"
    by (simp_all add: window_ns_def default_policy_def unat_saturating_mul units_def fixed_def rounds_upto_def upt_rec)
  have oldest: "oldest_server_id (ex_resolved ?x) = Some 3"
    by (simp add: oldest_server_Min exchange_of_def sample_resolved_def)
  have id: "rl_server_id (sample_answer 3) = 3" by (simp add: sample_answer_def)
  obtain p1 where s: "send_to_missing ?x p ?e = (Ok (), p1, ?e)" using sample_routed_sends by blast
  have "round_window ?x (Some 3) 0 100020000000 None p1 ?e =
      Some (True, Some (sample_answer 3), note_answer sample_reply (sample_answer 3) 100000000000 p1, ?e')"
    by (subst round_window.simps) (simp add: clk rcv accept_eq sample_routed_answer id older_less Let_def)
  then have po: "policy_outcome ?x default_policy p ?e =
      Some (Ok (Some (sample_answer 3)), note_answer sample_reply (sample_answer 3) 100000000000 p1, ?e')"
    using s by (simp add: policy_outcome_def policy clk oldest Let_def)
  obtain p2 where "send_to_missing ?x (note_answer sample_reply (sample_answer 3) 100000000000 p1) ?e' = (Ok (), p2, ?e')"
    using sample_routed_sends by blast
  then show ?thesis using po by (simp add: exchange_request_def clk policy(3) Let_def)
qed

lemma sample_routed_send:
  "\<exists>cl' e'. send sample_routed sample_unlabelled (sample_client, (100000000000, [sample_reply])) =
    Some (Ok (response_of (sample_answer 3)), cl', e')"
proof -
  let ?e = "(100000000000, [sample_reply]) :: nat \<times> response_packet list"
  obtain packet where p: "prepare_request sample_routed [sample_resource] [] None (sample_client, ?e) =
      (Ok (60, sample_resolved, replicate 16 9, packet), sample_found, ?e)"
    unfolding sample_routed_prepare using sample_prepare [of "[sample_reply]"] by blast
  have pol: "effective_request_policy (cl_config sample_found) = default_policy"
    by (simp add: effective_request_policy_def sample_found_def sample_client_def sample_config_def)
  obtain p' e' where "exchange_request (sample_routed_exchange packet) default_policy 60
      (progress_of (sample_found\<lparr>cl_inflight := insert (replicate 16 9) (cl_inflight sample_found)\<rparr>)) ?e =
      Some (Ok (sample_answer 3), p', e')"
    using sample_routed_exchange_run by blast
  then have "\<exists>cl' e'. run_request sample_routed 60 sample_resolved (replicate 16 9) packet (sample_found, ?e) =
      Some (Ok (sample_answer 3), cl', e')"
    by (simp add: run_request_def pol Let_def apply_steering_feedback_def) (simp add: sample_answer_def)
  moreover have "rb_resources sample_unlabelled = [sample_resource]" "rb_guards sample_unlabelled = []"
      "rb_metrics_label sample_unlabelled = None"
    by (simp_all add: sample_unlabelled_def request_def)
  moreover have "validate_rate_windows_against_quota [sample_resource] (Some (rate_window_size_ms_max (cl_limits sample_client))) = Ok ()"
    by (simp add: validate_rate_windows_against_quota_def sample_resource_def sample_client_def sample_config_def)
  ultimately show ?thesis using p by (auto simp: send_def check_rate_limit_def)
qed

lemma sample_server_answer:
  "server_answer sample_world sample_client (replicate 16 9) (sample_header 3) [] [] (sample_response 3)"
proof -
  have t: "tenant_shape (sample_header 3) []" by (simp add: tenant_shape_def wf_tenant_def sample_header_def)
  have auth: "client_auth sample_client = AuthNone"
    by (simp add: client_auth_def sample_client_def sample_config_def)
  show ?thesis
    unfolding server_answer_def auth sample_response_def
    by (intro conjI, simp add: sample_header_def, rule exI [of _ "[]"],
        intro exI [of _ "to_le 2 TLV_AUTH_NONE @ to_le 2 (4 :: u16) @ response_pdu [] [] [0, 0, 0, 0] [] []"]
          exI [of _ "[0, 0, 0, 0]"] exI [of _ "[]"])
      (simp add: t auth_frame_def response_shape_def)
qed

lemma sample_response_length: "length (sample_response i) = 56"
proof -
  have "wf_tenant (sample_header i)" by (simp add: wf_tenant_def sample_header_def)
  from tenant_codec.wire_length [OF this] show ?thesis by (simp add: sample_response_def response_pdu_def)
qed

lemma some_sent: "rs \<noteq> [] \<and> length (failures rs) = length rs \<longleftrightarrow> \<not> (rs = [] \<or> list_ex (\<lambda>res. failure res = None) rs)"
proof -
  have "length (failures rs) \<le> length rs \<and>
      (length (failures rs) = length rs \<longleftrightarrow> \<not> list_ex (\<lambda>res. failure res = None) rs)"
  proof (induction rs)
    case (Cons a rs)
    then show ?case by (cases "failure a") (auto simp: failures_def)
  qed (simp add: failures_def)
  then show ?thesis by blast
qed

lemma public_report:
  assumes "sound_world w" "client_reachable w cl" "tracker_build (w_hash w) tb = Ok t"
    and "client_report_latency w t observed (cl, e) = (r, cl', e')"
  shows "client_reachable w cl' \<and> r \<noteq> Panic \<and> cl_inflight cl' = cl_inflight cl \<and>
    (case duration_to_u32_ms observed ''observed latency'' of
       Ok ms \<Rightarrow>
         (\<exists>error. r = Err error \<and> cl_sent cl' = cl_sent cl) \<or>
         (\<exists>header frame packet pdu rs. packet = tenant_wire header @ frame \<and> length packet \<le> MAX_PACKET_SIZE \<and>
            auth_frame (w_open w) (client_auth cl) (tenant_wire header) frame pdu \<and>
            drop 12 pdu = latency_wire (latency_block_of (t_id t) (report_of t ms)) \<and>
            length rs = length (servers (cl_discovery cl')) \<and>
            cl_sent cl' = cl_sent cl @ map (\<lambda>(target, res). (length packet, target, res))
              (zip (map (target_of (w_parse_ip w)) (servers (cl_discovery cl'))) rs) \<and>
            (r = Ok () \<longleftrightarrow> rs = [] \<or> list_ex (\<lambda>res. failure res = None) rs))
     | Err error \<Rightarrow> r = Err error \<and> cl' = cl \<and> e' = e
     | Panic \<Rightarrow> False)"
proof (cases "duration_to_u32_ms observed ''observed latency''")
  case (Err error)
  then show ?thesis using assms(2,4) by (auto simp: client_report_latency_def)
next
  case Panic
  then show ?thesis by (simp add: duration_to_u32_ms_eq split: if_splits)
next
  case (Ok ms)
  let ?reports = "[report_of t ms]"
  have inv: "client_inv w cl" by (rule client_reachable_inv [OF assms(1,2)])
  have names: "list_all (\<lambda>r. short_name (lr_latency_tracker_name r)) ?reports"
    using tracker_build_name [OF assms(3)] by (simp add: report_of_def)
  obtain q where q: "report_latency w ?reports (cl, e) = (q, cl', e')" "r = map_err error_of_core q"
    using assms(4) Ok by (auto simp: client_report_latency_def split: prod.splits)
  note facts = report_latency_cases [OF assms(1) inv names q(1)]
  have reach: "client_reachable w cl'" by (rule client_reachable.reported [OF assms(2) names q(1)])
  have total: "q \<noteq> Panic" using facts by (auto simp: check_error_def)
  consider error where "q = Err error" "cl_sent cl' = cl_sent cl"
    | i packet pdu rs where
      "and_then (build_latency_report_body (w_hash w) ?reports) (build_pdu PDU_LATENCY_REPORT) = Ok pdu"
      "packet_for w cl i pdu packet" "length rs = length (servers (cl_discovery cl'))"
      "cl_sent cl' = cl_sent cl @ map (\<lambda>(t, res). (length packet, t, res))
        (zip (map (target_of (w_parse_ip w)) (servers (cl_discovery cl'))) rs)"
      "q = (if rs \<noteq> [] \<and> length (failures rs) = length rs then Err (CoreIo (last (failures rs))) else Ok ())"
    using report_latency_sends [OF assms(1) inv names _ q(1)] by blast
  then show ?thesis
  proof cases
    case 1
    then show ?thesis using reach facts q(2) Ok by simp
  next
    case 2
    obtain body where body: "build_latency_report_body (w_hash w) ?reports = Ok body"
        "build_pdu PDU_LATENCY_REPORT body = Ok pdu"
      using 2(1) by (auto simp: outcome_simps)
    have "drop 12 pdu = latency_wire (latency_block_of (t_id t) (report_of t ms))"
      using body(2) report_on_wire [OF assms(3) body(1)] by (auto simp: build_pdu_def Let_def split: if_splits)
    moreover obtain header frame where "packet = tenant_wire header @ frame" "length packet \<le> MAX_PACKET_SIZE"
        "auth_frame (w_open w) (client_auth cl) (tenant_wire header) frame pdu"
      using 2(2) by (auto simp: packet_for_def Let_def)
    moreover have "r = Ok () \<longleftrightarrow> rs = [] \<or> list_ex (\<lambda>res. failure res = None) rs"
      using 2(5) q(2) some_sent [of rs] by auto
    moreover have "r \<noteq> Panic" using total q(2) by (cases q) simp_all
    ultimately show ?thesis unfolding Ok res.case using reach facts 2(3,4) by blast
  qed
qed

definition db_tracker :: latency_tracker where
  "db_tracker = \<lparr>t_name = ''db'', t_sample_ttl_ms = 5000, t_max_samples = 10, t_min_samples = 2, t_id = replicate 16 7\<rparr>"

lemma db_tracker_built:
  "tracker_build (\<lambda>x. replicate 32 7) (builder_min_samples 2 (builder_max_samples 10
    (builder_sample_ttl (dur_from_millis 5000) (tracker_builder ''db'')))) = Ok db_tracker"
  by (simp add: tracker_build_def duration_to_u32_ms_eq ms_duration_def whole_dur_from_millis tracker_builder_def
      builder_sample_ttl_def builder_max_samples_def builder_min_samples_def db_tracker_def
      derive_latency_tracker_id_def derive_latency_tracker_id_bytes_def derive_content_id_def slice_def)

lemma db_guarded:
  "\<exists>b' body pdu. guard db_tracker (dur_from_millis 20) (request sample_public) = Ok b' \<and>
    build_rate_request_body (\<lambda>x. replicate 32 7) [] (rb_guards b') None = Ok body \<and> build_rate_request_pdu 60 body = Ok pdu"
proof -
  let ?g = "\<lparr>lg_latency_tracker_name = ''db'', lg_threshold_ms = 20, lg_ttl_ms = 5000, lg_max_samples = 10,
    lg_min_sample_threshold = 2\<rparr>"
  have g: "guard db_tracker (dur_from_millis 20) (request sample_public) = Ok ((request sample_public)\<lparr>rb_guards := [?g]\<rparr>)"
    by (simp add: guard_def duration_to_u32_ms_eq ms_duration_def whole_dur_from_millis request_def db_tracker_def)
  have i: "guard_id (\<lambda>x. replicate 32 7) ?g = Ok (replicate 16 7)"
    by (simp add: guard_id_def derive_latency_tracker_id_bytes_def derive_content_id_def slice_def)
  have wf: "wf_guard (guard_block_of (replicate 16 7) ?g)" by (simp add: wf_guard_def guard_block_of_def)
  obtain body where body: "build_rate_request_body (\<lambda>x. replicate 32 7) [] [?g] None = Ok body" "length body = 40"
    using i wf guard_codec.wire_length [OF wf]
    by (simp add: build_rate_request_body_def Let_def guard_append.loop_Cons guard_codec.append_block_wire
        del: append_guards.simps(2))
  have "\<exists>pdu. build_rate_request_pdu 60 body = Ok pdu"
    using body(2) by (simp add: build_rate_request_pdu_def PDU_HEADER_LEN_def Let_def)
  moreover have "rb_guards ((request sample_public)\<lparr>rb_guards := [?g]\<rparr>) = [?g]" by simp
  ultimately show ?thesis using g body(1) by metis
qed

lemma db_report: "\<exists>report. build_latency_report_body (\<lambda>x. replicate 32 7) [report_of db_tracker 5] = Ok report"
proof -
  have "report_id (\<lambda>x. replicate 32 7) (report_of db_tracker 5) = Ok (replicate 16 7)"
    by (simp add: report_id_def report_of_def db_tracker_def derive_latency_tracker_id_bytes_def derive_content_id_def slice_def)
  moreover have "wf_latency (latency_block_of (replicate 16 7) (report_of db_tracker 5))"
    by (simp add: wf_latency_def latency_block_of_def)
  ultimately show ?thesis
    by (simp add: build_latency_report_body_def report_append.loop_Cons latency_writer.append_block_wire Let_def
        del: append_reports.simps(2))
qed

end
