(* ===== verification/ClientSystem.thy ===== *)
theory ClientSystem
  imports Steering Router
begin

text \<open>
  The client as its tasks run it: any number of requests share the registry of
  \<open>Router\<close> and the steering protocol of \<open>Steering\<close>, with the sockets and the datagrams that
  wait on them.  One step is one access of a task or of the response router to what they
  share.
\<close>

section \<open>The system\<close>

text \<open>
  \<open>registration\<close> is the \<open>InflightRegistration\<close> a task holds, with the channel it reads,
  and \<open>queues\<close> the datagrams that wait on the sockets of each epoch.  History: the request
  identifiers drawn so far, and for each send the task, its request and the epoch of the
  socket that sent it.
\<close>

record client_system =
  protocol :: steer_system
  registry :: router
  registration :: "nat \<Rightarrow> (bytes \<times> nat) option"
  next_channel :: nat
  queues :: "nat \<Rightarrow> (bytes \<times> socket_addr) list"
  used_ids :: "bytes set"
  sent_from :: "(nat \<times> bytes \<times> nat) set"

definition system_init :: client_system where
  "system_init = \<lparr>protocol = steer_init, registry = empty_router, registration = (\<lambda>_. None),
     next_channel = 0, queues = (\<lambda>_. []), used_ids = {}, sent_from = {}\<rparr>"

text \<open>
  A task takes the activity guard without a registration, registers a fresh identifier
  (a version 4 UUID) on a new channel, sends on the shared socket, reads its channel, and
  drops the registration when it returns: before the guard when the exchange failed or
  was dropped, after it and after steering otherwise.
\<close>

inductive system_step :: "bool \<Rightarrow> client_system \<Rightarrow> client_system \<Rightarrow> bool" for ts where
  move: "\<lbrakk>steer_step (protocol s) p;
     \<forall>i. pcs p i = Requesting \<and> pcs (protocol s) i = Outside \<longrightarrow> registration s i = None\<rbrakk> \<Longrightarrow>
    system_step ts s (s\<lparr>protocol := p\<rparr>)"
| register: "\<lbrakk>pcs (protocol s) i = Requesting; registration s i = None; request_id \<notin> used_ids s\<rbrakk> \<Longrightarrow>
    system_step ts s (s\<lparr>registry := router_step ts (Registered request_id (next_channel s)) (registry s),
      registration := (registration s)(i \<mapsto> (request_id, next_channel s)),
      next_channel := next_channel s + 1, used_ids := insert request_id (used_ids s)\<rparr>)"
| send: "\<lbrakk>pcs (protocol s) i = Requesting; registration s i = Some (request_id, channel)\<rbrakk> \<Longrightarrow>
    system_step ts s (s\<lparr>sent_from := insert (i, request_id, epoch (protocol s)) (sent_from s)\<rparr>)"
| arrive: "system_step ts s (s\<lparr>queues := (queues s)(e := queues s e @ [(datagram, addr)])\<rparr>)"
| route_next: "queues s (router_epoch (protocol s)) = (datagram, addr) # rest \<Longrightarrow>
    system_step ts s (s\<lparr>registry := router_step ts (Received (Datagram datagram addr)) (registry s),
      queues := (queues s)(router_epoch (protocol s) := rest)\<rparr>)"
| take_next: "\<lbrakk>pcs (protocol s) i = Requesting; registration s i = Some (request_id, channel)\<rbrakk> \<Longrightarrow>
    system_step ts s (s\<lparr>registry := router_step ts (Taken request_id) (registry s)\<rparr>)"
| deregister: "\<lbrakk>pcs (protocol s) i = Requesting \<or> pcs (protocol s) i = Outside;
     registration s i = Some (request_id, channel)\<rbrakk> \<Longrightarrow>
    system_step ts s (s\<lparr>registry := router_step ts (Dropped request_id) (registry s),
      registration := (registration s)(i := None)\<rparr>)"

inductive system_fault :: "client_system \<Rightarrow> client_system \<Rightarrow> bool" where
  fault: "steer_fault (protocol s) p \<Longrightarrow> system_fault s (s\<lparr>protocol := p\<rparr>)"

inductive system_reachable :: "bool \<Rightarrow> client_system \<Rightarrow> bool" for ts where
  start: "system_reachable ts system_init"
| step: "system_reachable ts s \<Longrightarrow> system_step ts s t \<Longrightarrow> system_reachable ts t"
| fault: "system_reachable ts s \<Longrightarrow> system_fault s t \<Longrightarrow> system_reachable ts t"

abbreviation system_run :: "bool \<Rightarrow> client_system \<Rightarrow> client_system \<Rightarrow> bool" where
  "system_run ts \<equiv> (system_step ts)\<^sup>*\<^sup>*"

section \<open>Invariants\<close>

text \<open>
  A registry \<open>m\<close> lists the registrations \<open>reg\<close> that the tasks hold; no two tasks share an
  identifier or a channel; identifiers and channels have been given out.
\<close>

type_synonym registrations = "nat \<Rightarrow> (bytes \<times> nat) option"

definition lists :: "(bytes \<rightharpoonup> nat) \<Rightarrow> registrations \<Rightarrow> bool" where
  "lists m reg \<longleftrightarrow> (\<forall>r c. m r = Some c \<longleftrightarrow> (\<exists>i. reg i = Some (r, c)))"

definition apart :: "registrations \<Rightarrow> bool" where
  "apart reg \<longleftrightarrow> (\<forall>i j r c r' c'. reg i = Some (r, c) \<longrightarrow> reg j = Some (r', c') \<longrightarrow> r = r' \<or> c = c' \<longrightarrow> i = j)"

definition given_out :: "bytes set \<Rightarrow> nat \<Rightarrow> registrations \<Rightarrow> bool" where
  "given_out ids n reg \<longleftrightarrow> (\<forall>i r c. reg i = Some (r, c) \<longrightarrow> r \<in> ids \<and> c < n)"

definition registry_exact :: "client_system \<Rightarrow> bool" where
  "registry_exact s \<longleftrightarrow> lists (inflight (registry s)) (registration s) \<and> apart (registration s) \<and>
    given_out (used_ids s) (next_channel s) (registration s) \<and> finite (dom (registration s))"

text \<open>A request sends from one socket only, for a registered one that on which it started.\<close>

definition sends_pinned :: "client_system \<Rightarrow> bool" where
  "sends_pinned s \<longleftrightarrow>
    (\<forall>i request_id e. (i, request_id, e) \<in> sent_from s \<longrightarrow> request_id \<in> used_ids s \<and>
      (\<forall>j e'. (j, request_id, e') \<in> sent_from s \<longrightarrow> j = i \<and> e' = e) \<and>
      (\<forall>j channel. registration s j = Some (request_id, channel) \<longrightarrow> j = i \<and> e = started_on (protocol s) i))"

definition system_inv :: "client_system \<Rightarrow> bool" where
  "system_inv s \<longleftrightarrow> steer_reachable (protocol s) \<and> registry_exact s \<and> sends_pinned s"

lemma system_inv_init: "system_inv system_init"
  by (simp add: system_inv_def registry_exact_def lists_def apart_def given_out_def sends_pinned_def system_init_def empty_router_def
      steer_reachable.start)

lemma route_inflight [simp]: "inflight (snd (route ts (Datagram d a) s)) = inflight s"
  by (auto simp: route_eq Let_def split: res.splits option.splits)

lemma take_inflight [simp]: "inflight (snd (take_packet channel s)) = inflight s"
  by (simp add: take_packet_def split: list.splits)

lemma taken_inflight: "inflight (router_step ts (Taken i) s) = inflight s"
  by (simp split: option.splits)

lemma lists_register:
  assumes "lists m reg" "reg i = None" "\<And>j d. reg j \<noteq> Some (r, d)"
  shows "lists (m(r \<mapsto> c)) (reg(i \<mapsto> (r, c)))"
proof -
  have "(m(r \<mapsto> c)) q = Some d \<longleftrightarrow> (\<exists>j. (reg(i \<mapsto> (r, c))) j = Some (q, d))" for q d
  proof (cases "q = r")
    case True
    then show ?thesis using assms(3) by (auto split: if_splits)
  next
    case False
    then have "(\<exists>j. (reg(i \<mapsto> (r, c))) j = Some (q, d)) \<longleftrightarrow> (\<exists>j. reg j = Some (q, d))"
      using assms(2) by (metis fun_upd_other fun_upd_same option.distinct(1) option.inject prod.inject)
    then show ?thesis using False assms(1) by (simp add: lists_def)
  qed
  then show ?thesis unfolding lists_def by blast
qed

lemma lists_drop:
  assumes "lists m reg" "apart reg" "reg i = Some (r, c)"
  shows "lists (m(r := None)) (reg(i := None))"
proof -
  have "(m(r := None)) q = Some d \<longleftrightarrow> (\<exists>j. (reg(i := None)) j = Some (q, d))" for q d
  proof (cases "q = r")
    case True
    have "reg j = Some (r, d) \<Longrightarrow> j = i" for j using assms(2,3) unfolding apart_def by blast
    then show ?thesis using True by (auto split: if_splits)
  next
    case False
    then have "(\<exists>j. (reg(i := None)) j = Some (q, d)) \<longleftrightarrow> (\<exists>j. reg j = Some (q, d))"
      using assms(3) by (metis fun_upd_other fun_upd_same option.distinct(1) option.inject prod.inject)
    then show ?thesis using False assms(1) by (simp add: lists_def)
  qed
  then show ?thesis unfolding lists_def by blast
qed

lemma apart_register:
  "apart reg \<Longrightarrow> (\<And>j d. reg j \<noteq> Some (r, d)) \<Longrightarrow> (\<And>j q. reg j \<noteq> Some (q, c)) \<Longrightarrow> apart (reg(i \<mapsto> (r, c)))"
  unfolding apart_def by (simp; metis)

lemma apart_drop: "apart reg \<Longrightarrow> apart (reg(i := None))"
  unfolding apart_def by (simp; metis)

lemma given_out_register: "given_out ids n reg \<Longrightarrow> given_out (insert r ids) (n + 1) (reg(i \<mapsto> (r, n)))"
  unfolding given_out_def by (simp; metis less_SucI)

lemma given_out_drop: "given_out ids n reg \<Longrightarrow> given_out ids n (reg(i := None))"
  by (simp add: given_out_def)

lemma given_out_fresh:
  "given_out ids n reg \<Longrightarrow> r \<notin> ids \<Longrightarrow> reg j \<noteq> Some (r, d)"
  "given_out ids n reg \<Longrightarrow> reg j \<noteq> Some (q, n)"
  unfolding given_out_def by blast+

lemma registry_exact_step: "system_step ts s t \<Longrightarrow> registry_exact s \<Longrightarrow> registry_exact t"
proof (induction rule: system_step.induct)
  case (register s i request_id)
  then have inv: "lists (inflight (registry s)) (registration s)" "apart (registration s)"
      "given_out (used_ids s) (next_channel s) (registration s)" "finite (dom (registration s))"
    by (simp_all add: registry_exact_def)
  note fresh = given_out_fresh(1) [OF inv(3) register(3)] given_out_fresh(2) [OF inv(3)]
  show ?case
    using lists_register [OF inv(1) register(2) fresh(1)] apart_register [OF inv(2) fresh]
      given_out_register [OF inv(3)] inv(4)
    by (simp add: registry_exact_def register_request_def)
next
  case (deregister s i request_id channel)
  then have inv: "lists (inflight (registry s)) (registration s)" "apart (registration s)"
      "given_out (used_ids s) (next_channel s) (registration s)" "finite (dom (registration s))"
    by (simp_all add: registry_exact_def)
  show ?case
    using lists_drop [OF inv(1,2) deregister(2)] apart_drop [OF inv(2)] given_out_drop [OF inv(3)] inv(4)
    by (simp add: registry_exact_def drop_registration_def)
qed (simp_all add: registry_exact_def taken_inflight del: router_step.simps(2))

lemma started_on_kept:
  "steer_step s t \<Longrightarrow> started_on t i = started_on s i \<or> (pcs s i = Outside \<and> pcs t i = Requesting)"
  by (erule steer_step.cases) auto

lemma fault_started_on: "steer_fault s t \<Longrightarrow> started_on t = started_on s"
  by (erule steer_fault.cases) simp_all

lemma sends_pinned_step:
  assumes "system_step ts s t" "steer_inv (protocol s)" "registry_exact s" "sends_pinned s"
  shows "sends_pinned t"
  using assms
proof (induction rule: system_step.induct)
  case (move s p)
  have "started_on p i = started_on (protocol s) i" if "registration s i = Some x" for i x
    using started_on_kept [OF move(1), of i] move(2) that by auto
  then show ?case using move(5) unfolding sends_pinned_def by simp metis
next
  case (register s i request_id)
  then have "(j, request_id, e) \<notin> sent_from s" for j e unfolding sends_pinned_def by blast
  then show ?case using register(6) unfolding sends_pinned_def by simp
next
  case (send s i request_id channel)
  have now: "started_on (protocol s) i = epoch (protocol s)"
    using send(1,3) by (simp add: steer_inv_def requests_current_def)
  have known: "request_id \<in> used_ids s" "\<And>j d. registration s j = Some (request_id, d) \<Longrightarrow> j = i"
    using send(2,4) unfolding registry_exact_def apart_def given_out_def by blast+
  have old: "j = i \<and> e = epoch (protocol s)" if "(j, request_id, e) \<in> sent_from s" for j e
    using send(2,5) that now unfolding sends_pinned_def by blast
  show ?case using send(5) now known old unfolding sends_pinned_def by simp metis
next
  case (deregister s i request_id channel)
  then show ?case unfolding sends_pinned_def by simp
qed (simp_all add: sends_pinned_def)

lemma system_inv_step: "system_step ts s t \<Longrightarrow> system_inv s \<Longrightarrow> system_inv t"
proof -
  assume step: "system_step ts s t" and inv: "system_inv s"
  have "steer_reachable (protocol t)"
    using step inv by (cases rule: system_step.cases) (auto simp: system_inv_def intro: steer_reachable.step)
  then show ?thesis
    using step inv registry_exact_step sends_pinned_step steer_reachable_inv unfolding system_inv_def by blast
qed

lemma system_inv_fault: "system_fault s t \<Longrightarrow> system_inv s \<Longrightarrow> system_inv t"
  by (erule system_fault.cases)
    (auto simp: system_inv_def registry_exact_def sends_pinned_def fault_started_on intro: steer_reachable.fault)

lemma system_reachable_inv: "system_reachable ts s \<Longrightarrow> system_inv s"
  by (induction rule: system_reachable.induct) (auto intro: system_inv_init system_inv_step system_inv_fault)

lemma registered_channels_distinct:
  assumes "registry_exact s"
  shows "channels_distinct (registry s)"
  unfolding channels_distinct_def
proof (intro allI impI)
  fix q r c
  assume "inflight (registry s) q = Some c" "inflight (registry s) r = Some c"
  then obtain i j where "registration s i = Some (q, c)" "registration s j = Some (r, c)"
    using assms unfolding registry_exact_def lists_def by blast
  moreover from this have "i = j" using assms unfolding registry_exact_def apart_def by blast
  ultimately show "q = r" by simp
qed

lemma registered_finite:
  assumes "registry_exact s"
  shows "finite (dom (inflight (registry s)))"
proof -
  have "dom (inflight (registry s)) \<subseteq> (\<lambda>i. fst (the (registration s i))) ` dom (registration s)"
  proof
    fix r assume "r \<in> dom (inflight (registry s))"
    then obtain i c where "registration s i = Some (r, c)"
      using assms unfolding registry_exact_def lists_def by blast
    then show "r \<in> (\<lambda>i. fst (the (registration s i))) ` dom (registration s)"
      by (intro image_eqI [of _ _ i]) auto
  qed
  then show ?thesis using assms finite_subset unfolding registry_exact_def by blast
qed

section \<open>Turns of the router\<close>

text \<open>The packets among queued datagrams that name a request.\<close>

definition named :: "bool \<Rightarrow> bytes \<Rightarrow> (bytes \<times> socket_addr) list \<Rightarrow> response_packet list" where
  "named ts request_id queue =
    map (\<lambda>(datagram, addr). \<lparr>rp_data = take (BUFFER_LEN ts) datagram, rp_addr = addr\<rparr>)
      (filter (\<lambda>(datagram, addr). names_request (take (BUFFER_LEN ts) datagram) request_id) queue)"

lemma named_simps [simp]:
  "named ts r [] = []"
  "named ts r ((d, a) # queue) = (if names_request (take (BUFFER_LEN ts) d) r
     then [\<lparr>rp_data = take (BUFFER_LEN ts) d, rp_addr = a\<rparr>] else []) @ named ts r queue"
  by (simp_all add: named_def)

lemma route_inbox:
  assumes "channels_distinct s" "inflight s r = Some c"
  shows "channels (snd (route ts (Datagram d a) s)) c = channels s c @ named ts r [(d, a)]"
proof -
  have "inboxes_of (snd (route ts (Datagram d a) s)) r = inbox_step ts (Received (Datagram d a)) (inboxes_of s) r"
    by (simp only: inbox_datagram [OF assms(1)])
  then show ?thesis using assms(2) by (simp add: inboxes_of_def Let_def split: if_splits)
qed

lemma router_drains:
  assumes "queues s (router_epoch (protocol s)) = queue" "registry_exact s" "registration s i = Some (r, c)"
  shows "\<exists>t. system_run ts s t \<and> protocol t = protocol s \<and> registration t = registration s \<and>
    queues t (router_epoch (protocol s)) = [] \<and>
    channels (registry t) c = channels (registry s) c @ named ts r queue"
  using assms
proof (induction queue arbitrary: s)
  case Nil
  then show ?case by (intro exI [of _ s]) simp
next
  case (Cons k queue)
  obtain d a where k: "k = (d, a)" by force
  let ?e = "router_epoch (protocol s)"
  let ?u = "s\<lparr>registry := router_step ts (Received (Datagram d a)) (registry s), queues := (queues s)(?e := queue)\<rparr>"
  have step: "system_step ts s ?u" by (rule route_next) (use Cons.prems(1) k in simp)
  have "inflight (registry s) r = Some c" using Cons.prems(2,3) unfolding registry_exact_def lists_def by blast
  then have "channels (registry ?u) c = channels (registry s) c @ named ts r [k]"
    using route_inbox [OF registered_channels_distinct [OF Cons.prems(2)], of r c ts d a] k by simp
  moreover obtain t where "system_run ts ?u t" "protocol t = protocol s" "registration t = registration s"
      "queues t ?e = []" "channels (registry t) c = channels (registry ?u) c @ named ts r queue"
    using Cons.IH [of ?u] registry_exact_step [OF step Cons.prems(2)] Cons.prems(3) by auto
  ultimately show ?case using step k
    by (intro exI [of _ t]) (auto intro: converse_rtranclp_into_rtranclp)
qed

section \<open>Runs in which no request starts\<close>

lemma lift_run:
  "finishing_step\<^sup>*\<^sup>* p q \<Longrightarrow> protocol s = p \<Longrightarrow> system_run ts s (s\<lparr>protocol := q\<rparr>)"
proof (induction rule: rtranclp_induct)
  case base
  then have "s\<lparr>protocol := p\<rparr> = s" by (cases s) simp
  then show ?case by simp
next
  case (step q r)
  let ?s = "s\<lparr>protocol := q\<rparr>"
  have "system_step ts ?s (?s\<lparr>protocol := r\<rparr>)"
    by (rule move) (use step(2) in \<open>auto simp: finishing_step_def\<close>)
  then show ?case using step.IH [OF step.prems] by (simp add: rtranclp.rtrancl_into_rtrancl)
qed

definition returning :: "client_system \<Rightarrow> bool" where
  "returning s \<longleftrightarrow> registry_exact s \<and> all_outside (protocol s)"

definition dropping_step :: "bool \<Rightarrow> client_system \<Rightarrow> client_system \<Rightarrow> bool" where
  "dropping_step ts s t \<longleftrightarrow> system_step ts s t \<and> protocol t = protocol s \<and> used_ids t = used_ids s"

lemma dropping_run:
  "(dropping_step ts)\<^sup>*\<^sup>* s t \<Longrightarrow> system_run ts s t \<and> protocol t = protocol s \<and> used_ids t = used_ids s"
  by (induction rule: rtranclp_induct) (auto simp: dropping_step_def intro: rtranclp.rtrancl_into_rtrancl)

interpretation dropping: progress_system "dropping_step ts" returning
  "\<lambda>s. \<forall>i. registration s i = None" "\<lambda>s. card (dom (registration s))" for ts
proof
  fix s t
  assume "returning s" "dropping_step ts s t"
  then show "returning t" using registry_exact_step unfolding returning_def dropping_step_def by auto
next
  fix s
  assume ret: "returning s" and "\<not> (\<forall>i. registration s i = None)"
  then obtain i r c where i: "registration s i = Some (r, c)" by (metis not_Some_eq surj_pair)
  let ?t = "s\<lparr>registry := router_step ts (Dropped r) (registry s), registration := (registration s)(i := None)\<rparr>"
  have "pcs (protocol s) i = Outside" using ret by (simp add: returning_def all_outside_def)
  then have "system_step ts s ?t" by (intro deregister [OF _ i]) simp
  then have "dropping_step ts s ?t" by (simp add: dropping_step_def)
  moreover have "dom ((registration s)(i := None)) \<subset> dom (registration s)" using i by auto
  then have "card (dom (registration ?t)) < card (dom (registration s))"
    using ret by (simp add: returning_def registry_exact_def psubset_card_mono)
  ultimately show "\<exists>t. (dropping_step ts)\<^sup>*\<^sup>* s t \<and>
      card (dom (registration t)) < card (dom (registration s))"
    by (intro exI [of _ ?t]) (auto intro!: r_into_rtranclp)
qed

section \<open>The registry and the sockets of requests\<close>

lemma lists_unique:
  assumes "lists m reg" "apart reg"
  shows "m r = Some c \<longleftrightarrow> (\<exists>!i. reg i = Some (r, c))"
proof
  assume "m r = Some c"
  then obtain i where i: "reg i = Some (r, c)" using assms(1) unfolding lists_def by blast
  moreover have "j = i" if "reg j = Some (r, c)" for j using that i assms(2) unfolding apart_def by blast
  ultimately show "\<exists>!i. reg i = Some (r, c)" by blast
next
  assume "\<exists>!i. reg i = Some (r, c)"
  then show "m r = Some c" using assms(1) unfolding lists_def by blast
qed

text \<open>
  C6: the registry is exact: in every reachable state of the running client, faults and
  dropped requests included, it maps exactly the identifiers of the registrations that
  tasks hold to their channels, no two tasks share either, and nothing is left in it when
  no task holds a registration.
\<close>

theorem registry_holds_live_requests:
  assumes "system_reachable ts s"
  shows "(\<forall>request_id channel. inflight (registry s) request_id = Some channel \<longleftrightarrow>
      (\<exists>!i. registration s i = Some (request_id, channel))) \<and>
    channels_distinct (registry s) \<and> finite (dom (inflight (registry s))) \<and>
    ((\<forall>i. registration s i = None) \<longrightarrow> inflight (registry s) = Map.empty)"
proof -
  have exact: "registry_exact s" using system_reachable_inv [OF assms] by (simp add: system_inv_def)
  then have unique: "inflight (registry s) r = Some c \<longleftrightarrow> (\<exists>!i. registration s i = Some (r, c))" for r c
    using lists_unique by (simp add: registry_exact_def)
  have "inflight (registry s) = Map.empty" if "\<forall>i. registration s i = None"
  proof
    fix r
    show "inflight (registry s) r = None" using unique [of r] that by (cases "inflight (registry s) r") auto
  qed
  then show ?thesis using unique registered_channels_distinct [OF exact] registered_finite [OF exact] by blast
qed

lemma live_send_current:
  assumes "system_inv s" "(i, r, e) \<in> sent_from s" "pcs (protocol s) i = Requesting" "registration s i = Some (r, c)"
  shows "e = epoch (protocol s)"
  using assms steer_reachable_inv
  unfolding system_inv_def sends_pinned_def steer_inv_def requests_current_def by metis

text \<open>
  C7: a request sends from one socket: two datagrams of one request identifier were sent by
  one task and from one socket, whatever rebinds other tasks began meanwhile; while the
  request is registered and holds the guard, that socket is the current one.
\<close>

theorem request_sends_from_one_socket:
  assumes "system_reachable ts s" "(i, request_id, e) \<in> sent_from s" "(j, request_id, e') \<in> sent_from s"
  shows "i = j \<and> e = e' \<and>
    (pcs (protocol s) i = Requesting \<and> (\<exists>channel. registration s i = Some (request_id, channel)) \<longrightarrow>
      e = epoch (protocol s))"
proof -
  have inv: "system_inv s" by (rule system_reachable_inv [OF assms(1)])
  then have "sends_pinned s" by (simp add: system_inv_def)
  then show ?thesis using live_send_current [OF inv assms(2)] assms(2,3) unfolding sends_pinned_def by metis
qed

section \<open>No answer is stranded\<close>

lemma run_reachable: "system_run ts s t \<Longrightarrow> system_reachable ts s \<Longrightarrow> system_reachable ts t"
  by (induction rule: rtranclp_induct) (auto intro: system_reachable.step)

lemma run_protocol: "system_run ts s t \<Longrightarrow> steer_run (protocol s) (protocol t)"
proof (induction rule: rtranclp_induct)
  case (step t u)
  have "steer_run (protocol t) (protocol u)"
    using step(2) by (cases rule: system_step.cases) (simp_all add: r_into_rtranclp)
  with step(3) show ?case by (rule rtranclp_trans)
qed simp

lemma run_from_init:
  assumes "system_run ts system_init s"
  shows "system_inv s" "router_follows (protocol s)"
proof -
  show "system_inv s" by (rule system_reachable_inv [OF run_reachable [OF assms system_reachable.start]])
  show "router_follows (protocol s)"
    using run_protocol [OF assms] by (intro router_follows_run) (simp add: system_init_def)
qed


section \<open>Quiescence\<close>

text \<open>
  C8: the client quiesces: from every reachable state, tasks in mid-request and in mid-rebind
  included, a run without faults in which no new request identifier is drawn lets every task
  return, with the registry empty and every lock free.
\<close>

theorem system_quiesces:
  assumes "system_reachable ts s"
  shows "\<exists>t. system_run ts s t \<and> used_ids t = used_ids s \<and> all_outside (protocol t) \<and> (\<forall>i. registration t i = None) \<and>
    inflight (registry t) = Map.empty \<and> apply_lock (protocol t) = None \<and> activity_writer (protocol t) = None"
proof -
  have inv: "system_inv s" by (rule system_reachable_inv [OF assms])
  have "steer_inv (protocol s)" using inv steer_reachable_inv by (simp add: system_inv_def)
  then obtain q where q: "finishing_step\<^sup>*\<^sup>* (protocol s) q" "all_outside q" using steering.becomes_quiet by blast
  let ?u = "s\<lparr>protocol := q\<rparr>"
  have u: "system_run ts s ?u" by (rule lift_run [OF q(1) refl])
  have "returning ?u" using q(2) inv by (simp add: returning_def system_inv_def registry_exact_def)
  then obtain t where t: "(dropping_step ts)\<^sup>*\<^sup>* ?u t" "\<forall>i. registration t i = None"
    using dropping.becomes_quiet [of ?u ts] by blast
  have "returning t" by (rule dropping.run_inv [OF t(1) \<open>returning ?u\<close>])
  moreover have "system_run ts ?u t" "used_ids t = used_ids s" using dropping_run [OF t(1)] by simp_all
  moreover have "inflight (registry t) = Map.empty"
    using t(2) \<open>returning t\<close> unfolding returning_def registry_exact_def lists_def
    by (metis option.distinct(1) option.exhaust ext)
  moreover have run: "system_run ts s t" using u calculation(2) by (rule rtranclp_trans)
  moreover have "locks_agree (protocol t)"
    using system_reachable_inv [OF run_reachable [OF run assms]] steer_reachable_inv
    by (simp add: system_inv_def steer_inv_def)
  then have "apply_lock (protocol t) = None \<and> activity_writer (protocol t) = None"
    using \<open>returning t\<close> unfolding returning_def all_outside_def locks_agree_def
    by (metis option.exhaust pc_simps(5,11))
  ultimately show ?thesis using t(2) by (intro exI [of _ t]) (simp add: returning_def)
qed

section \<open>A concrete run\<close>

text \<open>Task 0 has registered and sent, and its answer waits on the socket while task 1 registers.\<close>

lemma waiting_run:
  "\<exists>s. system_run True system_init s \<and> pcs (protocol s) 0 = Requesting \<and>
    registration s = [0 \<mapsto> (replicate 16 9, 0), 1 \<mapsto> (replicate 16 1, 1)] \<and> sent_from s = {(0, replicate 16 9, 0)} \<and>
    queues s 0 = [(sample_response 7, SocketV4 2 100)] \<and> channels (registry s) 0 = []"
proof -
  note state = system_init_def steer_init_def empty_router_def register_request_def
  have ids: "replicate 16 (1 :: 8 word) \<noteq> replicate 16 9" by (simp add: replicate_eq_replicate)
  have go: "\<exists>t. system_step True s t \<and> t = s\<lparr>protocol := (protocol s)\<lparr>pcs := (pcs (protocol s))(i := Requesting),
      started_on := (started_on (protocol s))(i := epoch (protocol s))\<rparr>\<rparr>"
    if "pcs (protocol s) i = Outside" "activity_writer (protocol s) = None" "registration s i = None" for i s
    by (intro exI conjI, rule move, rule begin_request) (use that in auto)
  obtain s1 where 1: "system_step True system_init s1"
      and s1: "pcs (protocol s1) = (\<lambda>_. Outside)(0 := Requesting)" "activity_writer (protocol s1) = None"
        "epoch (protocol s1) = 0" "registration s1 = Map.empty" "next_channel s1 = 0" "used_ids s1 = {}"
        "queues s1 = (\<lambda>_. [])" "sent_from s1 = {}" "channels (registry s1) = (\<lambda>_. [])"
    using go [of system_init 0] by (auto simp: state)
  let ?s2 = "s1\<lparr>registry := router_step True (Registered (replicate 16 9) (next_channel s1)) (registry s1),
    registration := (registration s1)(0 \<mapsto> (replicate 16 9, next_channel s1)), next_channel := next_channel s1 + 1,
    used_ids := insert (replicate 16 9) (used_ids s1)\<rparr>"
  obtain s2 where "s2 = ?s2" by simp
  then have 2: "system_step True s1 s2"
      and s2: "protocol s2 = protocol s1" "registration s2 = [0 \<mapsto> (replicate 16 9, 0)]" "next_channel s2 = 1"
        "used_ids s2 = {replicate 16 9}" "queues s2 = (\<lambda>_. [])" "sent_from s2 = {}" "channels (registry s2) = (\<lambda>_. [])"
    using register [of s1 0 "replicate 16 9" True] s1 by (simp_all add: register_request_def fun_upd_idem)
  obtain s3 where "s3 = s2\<lparr>sent_from := insert (0, replicate 16 9, epoch (protocol s2)) (sent_from s2)\<rparr>" by simp
  then have 3: "system_step True s2 s3"
      and s3: "protocol s3 = protocol s1" "registration s3 = registration s2" "next_channel s3 = 1"
        "used_ids s3 = used_ids s2" "queues s3 = (\<lambda>_. [])" "sent_from s3 = {(0, replicate 16 9, 0)}" "registry s3 = registry s2"
    using send [of s2 0 "replicate 16 9" 0 True] s1 s2 by simp_all
  obtain s4 where "s4 = s3\<lparr>queues := (queues s3)(0 := queues s3 0 @ [(sample_response 7, SocketV4 2 100)])\<rparr>" by simp
  then have 4: "system_step True s3 s4"
      and s4: "protocol s4 = protocol s1" "registration s4 = registration s2" "next_channel s4 = 1"
        "used_ids s4 = used_ids s2" "queues s4 0 = [(sample_response 7, SocketV4 2 100)]"
        "sent_from s4 = {(0, replicate 16 9, 0)}" "registry s4 = registry s2"
    using arrive [of True s3 0] s3 by simp_all
  obtain s5 where 5: "system_step True s4 s5"
      and s5: "pcs (protocol s5) = (\<lambda>_. Outside)(0 := Requesting, 1 := Requesting)" "registration s5 = registration s2"
        "next_channel s5 = 1" "used_ids s5 = used_ids s2" "queues s5 = queues s4" "sent_from s5 = sent_from s4"
        "registry s5 = registry s2"
    using go [of s4 1] s4 s1 s2 by auto
  let ?s6 = "s5\<lparr>registry := router_step True (Registered (replicate 16 1) (next_channel s5)) (registry s5),
    registration := (registration s5)(1 \<mapsto> (replicate 16 1, next_channel s5)), next_channel := next_channel s5 + 1,
    used_ids := insert (replicate 16 1) (used_ids s5)\<rparr>"
  have 6: "system_step True s5 ?s6" using s5 s2 ids by (intro register) simp_all
  have "system_run True system_init ?s6"
    using 1 2 3 4 5 6 by (meson converse_rtranclp_into_rtranclp r_into_rtranclp)
  then show ?thesis using s5 s4 s2 by (intro exI [of _ ?s6]) (simp add: register_request_def)
qed

lemma reachable_waiting: "system_run ts system_init s \<Longrightarrow> system_reachable ts s"
  by (rule run_reachable [OF _ system_reachable.start])

theorem registry_holds_live_requests_witness:
  "\<exists>s. system_reachable True s \<and> inflight (registry s) (replicate 16 9) = Some 0 \<and>
    inflight (registry s) (replicate 16 2) = None"
proof -
  obtain s where run: "system_run True system_init s"
      and reg: "registration s = [0 \<mapsto> (replicate 16 9, 0), 1 \<mapsto> (replicate 16 1, 1)]"
    using waiting_run by blast
  have live: "inflight (registry s) r = Some c \<longleftrightarrow> (\<exists>!i. registration s i = Some (r, c))" for r c
    using registry_holds_live_requests [OF reachable_waiting [OF run]] by blast
  have "inflight (registry s) (replicate 16 9) = Some 0" unfolding live reg by auto
  moreover have none: "registration s i \<noteq> Some (replicate 16 2, c)" for i c
    unfolding reg by (simp add: replicate_eq_replicate)
  have "inflight (registry s) (replicate 16 2) = None"
    using live [of "replicate 16 2"] none by (cases "inflight (registry s) (replicate 16 2)") blast+
  ultimately show ?thesis using reachable_waiting [OF run] by blast
qed

theorem request_sends_from_one_socket_witness:
  "\<exists>s. system_reachable True s \<and> (0, replicate 16 9, 0) \<in> sent_from s \<and> epoch (protocol s) = 0"
proof -
  obtain s where s: "system_run True system_init s" "pcs (protocol s) 0 = Requesting"
      "registration s = [0 \<mapsto> (replicate 16 9, 0), 1 \<mapsto> (replicate 16 1, 1)]" "sent_from s = {(0, replicate 16 9, 0)}"
    using waiting_run by blast
  then show ?thesis
    using request_sends_from_one_socket [OF reachable_waiting [OF s(1)], of 0 "replicate 16 9" 0 0 0]
      reachable_waiting [OF s(1)] by auto
qed


theorem system_quiesces_witness:
  "\<exists>s t. pcs (protocol s) 0 = Requesting \<and> system_run True s t \<and> all_outside (protocol t) \<and>
    inflight (registry t) = Map.empty"
proof -
  obtain s where "system_run True system_init s" "pcs (protocol s) 0 = Requesting" using waiting_run by blast
  then show ?thesis using system_quiesces [OF reachable_waiting, of True s] by blast
qed

end
