(* ===== verification/Conformance.thy ===== *)
theory Conformance
  imports EndToEnd ClientSystem
begin

text \<open>
  The tests of the repository, replayed on the model: the unit tests of each source file
  and the scenarios of \<open>tests/network_policy.rs\<close> and \<open>tests/public_api.rs\<close>.  The
  definitions are their fixtures.  Not replayed: tests of real sockets, of threads, of
  Blake2s and AES-GCM test vectors, and the random tests, whose statements are theorems
  of the development for all inputs.
\<close>

section \<open>Policies and schedules\<close>

lemma test_default_horizon_matches_other_clients:
  "horizon default_policy = Ok (dur_from_millis 60)"
  by (simp add: horizon_of_valid valid_policy_def default_policy_def fixed_def valid_schedule_def MAX_REPLAY_COUNT_def
        horizon_spec_def horizon_units_def gap_def)

definition test_policy :: "u64 \<Rightarrow> u32 \<Rightarrow> u32 \<Rightarrow> bool \<Rightarrow> (request_policy, error) res" where
  "test_policy unit replays final completion =
    policy_build (builder_completion_delivery completion
      (builder_final_receive_units final
        (builder_replay_gap (fixed 1)
          (builder_replays replays
            (builder_unit (dur_from_millis unit) default_policy_builder)))))"

definition plain_policy :: "u64 \<Rightarrow> u32 \<Rightarrow> u32 \<Rightarrow> bool \<Rightarrow> request_policy" where
  "plain_policy unit replays final completion =
    \<lparr>unit_ms = unit, replay_count = replays, replay_gap = fixed 1,
     final_receive_units = final, completion_delivery = completion\<rparr>"

lemma plain_policy_horizon:
  "horizon_spec (plain_policy u n f c) = unat u * (unat n + 1 + unat f)"
  by (simp add: horizon_spec_def horizon_units_def plain_policy_def gap_def fixed_def)

lemma plain_policy_valid: "valid_policy (plain_policy u n f c) \<longleftrightarrow> u \<noteq> 0 \<and> n \<le> MAX_REPLAY_COUNT"
  by (simp add: valid_policy_def plain_policy_def fixed_def valid_schedule_def)

lemma test_policy_built:
  assumes "u \<noteq> 0" "n \<le> MAX_REPLAY_COUNT" "unat u * (unat n + 1 + unat f) < 2 ^ 32"
  shows "test_policy u n f c = Ok (plain_policy u n f c)"
proof -
  have u: "dur_as_millis (dur_from_millis u) = unat u" "whole_millis (dur_from_millis u)"
      "\<not> dur_is_zero (dur_from_millis u)"
    using assms(1) whole_millis_zero [of "dur_from_millis u"]
    by (simp_all add: whole_dur_from_millis unat_eq_0)
  show ?thesis unfolding test_policy_def policy_build_ok_iff
    using assms plain_policy_valid [of u n f c] plain_policy_horizon [of u n f c]
    by (simp add: u builder_completion_delivery_def builder_final_receive_units_def builder_replay_gap_def
        builder_replays_def builder_unit_def plain_policy_def le_less_trans [OF _ unsigned_less])
qed

lemma test_schedules_cap_and_final_wait_can_be_disabled:
  "units (linear 1 2 6) 3 = Ok 6" "units (exponential 1 2 8) 3 = Ok 8"
  "and_then (test_policy 25 3 0 False) (\<lambda>p. map_err InvalidConfiguration (horizon p)) = Ok (dur_from_millis 100)"
proof -
  show "units (linear 1 2 6) 3 = Ok 6" "units (exponential 1 2 8) 3 = Ok 8" by code_simp+
  show "and_then (test_policy 25 3 0 False) (\<lambda>p. map_err InvalidConfiguration (horizon p)) = Ok (dur_from_millis 100)"
    by (simp add: test_policy_built horizon_of_valid plain_policy_valid plain_policy_horizon MAX_REPLAY_COUNT_def)
qed

section \<open>Names and packets\<close>

lemma test_validates_service_domains:
  "valid_dns_name ''test.ratelimitly.invalid''" "\<not> valid_dns_name ''-bad.example''"
  "\<not> valid_dns_name ''bad..example''"
  by code_simp+

lemma test_parse_server_id_from_target:
  "parse_server_id_from_target ''s-1015809.rl.us1.com.'' = Some 1015809"
  "parse_server_id_from_target ''rl.us1.com'' = None"
  "parse_server_id_from_target ''s-.rl.us1.com'' = None"
  "parse_server_id_from_target ''s-x.rl.us1.com'' = None"
  "parse_server_id_from_target ''s-01.rl.us1.com'' = None"
  by code_simp+

lemma test_metrics_label_tlv_encoding:
  "append_metrics_label_tlv [] ''api'' =
    Ok [0x4D, 0x4C, 0x0C, 0, 3, 0, 0x61, 0x70, 0x69, 0, 0, 0]"
  by code_simp

lemma test_rate_window_quota_rejects_the_complete_request:
  "validate_rate_windows_against_quota
     [\<lparr>rr_bucket_name = ''bucket'', rr_window_size_ms = 1025, rr_rate_limit = 100, rr_tokens_requested = 1\<rparr>]
     (Some 1024) =
   Err (CoreProtocol (Fmt ''Resource '{}' window_size_ms {} exceeds rate_window_size_ms_max {}''
     [StrArg ''bucket'', NumArg 1025, NumArg 1024]))"
  by code_simp

lemma test_steering_ports_advance_monotonically_and_wrap_once_at_the_boundary:
  "next_steering_port STEERING_PORT_MIN = STEERING_PORT_MIN + 1"
  "next_steering_port (65535 - 1) = 65535" "next_steering_port 65535 = STEERING_PORT_MIN"
  "next_steering_port 40000 = STEERING_PORT_MIN"
  by code_simp+

text \<open>The digest is any 32 bytes.\<close>

lemma test_latency_report_uses_32_byte_service_blocks:
  "and_then (build_latency_report_body (\<lambda>_. replicate 32 7)
      [\<lparr>lr_latency_tracker_name = ''service'', lr_observed_latency = 85, lr_ttl_ms = 1000,
        lr_max_samples = 32, lr_min_sample_threshold = 4\<rparr>]) (build_pdu PDU_LATENCY_REPORT) =
    Ok (to_le 2 PDU_LATENCY_REPORT @ to_le 2 (44 :: u16) @ replicate 4 0 @ to_le 2 (1 :: u16) @ [0, 0] @
      replicate 16 7 @ to_le 4 (1000 :: u32) @ to_le 4 (32 :: u32) @ to_le 4 (4 :: u32) @ to_le 4 (85 :: u32))"
  by code_simp

text \<open>A response that grants an empty request, with a metrics label after the blocks.\<close>

definition labelled_response :: bytes where
  "labelled_response =
    tenant_wire \<lparr>th_tlv_type = TLV_TENANT, th_tlv_size = 40, th_key_id = 42, th_unique_id = replicate 16 0,
      th_time_stamp = 0, th_steering_feedback = 1, th_tenant_mgmt_flag = 0, th_padding = [0, 0]\<rparr> @
    to_le 2 TLV_AUTH_NONE @ to_le 2 (4 :: u16) @
    to_le 2 PDU_RATE_RESPONSE @ to_le 2 (20 :: u16) @ replicate 4 0 @
    to_le 2 (0 :: u16) @ to_le 2 (0 :: u16) @
    to_le 2 TLV_METRICS_LABEL @ to_le 2 (8 :: u16) @ to_le 2 (1 :: u16) @ as_bytes ''x'' @ [0]"

lemma test_parse_rate_response_ignores_trailing_tlvs:
  "parse_rate_response_with_auth open labelled_response AuthNone None None =
    Ok \<lparr>rl_success = True, rl_guard_results = [], rl_resource_results = [], rl_server_id = 42,
      rl_steering_feedback = True\<rparr>"
proof -
  let ?h = "\<lparr>th_tlv_type = TLV_TENANT, th_tlv_size = 40, th_key_id = 42, th_unique_id = replicate 16 0,
      th_time_stamp = 0, th_steering_feedback = 1, th_tenant_mgmt_flag = 0, th_padding = [0, 0]\<rparr>"
  let ?label = "to_le 2 TLV_METRICS_LABEL @ to_le 2 (8 :: u16) @ to_le 2 (1 :: u16) @ as_bytes ''x'' @ [0]"
  have "labelled_response = tenant_wire ?h @ to_le 2 TLV_AUTH_NONE @ to_le 2 (4 :: u16) @
      response_pdu [] [] (replicate 4 0) ?label []"
    by (simp add: labelled_response_def response_pdu_def length_as_bytes)
  moreover have "tenant_shape ?h []" "response_shape [] [] (replicate 4 0) ?label"
    by (simp_all add: tenant_shape_def wf_tenant_def response_shape_def length_as_bytes)
  ultimately show ?thesis
    using parse_plain_response [of ?h "[]" "[]" "replicate 4 0" ?label "open" "[]"]
    by (simp add: response_result_def)
qed

section \<open>The network tests\<close>

text \<open>
  The fixture: two servers, 100 and 200, that grant or reject one resource; the packets
  a test lets them send, with the times at which they arrive.
\<close>

definition server_reply :: "u64 \<Rightarrow> decision \<Rightarrow> response_packet" where
  "server_reply server_id d =
    \<lparr>rp_data = tenant_wire (sample_header server_id) @ to_le 2 TLV_AUTH_NONE @ to_le 2 (4 :: u16) @
       response_pdu [] [\<lparr>rb_bucket_id = replicate 16 7, rb_window_size_ms = 1000, rb_rate_limit = 100,
         rb_tokens_requested = (if d = Granted then 0 else 1), rb_padding = 0\<rparr>] [0, 0, 0, 0] [] [],
     rp_addr = SocketV4 1 100\<rparr>"

definition malformed_reply :: response_packet where
  "malformed_reply = \<lparr>rp_data = [1, 2, 3], rp_addr = SocketV4 1 100\<rparr>"

definition fixture :: "(nat \<times> arrivals) exchange" where
  "fixture = sample_timed\<lparr>ex_resolved := \<lparr>targets = [SocketV4 1 100, SocketV4 2 100],
     target_server_ids = [SocketV4 1 100 \<mapsto> 100, SocketV4 2 100 \<mapsto> 200], allowed_server_ids = [100, 200]\<rparr>\<rparr>"

text \<open>What the request returns: its decision and the selected server.\<close>

definition scenario :: "request_policy \<Rightarrow> arrivals \<Rightarrow> (decision \<times> u64 option, core_error) res option" where
  "scenario policy arrivals =
    map_option (\<lambda>(r, _, _). and_then r (\<lambda>result.
        Ok (resp_decision (response_of result), resp_selected_server_id (response_of result))))
      (exchange_request fixture policy 300 fresh_progress (0, arrivals))"

definition at_ms :: "nat \<Rightarrow> nat" where
  "at_ms n = 1000000 * n"

lemma network_timed: "timed_exchange fixture"
  by (auto simp: timed_exchange_def fixture_def sample_timed_def send_to_def send_socket_def)

lemma network_reply:
  assumes "i \<in> {100, 200}"
  shows "answer_of fixture (server_reply i d) = Some (response_result [] [\<lparr>rb_bucket_id = replicate 16 7,
    rb_window_size_ms = 1000, rb_rate_limit = 100, rb_tokens_requested = (if d = Granted then 0 else 1),
    rb_padding = 0\<rparr>] i True)"
proof -
  have "tenant_shape (sample_header i) []"
    by (simp add: tenant_shape_def wf_tenant_def sample_header_def)
  moreover have "response_shape [] [\<lparr>rb_bucket_id = replicate 16 7, rb_window_size_ms = 1000,
      rb_rate_limit = 100, rb_tokens_requested = (if d = Granted then 0 else 1), rb_padding = 0\<rparr>] [0, 0, 0, 0] []"
    by (simp add: response_shape_def wf_resource_def)
  ultimately show ?thesis
    using assms by (auto simp: answer_of_def fixture_def sample_timed_def server_reply_def parse_plain_response
        sample_header_def response_result_def)
qed

lemma network_malformed: "answer_of fixture malformed_reply = None"
proof -
  have "parse_rate_response_with_auth c [1, 2, 3] AuthNone None None \<noteq> Ok r" for c r
    using parse_rate_response_iff [of c "[1, 2, 3]" AuthNone r] 
    by (auto simp: cookie_hash_cache_def aes_key_cache_def tenant_shape_def tenant_wire_def dest!: arg_cong [of _ _ length])
  then show ?thesis
    by (auto simp: answer_of_def fixture_def sample_timed_def malformed_reply_def split: res.splits)
qed

lemma network_outcome:
  assumes "u \<noteq> 0" "n \<le> MAX_REPLAY_COUNT" "unat u * (unat n + 1 + unat f) < 2 ^ 32"
  shows "scenario (plain_policy u n f c) arrivals = Some
    (case documented_choice fixture (plain_policy u n f c) 0 arrivals of
       Some r \<Rightarrow> Ok (resp_decision (response_of r), resp_selected_server_id (response_of r))
     | None \<Rightarrow> Err CoreTimeout)"
proof -
  let ?p = "plain_policy u n f c"
  have "valid_policy ?p" "horizon_spec ?p < 2 ^ 32" "pending 0 arrivals"
    using assms by (simp_all add: plain_policy_valid plain_policy_horizon pending_def split: list.splits)
  from policy_outcome_timed [OF network_timed this] obtain p1 e1 where
    po: "policy_outcome fixture ?p fresh_progress (0, arrivals) = Some (Ok (documented_choice fixture ?p 0 arrivals), p1, e1)"
    by blast
  obtain p2 where "send_to_missing fixture p1 e1 = (Ok (), p2, e1)"
    using send_to_missing_timed [OF network_timed] .
  then show ?thesis using po
    by (cases "documented_choice fixture ?p 0 arrivals")
      (auto simp: scenario_def exchange_request_def timed_clock [OF network_timed] Let_def)
qed

lemma plain_initial_gap: "gap (replay_gap (plain_policy u n f c)) 0 = 1" "unit_ms (plain_policy u n f c) = u"
  by (simp_all add: plain_policy_def gap_def fixed_def)

lemma network_allowed: "allowed_server_ids (ex_resolved fixture) = [100, 200]"
  by (simp add: fixture_def)

lemmas scenario_simps = network_outcome MAX_REPLAY_COUNT_def documented_choice_def plain_policy_horizon
  plain_initial_gap network_reply network_malformed network_allowed at_ms_def initial_choice_def
  oldest_responder_def Let_def response_result_def response_of_def

lemma test_oldest_server_wins_even_when_a_younger_server_responds_first:
  "scenario (plain_policy 80 0 0 False) [(at_ms 1, server_reply 200 Granted), (at_ms 20, server_reply 100 Rejected)] =
    Some (Ok (Rejected, Some 100))"
  by (simp add: scenario_simps)

lemma test_initial_round_fallback:
  "scenario (plain_policy 50 1 0 True) [(at_ms 0, server_reply 200 Granted)] = Some (Ok (Granted, Some 200))"
  by (simp add: scenario_simps)

lemma test_silent_initial_round_replays_to_all_missing_servers:
  "scenario (plain_policy 50 1 0 False) [(at_ms 51, server_reply 200 Granted), (at_ms 70, server_reply 100 Rejected)] =
    Some (Ok (Granted, Some 200))"
  by (simp add: scenario_simps)

lemma test_delayed_response_can_complete_in_the_final_receive_phase:
  "scenario (plain_policy 50 0 1 False) [(at_ms 70, server_reply 100 Granted)] = Some (Ok (Granted, Some 100))"
  by (simp add: scenario_simps)

lemma test_malformed_response_is_ignored_and_the_request_is_replayed:
  "scenario (plain_policy 50 1 0 False) [(at_ms 0, malformed_reply), (at_ms 50, server_reply 100 Granted)] =
    Some (Ok (Granted, Some 100))"
  by (simp add: scenario_simps)

lemma test_silent_horizon_returns_timeout:
  "scenario (plain_policy 30 0 0 False) [] = Some (Err CoreTimeout)"
  by (simp add: scenario_simps)

section \<open>Keys, builders and requests\<close>

lemma test_decodes_canonical_format_v1_default_key:
  "decode_api_key ''rl-none1qyyqwps9qspsyq2sk8e0sfdp3ys'' = Ok
    \<lparr>d_hrp = ''rl-none'', d_auth_method = ''none'', d_format_version = 1,
     d_key_id = 0x0102030405060708, d_auth_secret = [], d_limits = Some
       \<lparr>rate_buckets_max = 65536, latency_services_max = 1024, metrics_labels_max = 4096,
        latency_buffer_size_max = 32, dedup_ttl_ms_max = 300, rate_window_size_ms_max = - 1\<rparr>\<rparr>"
  by (simp add: sample_key_decodes sample_key_limits_def)

definition sample_limits_64 :: api_key_limits where
  "sample_limits_64 = \<lparr>rate_buckets_max = 65536, latency_services_max = 1024, metrics_labels_max = 4096,
     latency_buffer_size_max = 64, dedup_ttl_ms_max = 300, rate_window_size_ms_max = - 1\<rparr>"

lemma sample_limits_64_valid: "valid_limits sample_limits_64"
proof -
  have "pow2_below 25 65536" "pow2_below 25 1024" "pow2_below 32 4096" "pow2_below 16 64"
    unfolding pow2_below_iff
    by (rule exI [of _ 16], simp, rule exI [of _ 10], simp, rule exI [of _ 12], simp, rule exI [of _ 6], simp)
  then show ?thesis by (simp add: valid_limits_def sample_limits_64_def)
qed

lemma test_decodes_cookie_and_aes_keys:
  assumes "(m, secret) \<in> {(''none'', []), (''cookie'', replicate 32 2), (''aes'', replicate 32 3)}"
  shows "\<exists>s. encode_api_key m kid secret sample_limits_64 = Ok s \<and> decode_api_key s =
    Ok \<lparr>d_hrp = ''rl-'' @ m, d_auth_method = m, d_format_version = 1, d_key_id = kid,
      d_auth_secret = secret, d_limits = Some sample_limits_64\<rparr>"
  using encoded_key_decodes [OF _ sample_limits_64_valid, of m secret kid] assms
  by (auto simp: credential_ok_def FORMAT_VERSION_def)

lemma test_api_key_is_redacted:
  "api_key_debug \<lparr>ak_key_id = k, ak_auth_method = m, ak_limits = l\<rparr> =
    api_key_debug \<lparr>ak_key_id = k, ak_auth_method = m', ak_limits = l'\<rparr>"
  by (simp add: api_key_debug_def)

lemma test_tracker_builder_requires_a_complete_definition:
  "tracker_build hash (tracker_builder ''inventory'') = Err (missing_field ''sample lifetime'')"
  by (simp add: tracker_build_def tracker_builder_def)

lemma test_request_builder_accepts_a_bounded_metrics_label:
  "metrics_label ''checkout-api'' b = Ok (b\<lparr>rb_metrics_label := Some ''checkout-api''\<rparr>)"
  "length label = 65527 \<Longrightarrow> metrics_label label b = Err (InvalidConfiguration InvalidMetricsLabel)"
  by (simp_all add: metrics_label_def MAX_METRICS_LABEL_LEN_def)

lemma test_request_builder_validates_token_quantities:
  "consume r 0 b = Err (InvalidConfiguration InvalidTokenQuantity)"
  "consume r 70000 b = Err (InvalidConfiguration InvalidTokenQuantity)"
  by (simp_all add: consume_def checked_tokens_def)

lemma test_default_service_domain:
  "bd_service_domain (client_builder_new \<lparr>ak_key_id = 0x0102030405060708, ak_auth_method = AuthNone,
     ak_limits = l\<rparr>) = ''c-72623859790382856.p0.ratelimitly.com''"
proof -
  have "show_nat 72623859790382856 = ''72623859790382856''" by code_simp
  then show ?thesis by (simp add: client_builder_new_def)
qed

lemma test_empty_request_grants_locally:
  "map_option fst (send w (request c) s) = Some (Ok \<lparr>resp_decision = Granted, resp_resource_results = [],
    resp_guard_results = [], resp_selected_server_id = None\<rparr>)"
  by (simp add: send_def request_def check_rate_limit_def
      validate_rate_windows_against_quota_def local_grant_def response_of_def)

lemma test_client_rejects_policy_beyond_api_key_limit:
  assumes "dedup_ttl_ms_max (ak_limits (bd_api_key b)) = 300" "bd_request_policy b = plain_policy 200 1 1 True"
  shows "client_build w b e = (Err (InvalidConfiguration RequestPolicyExceedsApiKey), e)"
  using assms by (simp add: client_build_def Let_def horizon_ms_eq plain_policy_valid plain_policy_horizon MAX_REPLAY_COUNT_def)

lemma test_inflight_registration_removes_cancelled_request:
  "inflight (register_request i ch r) i = Some ch" "inflight (drop_registration i (register_request i ch r)) i = None"
  by (simp_all add: register_request_def drop_registration_def)

section \<open>Traffic\<close>

lemma test_headers_empty_datagrams_failures_and_partial_sends:
  "traffic_of [Sent 0 (SocketV6 0xFFFF7F000001 1234 0 0) (Ok 0), Received 0 (SocketV6 0xFFFF7F000001 1234 0 0),
      Sent 100 (SocketV6 0xFFFF7F000001 1234 0 0) (Err error), Sent 100 (SocketV6 0xFFFF7F000001 1234 0 0) (Ok 99)] =
    \<lparr>ts_sent = \<lparr>td_datagrams = 1, td_payload_bytes = 0, td_ip_bytes = 28\<rparr>,
     ts_received = \<lparr>td_datagrams = 1, td_payload_bytes = 0, td_ip_bytes = 28\<rparr>,
     ts_send_failures = 2, ts_incomplete = False\<rparr>"
proof -
  have all: "(\<exists>c. P c) \<longleftrightarrow> list_ex P enum_class.enum" for P :: "counter \<Rightarrow> bool"
    using counter_in_enum by (auto simp: list_ex_iff)
  show ?thesis
    unfolding traffic_of_def all
    by (simp add: total_defs clamp_def enum_counter_def header_bytes_def is_ipv4_mapped_def)
qed

lemma test_saturates_and_remembers_incomplete_totals:
  "saturating_add (- 2) 29 = (- 1 :: u64)" "checked_add (- 2) (29 :: u64) = None"
  by code_simp+

text \<open>Four tasks of a thousand sends each, in any interleaving.\<close>

lemma test_concurrent_updates_are_not_lost:
  assumes "add_reachable (map task_ops (replicate 4 (replicate 1000 (Sent 10 (SocketV6 1 1 0 0) (Ok 10))))) s"
    and "all_done s"
  shows "ts_sent (snapshot (shared s)) =
    \<lparr>td_datagrams = 4000, td_payload_bytes = 40000, td_ip_bytes = 232000\<rparr>"
proof -
  let ?e = "Sent 10 (SocketV6 1 1 0 0) (Ok 10)"
  have "concat (replicate 4 (replicate 1000 ?e)) = replicate 4000 ?e"
    by (simp add: numeral_eq_Suc flip: replicate_add)
  moreover have "sent_whole (replicate n ?e) = replicate n (10, SocketV6 1 1 0 0)" for n
    by (simp add: sent_whole_def List.map_filter_def)
  moreover have "snapshot (shared s) = traffic_of (concat (replicate 4 (replicate 1000 ?e)))"
    by (rule finished_snapshot [OF _ assms]) (simp add: list_all_iff)
  ultimately show ?thesis
    by (simp add: traffic_of_def clamp_def header_bytes_def is_ipv4_mapped_def sum_list_replicate)
qed

section \<open>Steering and concurrent requests\<close>

lemma test_steering_feedback_changes_the_source_port_for_the_next_request:
  assumes "apply_steering_feedback os True True False result s o1 = (Ok (), s', o')" "\<not> rl_steering_feedback result"
    and "sockets_on port (sockets s)" "port_taken os port"
  shows "\<not> sockets_on port (sockets s')"
  by (rule steering_leaves_port [OF assms(1,2,4)])

text \<open>
  The concurrent requests of the scenario, active at once, send from one source port; a
  request that is active after a rebind sends from another.
\<close>

lemma test_steering_waits_for_concurrent_requests_before_rebinding:
  assumes "system_reachable ts s" "system_reachable ts t"
    and "\<forall>i < 16. pcs (protocol s) i = Requesting \<and> (\<exists>c. registration s i = Some (request_id i, c)) \<and>
      (i, request_id i, sent i) \<in> sent_from s"
    and "pcs (protocol t) 16 = Requesting" "registration t 16 = Some (request_id 16, c)"
      "(16, request_id 16, later) \<in> sent_from t" "epoch (protocol t) = epoch (protocol s) + 1"
  shows "\<forall>i < 16. sent i = sent (0 :: nat) \<and> later \<noteq> sent i"
proof -
  have "sent i = epoch (protocol s)" if "i < 16" for i
    using live_send_current [OF system_reachable_inv [OF assms(1)]] assms(3) that by blast
  moreover have "later = epoch (protocol t)"
    by (rule live_send_current [OF system_reachable_inv [OF assms(2)] assms(6,4,5)])
  ultimately show ?thesis using assms(7) by simp
qed

end
