(* ===== verification/Spec2Isabelle.thy ===== *)
theory Spec2Isabelle
  imports Conformance
begin

text \<open>
  A verification development of the Ratelimitly Rust client (\<open>src/\<close> of the repository).

  \<^bold>\<open>The program.\<close>  A client asks a set of rate-limit servers for permission to consume
  resources.  \<open>public_client.rs\<close> offers builders for clients and requests; \<open>client.rs\<close>
  discovers servers by DNS SRV records, builds one UDP packet per request, sends it to
  every server, replays it on a schedule, routes the datagrams that come back to the
  requests they name, authenticates and parses them, prefers the answer of the oldest
  server, and moves to another source port when a response advises it.  Keys are Bech32
  text with packed limits (\<open>api_key.rs\<close>, \<open>api_key_codec.rs\<close>); packets are framed, hashed
  and sealed as \<open>protocol.rs\<close> says; \<open>request_policy.rs\<close> computes schedules and the horizon
  of a request; \<open>traffic.rs\<close> counts datagrams.

  \<^bold>\<open>Theories and what they model.\<close>
    \<^item> \<open>Prelude\<close>: outcomes \<open>res\<close> (\<open>Ok\<close>, \<open>Err\<close>, \<open>Panic\<close>: every \<open>unwrap\<close>, \<open>expect\<close>, slice and
      checked operation of the code is a branch), little-endian bytes, durations,
      saturating and checked words, decimal text, and the locale \<open>progress_system\<close> of
      tasks that never block, which \<open>Traffic\<close>, \<open>Steering\<close> and \<open>ClientSystem\<close> interpret.  \<open>Errors\<close>: \<open>error.rs\<close>.
    \<^item> \<open>RequestPolicy\<close>: \<open>Schedule::units\<close>, \<open>RequestPolicy::horizon_ms\<close> and the builder.  The
      locale \<open>gap_schedule\<close> relates a schedule to its mathematical gaps.
    \<^item> \<open>Bech32\<close>, \<open>ApiKey\<close>: the codec, key payloads, \<open>ApiKey::from_str\<close>, and the encoder of
      the test module.
    \<^item> \<open>Wire\<close>, \<open>Packet\<close>, \<open>Response\<close>: identifiers, blocks, the packet builders, the parser.
      The locales \<open>wire_writer\<close>, \<open>wire_codec\<close>, \<open>append_loop\<close> and \<open>block_loop\<close> hold what the
      block formats and their loops share; each block interprets them.
    \<^item> \<open>Model\<close>: \<open>model.rs\<close>, resources, trackers with their builders, responses.
    \<^item> \<open>Dns\<close>: domain names, SRV targets, the construction of the resolver, the server list, its
      refresh, request targets.
    \<^item> \<open>Traffic\<close>: the atomic counters as a step relation of concurrent tasks, one
      compare-and-swap at a time, and the plain totals of datagrams they refine.
    \<^item> \<open>Sockets\<close>: the socket pair of both families, the search for a port (locale \<open>ring\<close>).
    \<^item> \<open>Steering\<close>: one rebind as a function, and the protocol between requests, steering
      tasks and the router (read and write guards, apply lock, pending flag, epochs) as a
      step relation with faults.
    \<^item> \<open>HaPolicy\<close>: sending, accepting responses, the receive windows, rounds and selection of
      \<open>_check_rate_limit_with_retries\<close>.  \<open>HaSelection\<close>: the algorithm of
      \<open>docs/ha-policy.md\<close> as a function of arrivals.
    \<^item> \<open>Router\<close>: the registry of requests in flight and one turn of \<open>response_router\<close>.
    \<^item> \<open>ClientSystem\<close>: the concurrent client, a step relation that composes \<open>Steering\<close> and
      \<open>Router\<close>: tasks that take the activity guard, register, send, read their channel and
      drop the registration, the datagrams that wait on the sockets of each epoch, faults.
    \<^item> \<open>CoreClient\<close>: \<open>CoreClient::new\<close>, \<open>check_rate_limit\<close>, \<open>report_latency\<close>, composed of the
      above as the code composes them, and the clients that operations lead to.
    \<^item> \<open>PublicClient\<close>: \<open>ClientBuilder\<close>, \<open>RequestBuilder\<close>, \<open>Client::report_latency\<close>.
    \<^item> \<open>EndToEnd\<close>: lemmas across components; this theory states the properties they give.
    \<^item> \<open>Conformance\<close>: the repository's own tests, replayed on the model as lemmas.

  \<^bold>\<open>What is shown.\<close>  End to end: a decision rests on an authenticated datagram that names
  the request, and such a datagram reaches it; consumptions, guards and reports carry the
  identifiers the caller sees; reports go to every server once; sending returns and never
  panics.  Requests: the exchange computes the documented choice, returns by the horizon
  it announces and keeps the answer of the oldest responder.  Formats: the parsers accept
  exactly the grammar and never panic on any bytes, what is built reads back, keys round
  trip, the checksum detects bursts.  Concurrency: the router gives each request an inbox
  of its own, steering never takes a socket from an active request (nor, without faults,
  has the router read from another one) and loses no advisory; composed, the registry is
  at every moment exactly the registrations that tasks hold, a request sends from one
  socket, the answers that wait on it are delivered by the router alone, and from every
  reachable state all tasks can finish and leave registry and locks empty; the counters
  show the totals of the datagrams once their tasks end.  Discovery, policies and
  builders have their exact input-output behaviour with every error.

  \<^bold>\<open>Parameters.\<close>  Code outside the repository is an argument: Blake2s (\<open>hash\<close>, at least 16
  bytes out), AES-256-GCM (\<open>seal\<close>, \<open>open\<close>; \<open>aead\<close> states that it opens what it sealed and
  adds 16 bytes), the resolver package, the kernel (\<open>os\<close>, \<open>transmit\<close>), clocks, UUIDs and nonces.
  \<open>sound_world\<close> lists what is assumed of them, \<open>punctual\<close> that waiting for \<open>t\<close> ends by \<open>t\<close>
  and that finitely many datagrams come in finite time, \<open>routed_world\<close> that receptions
  come from the router (\<open>routed_channels\<close> proves this of \<open>Router\<close>).  Each has an instance
  in a witness.

  \<^bold>\<open>Bounds.\<close>  Integers that can overflow are words of their width.  Counts of events
  (statistics, epochs of the steering protocol) are natural numbers, as \<open>2 ^ 64\<close> events
  are out of reach.  Receive windows are \<open>partial_function\<close>s whose value \<open>None\<close> means that
  the loop never ends; \<open>exchange_returns_by_horizon\<close> excludes it.  All other recursion is
  total, so no fuel is used.  Strings are lists of bytes (UTF-8), times are nanoseconds.

  \<^bold>\<open>Not modelled.\<close>  The asynchronous runtime (tasks are step relations or state passing; the
  future of a request that is dropped is the step \<open>deregister\<close> of \<open>ClientSystem\<close> and the
  faults of \<open>Steering\<close>), \<open>Drop\<close> of the client, which aborts a task, log output, \<open>lib.rs\<close>
  (re-exports), tests of real sockets and threads, examples and release scripts.
\<close>

section \<open>Properties of the whole client\<close>



text \<open>
  C4: an answer to a request in flight is never lost or refused on the client's side: a
  peer's datagram that names the request, carries an authenticated rate response of a
  server the request was sent to and fits the buffer is put on the channel of this
  request and of no other, and the exchange accepts it with exactly the results it states.
\<close>

theorem answer_reaches_request:
  assumes "sound_world w" "client_reachable w cl" "names_short rs gs"
    and "prepare_request w rs gs label (cl, e) = (Ok (ttl, resolved, request_id, packet), cl1, e1)"
    and "server_answer w cl request_id h gbs rbs data" "allowed_server resolved (th_key_id h)"
    and "length data \<le> BUFFER_LEN ts" "inflight s request_id = Some channel"
  shows "channels (snd (route ts (Datagram data addr) s)) =
      (channels s)(channel := channels s channel @ [\<lparr>rp_data = data, rp_addr = addr\<rparr>]) \<and>
    (\<exists>p' e'. accept_policy_response (exchange_of w cl1 request_id packet resolved) \<lparr>rp_data = data, rp_addr = addr\<rparr> p e2 =
        (Some (answer_result h gbs rbs), p', e') \<and>
      seen_server_ids p' = insert (th_key_id h) (seen_server_ids p) \<and> seen_addrs p' = insert addr (seen_addrs p))"
proof -
  have inv: "client_inv w cl" by (rule client_reachable_inv [OF assms(1,2)])
  have "same_client cl cl1" using prepare_same_client [OF assms(1) inv assms(3,4)] by blast
  then show ?thesis
    using route_answer [OF server_answer_named [OF assms(5)] assms(7,8)] answer_accepted [OF inv _ assms(5,6)]
    by blast
qed

theorem answer_reaches_request_witness:
  "\<exists>packet. channels (snd (route True (Datagram (sample_response 3) (SocketV4 7 100))
      (register_request (replicate 16 9) 4 empty_router))) 4 = [sample_reply] \<and>
    (\<exists>p' e'. accept_policy_response (exchange_of sample_world sample_found (replicate 16 9) packet sample_resolved)
      sample_reply fresh_progress (0, []) = (Some (answer_result (sample_header 3) [] []), p', e') \<and>
      seen_server_ids p' = {3})"
proof -
  have names: "names_short [sample_resource] []"
    by (simp add: names_short_def short_name_def sample_resource_def)
  obtain packet where p: "prepare_request sample_world [sample_resource] [] None (sample_client, (100000000000, [])) =
      (Ok (60, sample_resolved, replicate 16 9, packet), sample_found, (100000000000, []))"
    using sample_prepare by blast
  have answer: "server_answer sample_world sample_client (replicate 16 9) (sample_header 3) [] [] (sample_response 3)"
    by (rule sample_server_answer)
  have allowed: "allowed_server sample_resolved (th_key_id (sample_header 3))"
    by (simp add: allowed_server_def sample_resolved_def sample_header_def)
  have fits: "length (sample_response 3) \<le> BUFFER_LEN True" by (simp add: sample_response_length BUFFER_LEN_def)
  have registered: "inflight (register_request (replicate 16 9) 4 empty_router) (replicate 16 9) = Some 4"
    by (simp add: register_request_def)
  from answer_reaches_request [OF sample_world_sound sample_client_world names p answer allowed fits registered,
      of "SocketV4 7 100" fresh_progress "(0, [])"]
  show ?thesis
    by (auto simp: register_request_def empty_router_def sample_reply_def fresh_progress_def sample_header_def)
qed

text \<open>
  C19: what the caller consumes is what the server sees: the resource block of the last
  consumption carries the resource's own identifier, by which results are matched to it,
  its window and rate, and exactly the number of tokens asked for.
\<close>

theorem consumed_resource_identified:
  assumes "resource_new hash name window limit = Ok r" "consume r tokens b = Ok b'"
    and "build_rate_request_body hash (rb_resources b') gs label = Ok body" "build_rate_request_pdu ttl body = Ok pdu"
  shows "\<exists>block. read_resource (drop (12 + 36 * length gs + 28 * length (rb_resources b)) pdu) = Ok block \<and>
    rb_bucket_id block = r_id r \<and> rb_window_size_ms block = r_window_ms r \<and> rb_rate_limit block = r_rate_limit r \<and>
    unat (rb_tokens_requested block) = unat tokens"
  by (rule resource_on_wire [OF assms])

theorem consumed_resource_identified_witness:
  "\<exists>body pdu block. build_rate_request_body (\<lambda>x. replicate 32 7) (rb_resources sample_unlabelled) [] None = Ok body \<and>
    build_rate_request_pdu 60 body = Ok pdu \<and> read_resource (drop 12 pdu) = Ok block \<and>
    rb_bucket_id block = r_id checkout \<and> unat (rb_tokens_requested block) = 1"
proof -
  have rs: "rb_resources sample_unlabelled = [sample_resource]" by (simp add: sample_unlabelled_def)
  obtain body pdu where b: "build_rate_request_body (\<lambda>x. replicate 32 7) (rb_resources sample_unlabelled) [] None = Ok body"
      "build_rate_request_pdu 60 body = Ok pdu"
    using sample_pdu unfolding rs by (auto simp: outcome_simps sample_world_def)
  from consumed_resource_identified [OF checkout_new checkout_consume b] b show ?thesis
    by (auto simp: request_def)
qed

text \<open>
  C20: a latency guard and a latency report on one tracker mean the same tracker to the
  server: both blocks carry the identifier of the tracker.
\<close>

theorem guarded_tracker_identified:
  assumes "tracker_build hash tb = Ok t" "guard t threshold b = Ok b'"
    and "build_rate_request_body hash rs (rb_guards b') label = Ok body" "build_rate_request_pdu ttl body = Ok pdu"
    and "build_latency_report_body hash [report_of t observed] = Ok report"
  shows "(\<exists>block. read_guard (drop (12 + 36 * length (rb_guards b)) pdu) = Ok block \<and>
      gb_latency_tracker_id block = t_id t \<and>
      duration_to_u32_ms threshold ''latency threshold'' = Ok (gb_latency_threshold block)) \<and>
    take 16 (drop 4 report) = t_id t \<and> drop (length report - 4) report = to_le 4 observed"
  using tracker_on_wire [OF assms(1-4)] report_on_wire [OF assms(1,5)] tracker_id_length [OF assms(1)]
  by (simp add: latency_wire_def latency_block_of_def report_of_def)


theorem guarded_tracker_identified_witness:
  "\<exists>b' body pdu report block. guard db_tracker (dur_from_millis 20) (request sample_public) = Ok b' \<and>
    build_rate_request_body (\<lambda>x. replicate 32 7) [] (rb_guards b') None = Ok body \<and>
    build_rate_request_pdu 60 body = Ok pdu \<and>
    build_latency_report_body (\<lambda>x. replicate 32 7) [report_of db_tracker 5] = Ok report \<and>
    read_guard (drop 12 pdu) = Ok block \<and> gb_latency_tracker_id block = take 16 (drop 4 report)"
proof -
  obtain b' body pdu where b: "guard db_tracker (dur_from_millis 20) (request sample_public) = Ok b'"
      "build_rate_request_body (\<lambda>x. replicate 32 7) [] (rb_guards b') None = Ok body"
      "build_rate_request_pdu 60 body = Ok pdu"
    using db_guarded by blast
  obtain report where r: "build_latency_report_body (\<lambda>x. replicate 32 7) [report_of db_tracker 5] = Ok report"
    using db_report by blast
  from guarded_tracker_identified [OF db_tracker_built b r] b r show ?thesis
    by (auto simp: request_def)
qed



end
